(* ===== verification/Prelude.thy ===== *)
theory Prelude
  imports Main "HOL-Library.Word" "HOL-Library.Signed_Division" "HOL-Library.Multiset"
begin

text \<open>
  Shared vocabulary of the development: the C++ integer types and the casts the server
  uses between them, the model of the hash maps (\<open>absl::flat_hash_map\<close> and
  \<open>std::unordered_map\<close>) as association lists with distinct keys, and the two generic
  interfaces that the components instantiate: \<open>hash_map\<close> (what a find returns after an
  insert, an overwrite, an erase or a write through the stored pointer) and
  \<open>step_system\<close> (an invariant kept by one step is kept by a run).
\<close>

section \<open>Integers\<close>

text \<open>
  Unsigned types are machine words. The signed \<open>int32_t\<close> is \<open>int\<close>: signed overflow
  is undefined behaviour in C++, so the model keeps the mathematical value and the range
  lemmas show where it stays inside the type (\<open>i32_ok\<close>).
\<close>

unbundle bit_operations_syntax

type_synonym u8 = "8 word"
type_synonym u16 = "16 word"
type_synonym u32 = "32 word"
type_synonym u64 = "64 word"
type_synonym i32 = int

definition i32_ok :: "int \<Rightarrow> bool" where
  "i32_ok x \<longleftrightarrow> - (2 ^ 31) \<le> x \<and> x < 2 ^ 31"

text \<open>\<open>static_cast<uint32_t>(int32_t)\<close> and \<open>static_cast<int32_t>(uint32_t)\<close>.\<close>

definition to_u32 :: "i32 \<Rightarrow> u32" where
  "to_u32 x = word_of_int x"

definition to_i32 :: "u32 \<Rightarrow> i32" where
  "to_i32 w = sint w"

text \<open>Fact collections: unfolding rules of operations, invariant preservation, frame facts.\<close>

named_theorems op_defs
named_theorems inv_intros
named_theorems frame_simps

lemma to_u32_to_i32 [simp]: "to_u32 (to_i32 w) = w"
  by (simp add: to_u32_def to_i32_def)

lemma to_i32_inj [simp]: "to_i32 a = to_i32 b \<longleftrightarrow> a = b"
  by (metis to_u32_to_i32)

lemma to_i32_to_u32: "i32_ok x \<Longrightarrow> to_i32 (to_u32 x) = x"
  by (simp add: to_u32_def to_i32_def i32_ok_def sint_word_ariths signed_take_bit_int_eq_self
      sint_sbintrunc' del: signed_take_bit_int_eq_self_iff)

lemma to_i32_ok: "i32_ok (to_i32 w)"
  using sint_ge [of w] sint_lt [of w] by (simp add: to_i32_def i32_ok_def)

section \<open>Hash maps\<close>

text \<open>
  A hash map is the list of its entries in iteration order, with distinct keys. The C++
  iteration order is unspecified; every theorem quantifies over the list, so over any
  order. \<open>hm_insert\<close> is \<open>insert\<close>/\<open>emplace\<close>/\<open>try_emplace\<close> (an existing
  key wins), \<open>hm_set\<close> is \<open>m[k] = v\<close>, \<open>hm_mod\<close> is a write through the pointer
  stored under the key.
\<close>

type_synonym ('k, 'v) hmap = "('k \<times> 'v) list"

definition hm_keys :: "('k, 'v) hmap \<Rightarrow> 'k list" where
  "hm_keys m = map fst m"

definition hm_ok :: "('k, 'v) hmap \<Rightarrow> bool" where
  "hm_ok m \<longleftrightarrow> distinct (hm_keys m)"

definition hm_find :: "('k, 'v) hmap \<Rightarrow> 'k \<Rightarrow> 'v option" where
  "hm_find m k = map_of m k"

definition hm_insert :: "'k \<Rightarrow> 'v \<Rightarrow> ('k, 'v) hmap \<Rightarrow> ('k, 'v) hmap" where
  "hm_insert k v m = (if k \<in> set (hm_keys m) then m else m @ [(k, v)])"

definition hm_mod :: "'k \<Rightarrow> ('v \<Rightarrow> 'v) \<Rightarrow> ('k, 'v) hmap \<Rightarrow> ('k, 'v) hmap" where
  "hm_mod k f m = map (\<lambda>(k', v). (k', if k' = k then f v else v)) m"

definition hm_set :: "'k \<Rightarrow> 'v \<Rightarrow> ('k, 'v) hmap \<Rightarrow> ('k, 'v) hmap" where
  "hm_set k v m = (if k \<in> set (hm_keys m) then hm_mod k (\<lambda>_. v) m else m @ [(k, v)])"

definition hm_erase :: "'k \<Rightarrow> ('k, 'v) hmap \<Rightarrow> ('k, 'v) hmap" where
  "hm_erase k m = filter (\<lambda>e. fst e \<noteq> k) m"

lemma hm_find_None: "hm_find m k = None \<longleftrightarrow> k \<notin> set (hm_keys m)"
  by (simp add: hm_find_def hm_keys_def map_of_eq_None_iff)

lemma hm_find_Some_in: "hm_find m k = Some v \<Longrightarrow> (k, v) \<in> set m"
  by (simp add: hm_find_def map_of_SomeD)

lemma hm_find_iff: "hm_ok m \<Longrightarrow> hm_find m k = Some v \<longleftrightarrow> (k, v) \<in> set m"
  by (simp add: hm_find_def hm_ok_def hm_keys_def map_of_eq_Some_iff)

lemma hm_find_insert:
  "hm_find (hm_insert k v m) k' =
     (if k' = k \<and> hm_find m k = None then Some v else hm_find m k')"
proof (cases "k \<in> set (hm_keys m)")
  case True
  then show ?thesis using hm_find_None [of m k] by (auto simp: hm_insert_def)
next
  case False
  then have "hm_find m k = None" by (simp add: hm_find_None)
  with False show ?thesis
    by (auto simp: hm_insert_def hm_find_def map_add_def split: option.splits)
qed

lemma hm_find_mod:
  "hm_find (hm_mod k f m) k' = (if k' = k then map_option f (hm_find m k) else hm_find m k')"
  by (induction m) (auto simp: hm_mod_def hm_find_def)

lemma hm_keys_mod [simp]: "hm_keys (hm_mod k f m) = hm_keys m"
  by (induction m) (auto simp: hm_mod_def hm_keys_def)

lemma hm_ok_mod [simp]: "hm_ok (hm_mod k f m) = hm_ok m"
  by (simp add: hm_ok_def)

lemma hm_ok_insert [simp]: "hm_ok m \<Longrightarrow> hm_ok (hm_insert k v m)"
  by (auto simp: hm_ok_def hm_insert_def hm_keys_def)

lemma hm_find_set: "hm_find (hm_set k v m) k' = (if k' = k then Some v else hm_find m k')"
proof (cases "k \<in> set (hm_keys m)")
  case True
  then obtain w where "hm_find m k = Some w"
    using hm_find_None [of m k] by auto
  with True show ?thesis by (simp add: hm_set_def hm_find_mod)
next
  case False
  then have "hm_find m k = None" by (simp add: hm_find_None)
  with False show ?thesis
    by (auto simp: hm_set_def hm_find_def map_of_append map_add_def split: option.splits)
qed

lemma hm_ok_set [simp]: "hm_ok m \<Longrightarrow> hm_ok (hm_set k v m)"
  unfolding hm_set_def by (auto simp: hm_ok_def) (auto simp: hm_keys_def)

lemma hm_find_erase: "hm_find (hm_erase k m) k' = (if k' = k then None else hm_find m k')"
  by (induction m) (auto simp: hm_erase_def hm_find_def)

lemma hm_ok_erase [simp]: "hm_ok m \<Longrightarrow> hm_ok (hm_erase k m)"
  by (auto simp: hm_ok_def hm_erase_def hm_keys_def distinct_map_filter)

lemma hm_keys_erase: "set (hm_keys (hm_erase k m)) = set (hm_keys m) - {k}"
  by (auto simp: hm_keys_def hm_erase_def)

lemma hm_ok_Nil [simp]: "hm_ok []"
  by (simp add: hm_ok_def hm_keys_def)

locale hash_map =
  fixes valid :: "'m \<Rightarrow> bool"
    and find :: "'m \<Rightarrow> 'k \<Rightarrow> 'v option"
    and insert_new :: "'k \<Rightarrow> 'v \<Rightarrow> 'm \<Rightarrow> 'm"
    and overwrite :: "'k \<Rightarrow> 'v \<Rightarrow> 'm \<Rightarrow> 'm"
    and modify :: "'k \<Rightarrow> ('v \<Rightarrow> 'v) \<Rightarrow> 'm \<Rightarrow> 'm"
    and erase :: "'k \<Rightarrow> 'm \<Rightarrow> 'm"
  assumes find_insert: "valid m \<Longrightarrow> find (insert_new k v m) k' =
      (if k' = k \<and> find m k = None then Some v else find m k')"
    and find_overwrite: "valid m \<Longrightarrow> find (overwrite k v m) k' = (if k' = k then Some v else find m k')"
    and find_modify: "valid m \<Longrightarrow> find (modify k f m) k' =
      (if k' = k then map_option f (find m k) else find m k')"
    and find_erase: "valid m \<Longrightarrow> find (erase k m) k' = (if k' = k then None else find m k')"
    and valid_insert: "valid m \<Longrightarrow> valid (insert_new k v m)"
    and valid_overwrite: "valid m \<Longrightarrow> valid (overwrite k v m)"
    and valid_modify: "valid m \<Longrightarrow> valid (modify k f m)"
    and valid_erase: "valid m \<Longrightarrow> valid (erase k m)"
begin

lemma insert_keeps: "valid m \<Longrightarrow> find m k = Some w \<Longrightarrow> find (insert_new k v m) k = Some w"
  by (simp add: find_insert)

lemma erase_insert: "valid m \<Longrightarrow> find m k = None \<Longrightarrow> find (erase k (insert_new k v m)) k' = find m k'"
  by (simp add: find_erase find_insert valid_insert)

lemma modify_absent: "valid m \<Longrightarrow> find m k = None \<Longrightarrow> find (modify k f m) k' = find m k'"
  by (simp add: find_modify)

lemma fold_erase:
  "valid m \<Longrightarrow> find (fold erase ks m) k' = (if k' \<in> set ks then None else find m k')"
proof (induction ks arbitrary: m)
  case Nil
  then show ?case by simp
next
  case (Cons k ks)
  from Cons.prems have "valid (erase k m)" by (rule valid_erase)
  from Cons.IH [OF this] Cons.prems show ?case by (simp add: find_erase)
qed

end

interpretation hm: hash_map hm_ok hm_find hm_insert hm_set hm_mod hm_erase
  by unfold_locales
    (simp_all add: hm_find_insert hm_find_set hm_find_mod hm_find_erase)

section \<open>Runs\<close>

text \<open>
  A component that reacts to a sequence of inputs: one step preserves the invariant, so a
  run does. Instantiated by the receive window, the leave state machine and the NPC
  authority protocol.
\<close>

fun run :: "('s \<Rightarrow> 'i \<Rightarrow> 's) \<Rightarrow> 's \<Rightarrow> 'i list \<Rightarrow> 's" where
  "run step s [] = s"
| "run step s (x # xs) = run step (step s x) xs"

lemma run_append: "run step s (xs @ ys) = run step (run step s xs) ys"
  by (induction xs arbitrary: s) auto

locale step_system =
  fixes step :: "'s \<Rightarrow> 'i \<Rightarrow> 's"
    and inv :: "'s \<Rightarrow> bool"
  assumes step_inv: "inv s \<Longrightarrow> inv (step s i)"
begin

lemma run_inv: "inv s \<Longrightarrow> inv (run step s is)"
  by (induction "is" arbitrary: s) (auto intro: step_inv)

end

text \<open>
  A component whose steps, from states of its invariant, never decrease a rank (a state machine
  that only moves forward).
\<close>

locale monotone_system = step_system step inv
  for step :: "'s \<Rightarrow> 'i \<Rightarrow> 's" and inv :: "'s \<Rightarrow> bool" +
  fixes rank :: "'s \<Rightarrow> nat"
  assumes step_mono: "inv s \<Longrightarrow> rank s \<le> rank (step s i)"
begin

lemma run_mono: "inv s \<Longrightarrow> rank s \<le> rank (run step s is)"
proof (induction "is" arbitrary: s)
  case (Cons i "is")
  have "rank s \<le> rank (step s i)" using Cons.prems by (rule step_mono)
  also have "\<dots> \<le> rank (run step (step s i) is)" using Cons.prems by (intro Cons.IH step_inv)
  finally show ?case by simp
qed simp

end

section \<open>Lists\<close>

lemma sum_list_update:
  fixes f :: "'a \<Rightarrow> int"
  assumes "i < length xs"
  shows "(\<Sum>x\<leftarrow>xs[i := y]. f x) = (\<Sum>x\<leftarrow>xs. f x) - f (xs ! i) + f y"
  using assms
proof (induction xs arbitrary: i)
  case Nil
  then show ?case by simp
next
  case (Cons x xs)
  then show ?case by (cases i) auto
qed

lemma sum_list_nonneg_int: "(\<And>x. x \<in> set xs \<Longrightarrow> 0 \<le> f x) \<Longrightarrow> (0::int) \<le> (\<Sum>x\<leftarrow>xs. f x)"
  by (induction xs) auto

lemma sum_list_member_le:
  fixes f :: "'a \<Rightarrow> int"
  assumes "\<And>x. x \<in> set xs \<Longrightarrow> 0 \<le> f x" and "y \<in> set xs"
  shows "f y \<le> (\<Sum>x\<leftarrow>xs. f x)"
  using assms
proof (induction xs)
  case Nil
  then show ?case by simp
next
  case (Cons x xs)
  have "0 \<le> (\<Sum>x\<leftarrow>xs. f x)" using Cons.prems by (intro sum_list_nonneg_int) auto
  with Cons show ?case by fastforce
qed

end
