(* ===== verification/Items.thy ===== *)
theory Items
  imports Prelude
begin

text \<open>
  \<open>src/DedicateProcess/Items.h\<close> and \<open>ItemDataManager.h\<close>: items, slots and the static
  item tables. A slot of the model carries the three fields of the C++ struct; the abstract
  view of a slot used by the conservation laws is the amount of a blueprint it holds
  (\<open>qty_of\<close>).
\<close>

datatype ItemType = IT_NONE | IT_WEAPON | IT_ARMOR | IT_AMMO | IT_MISC

record Item =
  instanceUid :: u64
  blueprintId :: u32

record Slot =
  slot_item :: Item
  slotIndex :: i32
  quantity :: i32

definition WORLD_ITEM_UID_BASE :: u64 where
  "WORLD_ITEM_UID_BASE = push_bit 62 1"

definition Item_default :: Item where
  "Item_default = \<lparr>instanceUid = 0, blueprintId = 0\<rparr>"

definition Slot_default :: Slot where
  "Slot_default = \<lparr>slot_item = Item_default, slotIndex = - 1, quantity = 0\<rparr>"

definition IsEmpty :: "Slot \<Rightarrow> bool" where
  "IsEmpty s \<longleftrightarrow> quantity s \<le> 0 \<and> blueprintId (slot_item s) = 0"

definition Clear :: "Slot \<Rightarrow> Slot" where
  "Clear s = s\<lparr>slot_item := Item_default, quantity := 0\<rparr>"

abbreviation bp :: "Slot \<Rightarrow> u32" where
  "bp s \<equiv> blueprintId (slot_item s)"

section \<open>ItemDataManager\<close>

record WeaponSpec =
  baseDamage :: i32
  RPM :: i32
  maxAmmo :: i32
  MOA :: i32
  vRecoilMin :: i32
  vRecoilMax :: i32
  hRecoilMax :: i32
  spreadBase :: i32
  spreadMax :: i32
  spreadIncreasePerShot :: i32
  spreadRecoveryRate :: i32
  ammoType :: i32

record ArmorSpec =
  maxShieldPoint :: i32
  DamageReductionRate :: i32
  regenerationPerSecond :: i32

definition typeMap :: "(i32, ItemType) hmap" where
  "typeMap = [(1, IT_WEAPON), (2, IT_WEAPON), (3, IT_WEAPON), (4, IT_ARMOR),
              (5, IT_AMMO), (6, IT_AMMO), (7, IT_MISC), (8, IT_ARMOR)]"

definition weaponSpecs :: "(u32, WeaponSpec) hmap" where
  "weaponSpecs =
     [(1, \<lparr>baseDamage = 4800, RPM = 600, maxAmmo = 30, MOA = 0, vRecoilMin = 200,
           vRecoilMax = 220, hRecoilMax = 50, spreadBase = 30, spreadMax = 800,
           spreadIncreasePerShot = 120, spreadRecoveryRate = 600, ammoType = 6\<rparr>),
      (2, \<lparr>baseDamage = 4000, RPM = 700, maxAmmo = 30, MOA = 0, vRecoilMin = 150,
           vRecoilMax = 165, hRecoilMax = 40, spreadBase = 30, spreadMax = 800,
           spreadIncreasePerShot = 100, spreadRecoveryRate = 600, ammoType = 5\<rparr>),
      (3, \<lparr>baseDamage = 4200, RPM = 650, maxAmmo = 30, MOA = 0, vRecoilMin = 200,
           vRecoilMax = 220, hRecoilMax = 50, spreadBase = 30, spreadMax = 800,
           spreadIncreasePerShot = 120, spreadRecoveryRate = 600, ammoType = 5\<rparr>)]"

definition armorSpecs :: "(u32, ArmorSpec) hmap" where
  "armorSpecs =
     [(4, \<lparr>maxShieldPoint = 10000, DamageReductionRate = 5000, regenerationPerSecond = 800\<rparr>),
      (8, \<lparr>maxShieldPoint = 16000, DamageReductionRate = 5000, regenerationPerSecond = 800\<rparr>)]"

text \<open>\<open>GetType\<close> takes an \<open>int32_t\<close>: a \<open>uint32_t\<close> blueprint id is converted at the call.\<close>

definition GetType :: "i32 \<Rightarrow> ItemType" where
  "GetType i = (case hm_find typeMap i of Some t \<Rightarrow> t | None \<Rightarrow> IT_NONE)"

definition GetWeaponSpec :: "u32 \<Rightarrow> WeaponSpec option" where
  "GetWeaponSpec i = hm_find weaponSpecs i"

definition GetArmorSpec :: "u32 \<Rightarrow> ArmorSpec option" where
  "GetArmorSpec i = hm_find armorSpecs i"

abbreviation slot_type :: "Slot \<Rightarrow> ItemType" where
  "slot_type s \<equiv> GetType (to_i32 (bp s))"

lemma GetType_0 [simp]: "GetType 0 = IT_NONE"
  by (simp add: GetType_def hm_find_def typeMap_def)

lemma weapon_spec_cases:
  "GetWeaponSpec i = Some sp \<Longrightarrow>
     (i = 1 \<or> i = 2 \<or> i = 3) \<and> 0 < baseDamage sp \<and> 0 < maxAmmo sp \<and>
     GetType (ammoType sp) = IT_AMMO \<and> GetType (to_i32 i) = IT_WEAPON"
  by (auto simp: GetWeaponSpec_def hm_find_def weaponSpecs_def GetType_def typeMap_def
      to_i32_def split: if_splits)

lemma armor_spec_cases:
  "GetArmorSpec i = Some sp \<Longrightarrow>
     (i = 4 \<or> i = 8) \<and> 0 < maxShieldPoint sp \<and> 0 \<le> DamageReductionRate sp \<and>
     DamageReductionRate sp \<le> 10000 \<and> 0 \<le> regenerationPerSecond sp \<and>
     regenerationPerSecond sp \<le> 800 \<and> maxShieldPoint sp \<le> 16000"
  by (auto simp: GetArmorSpec_def hm_find_def armorSpecs_def split: if_splits)

section \<open>Abstract view of slots\<close>

text \<open>
  A well-formed slot is either cleared or holds a positive amount of a real blueprint; the
  C++ test \<open>IsEmpty\<close> needs both conditions, and they agree on well-formed slots.
\<close>

definition slot_ok :: "Slot \<Rightarrow> bool" where
  "slot_ok s \<longleftrightarrow> (bp s = 0 \<and> quantity s = 0) \<or> (bp s \<noteq> 0 \<and> 0 < quantity s)"

definition qty_of :: "u32 \<Rightarrow> Slot \<Rightarrow> int" where
  "qty_of b s = (if bp s = b then quantity s else 0)"

definition qty_list :: "u32 \<Rightarrow> Slot list \<Rightarrow> int" where
  "qty_list b ss = (\<Sum>s\<leftarrow>ss. qty_of b s)"

lemma slot_ok_empty: "slot_ok s \<Longrightarrow> IsEmpty s \<longleftrightarrow> bp s = 0"
  by (auto simp: slot_ok_def IsEmpty_def)

lemma slot_ok_pos: "slot_ok s \<Longrightarrow> \<not> IsEmpty s \<Longrightarrow> 0 < quantity s"
  by (auto simp: slot_ok_def IsEmpty_def)

lemma slot_ok_nonneg: "slot_ok s \<Longrightarrow> 0 \<le> quantity s"
  by (auto simp: slot_ok_def)

lemma Clear_simps [simp]:
  "bp (Clear s) = 0" "quantity (Clear s) = 0" "slotIndex (Clear s) = slotIndex s"
  "IsEmpty (Clear s)" "slot_ok (Clear s)"
  by (auto simp: Clear_def IsEmpty_def slot_ok_def Item_default_def)

lemma Slot_default_simps [simp]:
  "IsEmpty Slot_default" "slot_ok Slot_default" "bp Slot_default = 0" "quantity Slot_default = 0"
  by (auto simp: Slot_default_def IsEmpty_def slot_ok_def Item_default_def)

lemma qty_of_Clear [simp]: "b \<noteq> 0 \<Longrightarrow> qty_of b (Clear s) = 0"
  by (simp add: qty_of_def)

lemma qty_of_empty: "IsEmpty s \<Longrightarrow> b \<noteq> 0 \<Longrightarrow> qty_of b s = 0"
  by (auto simp: qty_of_def IsEmpty_def)

lemma qty_of_nonneg: "slot_ok s \<Longrightarrow> 0 \<le> qty_of b s"
  by (auto simp: qty_of_def slot_ok_def)

lemma qty_list_Nil [simp]: "qty_list b [] = 0"
  by (simp add: qty_list_def)

lemma qty_list_Cons [simp]: "qty_list b (s # ss) = qty_of b s + qty_list b ss"
  by (simp add: qty_list_def)

lemma qty_list_append [simp]: "qty_list b (ss @ ts) = qty_list b ss + qty_list b ts"
  by (simp add: qty_list_def)

lemma qty_list_update:
  "i < length ss \<Longrightarrow> qty_list b (ss[i := s]) = qty_list b ss - qty_of b (ss ! i) + qty_of b s"
  unfolding qty_list_def by (rule sum_list_update)

lemma qty_list_nonneg: "(\<And>s. s \<in> set ss \<Longrightarrow> slot_ok s) \<Longrightarrow> 0 \<le> qty_list b ss"
  unfolding qty_list_def by (intro sum_list_nonneg_int qty_of_nonneg) auto

lemma qty_list_zero: "(\<And>s. s \<in> set ss \<Longrightarrow> qty_of b s = 0) \<Longrightarrow> qty_list b ss = 0"
  by (induction ss) auto

text \<open>Exchanging the payload (item and quantity) of two slots, as the two \<open>std::swap\<close>s do.\<close>

definition put_payload :: "Slot \<Rightarrow> Slot \<Rightarrow> Slot" where
  "put_payload from_slot s = s\<lparr>slot_item := slot_item from_slot, quantity := quantity from_slot\<rparr>"

lemma put_payload_simps [simp]:
  "slot_item (put_payload f s) = slot_item f" "quantity (put_payload f s) = quantity f"
  "slotIndex (put_payload f s) = slotIndex s"
  "IsEmpty (put_payload f s) = IsEmpty f" "slot_ok (put_payload f s) = slot_ok f"
  "qty_of b (put_payload f s) = qty_of b f"
  by (auto simp: put_payload_def IsEmpty_def slot_ok_def qty_of_def)

end
