(* ===== verification/Inventory.thy ===== *)
theory Inventory
  imports Items
begin

text \<open>
  \<open>src/DedicateProcess/PlayerInventory.h\<close> and \<open>PlayerInventory.cpp\<close>: the 25 inventory
  slots, the three equipment slots, the two magazines, and every operation on them. The
  operations take \<open>Slot&\<close> arguments that may alias a slot of the same inventory or a slot
  of the opened container; \<open>slot_ref\<close> names the slot and a \<open>store\<close> (the inventory and
  the slots of the container) is what it is resolved in, so the aliasing of the source is
  kept. Results: the well-formedness invariant \<open>inv_ok\<close> is kept by every operation; no
  operation creates or destroys items except the documented discard of an unloaded magazine
  that finds no place; a reload fills the magazine as far as the inventory allows.
\<close>

section \<open>Deny reasons\<close>

definition DENY_VERSION_MISMATCH :: u32 where "DENY_VERSION_MISMATCH = 0x0001"
definition DENY_SLOT_EMPTY :: u32 where "DENY_SLOT_EMPTY = 0x0002"
definition DENY_SLOT_NOT_EMPTY :: u32 where "DENY_SLOT_NOT_EMPTY = 0x0004"
definition DENY_SLOT_ALREADY_EMPTY :: u32 where "DENY_SLOT_ALREADY_EMPTY = 0x0008"
definition DENY_INVALID_QUANTITY :: u32 where "DENY_INVALID_QUANTITY = 0x0010"
definition DENY_BLUEPRINT_MISMATCH :: u32 where "DENY_BLUEPRINT_MISMATCH = 0x0020"
definition DENY_ITEM_TYPE_MISMATCH :: u32 where "DENY_ITEM_TYPE_MISMATCH = 0x0040"
definition DENY_BARE_HANDED :: u32 where "DENY_BARE_HANDED = 0x0080"
definition DENY_MAGAZINE_UNLOAD_FAILED :: u32 where "DENY_MAGAZINE_UNLOAD_FAILED = 0x0100"
definition DENY_SERVER_INTERNAL :: u32 where "DENY_SERVER_INTERNAL = 0x0200"
definition DENY_CONTAINER_NOT_OPEN :: u32 where "DENY_CONTAINER_NOT_OPEN = 0x0400"
definition DENY_OUT_OF_RANGE :: u32 where "DENY_OUT_OF_RANGE = 0x0800"

lemmas deny_defs =
  DENY_VERSION_MISMATCH_def DENY_SLOT_EMPTY_def DENY_SLOT_NOT_EMPTY_def
  DENY_SLOT_ALREADY_EMPTY_def DENY_INVALID_QUANTITY_def DENY_BLUEPRINT_MISMATCH_def
  DENY_ITEM_TYPE_MISMATCH_def DENY_BARE_HANDED_def DENY_MAGAZINE_UNLOAD_FAILED_def
  DENY_SERVER_INTERNAL_def DENY_CONTAINER_NOT_OPEN_def DENY_OUT_OF_RANGE_def

section \<open>State\<close>

record PlayerInventory =
  primaryWeaponSlot :: Slot
  secondaryWeaponSlot :: Slot
  armorSlot :: Slot
  primaryWeaponMagazineSlot :: Slot
  secondaryWeaponMagazineSlot :: Slot
  inventorySlots :: "Slot list"
  inventoryVersion :: u32
  firstEmptySlotIndex :: i32

definition INVENTORY_SLOT_COUNT :: nat where
  "INVENTORY_SLOT_COUNT = 25"

text \<open>The references \<open>isPrimary ? _primary... : _secondary...\<close> of the source.\<close>

definition weapon_of :: "bool \<Rightarrow> PlayerInventory \<Rightarrow> Slot" where
  "weapon_of isPrimary iv = (if isPrimary then primaryWeaponSlot iv else secondaryWeaponSlot iv)"

definition set_weapon :: "bool \<Rightarrow> Slot \<Rightarrow> PlayerInventory \<Rightarrow> PlayerInventory" where
  "set_weapon isPrimary s iv =
     (if isPrimary then iv\<lparr>primaryWeaponSlot := s\<rparr> else iv\<lparr>secondaryWeaponSlot := s\<rparr>)"

definition magazine_of :: "bool \<Rightarrow> PlayerInventory \<Rightarrow> Slot" where
  "magazine_of isPrimary iv =
     (if isPrimary then primaryWeaponMagazineSlot iv else secondaryWeaponMagazineSlot iv)"

definition set_magazine :: "bool \<Rightarrow> Slot \<Rightarrow> PlayerInventory \<Rightarrow> PlayerInventory" where
  "set_magazine isPrimary s iv =
     (if isPrimary then iv\<lparr>primaryWeaponMagazineSlot := s\<rparr>
      else iv\<lparr>secondaryWeaponMagazineSlot := s\<rparr>)"

section \<open>Operations\<close>

fun first_empty_from :: "int \<Rightarrow> Slot list \<Rightarrow> int" where
  "first_empty_from i [] = - 1"
| "first_empty_from i (s # ss) = (if IsEmpty s then i else first_empty_from (i + 1) ss)"

definition UpdateFirstEmptySlotIndex :: "PlayerInventory \<Rightarrow> PlayerInventory" where
  "UpdateFirstEmptySlotIndex iv =
     iv\<lparr>firstEmptySlotIndex := first_empty_from 0 (inventorySlots iv)\<rparr>"

definition IncrementInventoryVersion :: "PlayerInventory \<Rightarrow> PlayerInventory" where
  "IncrementInventoryVersion iv = iv\<lparr>inventoryVersion := inventoryVersion iv + 1\<rparr>"

text \<open>\<open>GetSlotMutable\<close> of the inventory: the index of the slot, or no slot (\<open>nullptr\<close>).\<close>

definition InvGetSlotMutable :: "i32 \<Rightarrow> nat option" where
  "InvGetSlotMutable i =
     (if i < 0 \<or> i \<ge> int INVENTORY_SLOT_COUNT then None else Some (nat i))"

text \<open>
  The loop of \<open>LoadMagazineFromInventory\<close>: it walks the slots from index 0, stops when
  nothing remains to be loaded, and returns the slots, the magazine, what remains and
  whether anything was moved.
\<close>

fun load_loop :: "u32 \<Rightarrow> Slot list \<Rightarrow> Slot \<Rightarrow> int \<Rightarrow> bool \<Rightarrow> Slot list \<times> Slot \<times> int \<times> bool" where
  "load_loop ammo [] mag remaining changed = ([], mag, remaining, changed)"
| "load_loop ammo (s # ss) mag remaining changed =
     (if remaining \<le> 0 then (s # ss, mag, remaining, changed)
      else if IsEmpty s \<or> bp s \<noteq> ammo then
        (let (ss', r) = load_loop ammo ss mag remaining changed in (s # ss', r))
      else
        (let tk = min (quantity s) remaining;
             mag' = (if IsEmpty mag then mag\<lparr>slot_item := slot_item s, quantity := tk\<rparr>
                     else mag\<lparr>quantity := quantity mag + tk\<rparr>);
             s1 = s\<lparr>quantity := quantity s - tk\<rparr>;
             s' = (if quantity s1 \<le> 0 then Clear s1 else s1);
             (ss', r) = load_loop ammo ss mag' (remaining - tk) True
         in (s' # ss', r)))"

definition LoadMagazineFromInventory :: "bool \<Rightarrow> PlayerInventory \<Rightarrow> PlayerInventory" where
  "LoadMagazineFromInventory isPrimary iv =
     (if IsEmpty (weapon_of isPrimary iv) then iv
      else case GetWeaponSpec (bp (weapon_of isPrimary iv)) of
        None \<Rightarrow> iv
      | Some spec \<Rightarrow>
          let remaining = maxAmmo spec - quantity (magazine_of isPrimary iv) in
          if remaining \<le> 0 then iv
          else
            let (ss, mag, r, changed) =
                  load_loop (to_u32 (ammoType spec)) (inventorySlots iv)
                    (magazine_of isPrimary iv) remaining False;
                iv' = set_magazine isPrimary mag (iv\<lparr>inventorySlots := ss\<rparr>)
            in if changed then IncrementInventoryVersion (UpdateFirstEmptySlotIndex iv') else iv')"

definition ReloadMagazine :: "bool \<Rightarrow> PlayerInventory \<Rightarrow> PlayerInventory \<times> bool" where
  "ReloadMagazine isPrimary iv =
     (let iv' = LoadMagazineFromInventory isPrimary iv
      in (iv', inventoryVersion iv' \<noteq> inventoryVersion iv))"

text \<open>The search loop of \<open>UnloadMagazineToInventory\<close>.\<close>

fun find_same_bp :: "u32 \<Rightarrow> nat \<Rightarrow> Slot list \<Rightarrow> nat option" where
  "find_same_bp b i [] = None"
| "find_same_bp b i (s # ss) =
     (if \<not> IsEmpty s \<and> bp s = b then Some i else find_same_bp b (Suc i) ss)"

definition UnloadMagazineToInventory :: "bool \<Rightarrow> PlayerInventory \<Rightarrow> PlayerInventory \<times> i32 \<times> bool" where
  "UnloadMagazineToInventory isPrimary iv =
     (let mag = magazine_of isPrimary iv in
      if IsEmpty mag then (iv, - 1, True)
      else case find_same_bp (bp mag) 0 (inventorySlots iv) of
        Some i \<Rightarrow>
          let s = inventorySlots iv ! i in
          (set_magazine isPrimary (Clear mag)
             (iv\<lparr>inventorySlots := (inventorySlots iv)[i := s\<lparr>quantity := quantity s + quantity mag\<rparr>]\<rparr>),
           int i, True)
      | None \<Rightarrow>
          if firstEmptySlotIndex iv = - 1 then (set_magazine isPrimary (Clear mag) iv, - 1, True)
          else
            let i = firstEmptySlotIndex iv; s = inventorySlots iv ! nat i in
            (UpdateFirstEmptySlotIndex (set_magazine isPrimary (Clear mag)
               (iv\<lparr>inventorySlots := (inventorySlots iv)[nat i := put_payload mag s]\<rparr>)),
             i, True))"

text \<open>The constructor: both load loops run after the slots have been placed.\<close>

definition place_inventory :: "Slot list \<Rightarrow> Slot list \<Rightarrow> Slot list" where
  "place_inventory base slots =
     fold (\<lambda>s ss. if 0 \<le> slotIndex s \<and> slotIndex s < int INVENTORY_SLOT_COUNT
                  then ss[nat (slotIndex s) := s] else ss) slots base"

definition place_equipment :: "PlayerInventory \<Rightarrow> Slot list \<Rightarrow> PlayerInventory" where
  "place_equipment iv slots =
     fold (\<lambda>s i. if slotIndex s = 0 then i\<lparr>primaryWeaponSlot := s\<rparr>
                 else if slotIndex s = 1 then i\<lparr>secondaryWeaponSlot := s\<rparr>
                 else if slotIndex s = 2 then i\<lparr>armorSlot := s\<rparr> else i) slots iv"

definition MakePlayerInventory :: "Slot list \<Rightarrow> Slot list \<Rightarrow> PlayerInventory" where
  "MakePlayerInventory inventorySlots0 equipmentSlots =
     (let base = map (\<lambda>i. Slot_default\<lparr>slotIndex := int i\<rparr>) [0..<INVENTORY_SLOT_COUNT];
          iv0 = \<lparr>primaryWeaponSlot = Slot_default, secondaryWeaponSlot = Slot_default,
                  armorSlot = Slot_default, primaryWeaponMagazineSlot = Slot_default,
                  secondaryWeaponMagazineSlot = Slot_default,
                  inventorySlots = place_inventory base inventorySlots0,
                  inventoryVersion = 0, firstEmptySlotIndex = - 1\<rparr>;
          iv1 = place_equipment iv0 equipmentSlots
      in UpdateFirstEmptySlotIndex
           (LoadMagazineFromInventory False (LoadMagazineFromInventory True iv1)))"

definition InvClear :: "PlayerInventory \<Rightarrow> PlayerInventory" where
  "InvClear iv =
     UpdateFirstEmptySlotIndex (IncrementInventoryVersion
       (iv\<lparr>primaryWeaponSlot := Clear (primaryWeaponSlot iv),
            secondaryWeaponSlot := Clear (secondaryWeaponSlot iv),
            armorSlot := Clear (armorSlot iv),
            primaryWeaponMagazineSlot := Clear (primaryWeaponMagazineSlot iv),
            secondaryWeaponMagazineSlot := Clear (secondaryWeaponMagazineSlot iv),
            inventorySlots := map Clear (inventorySlots iv)\<rparr>))"

section \<open>References and equipment\<close>

datatype slot_ref = PlayerSlot nat | ContainerSlot nat

type_synonym store = "PlayerInventory \<times> Slot list"

fun deref :: "store \<Rightarrow> slot_ref \<Rightarrow> Slot" where
  "deref (iv, cs) (PlayerSlot i) = inventorySlots iv ! i"
| "deref (iv, cs) (ContainerSlot i) = cs ! i"

fun assign :: "slot_ref \<Rightarrow> Slot \<Rightarrow> store \<Rightarrow> store" where
  "assign (PlayerSlot i) s (iv, cs) = (iv\<lparr>inventorySlots := (inventorySlots iv)[i := s]\<rparr>, cs)"
| "assign (ContainerSlot i) s (iv, cs) = (iv, cs[i := s])"

text \<open>
  Results of the equipment operations: the store, success, the deny mask passed by
  reference and the out parameter with the slot the unloaded ammunition went to.
\<close>

type_synonym equip_result = "store \<times> bool \<times> u32 \<times> i32"

definition finish_equip :: "store \<Rightarrow> store" where
  "finish_equip st = (IncrementInventoryVersion (UpdateFirstEmptySlotIndex (fst st)), snd st)"

definition EquipWeaponFromSlot :: "slot_ref \<Rightarrow> bool \<Rightarrow> u32 \<Rightarrow> i32 \<Rightarrow> store \<Rightarrow> equip_result" where
  "EquipWeaponFromSlot srcSlot isPrimary deny unloaded st =
     (if IsEmpty (deref st srcSlot) then (st, False, deny OR DENY_SLOT_EMPTY, unloaded)
      else if slot_type (deref st srcSlot) \<noteq> IT_WEAPON then
        (st, False, deny OR DENY_ITEM_TYPE_MISMATCH, unloaded)
      else
        let (iv1, unloaded1, ok) = UnloadMagazineToInventory isPrimary (fst st);
            st1 = (iv1, snd st);
            src = deref st1 srcSlot;
            w = weapon_of isPrimary iv1
        in if \<not> ok then (st1, False, deny OR DENY_MAGAZINE_UNLOAD_FAILED, unloaded1)
           else
             let st2 = (set_weapon isPrimary (put_payload src w) iv1, snd st);
                 st3 = assign srcSlot (if IsEmpty w then Clear src else put_payload w src) st2
             in (finish_equip st3, True, deny, unloaded1))"

definition UnequipWeaponToSlot :: "slot_ref \<Rightarrow> bool \<Rightarrow> u32 \<Rightarrow> i32 \<Rightarrow> store \<Rightarrow> equip_result" where
  "UnequipWeaponToSlot dstSlot isPrimary deny unloaded st =
     (let w = weapon_of isPrimary (fst st); dst = deref st dstSlot; dstWasEmpty = IsEmpty dst in
      if IsEmpty w then (st, False, deny OR DENY_SLOT_EMPTY, unloaded)
      else if dstWasEmpty \<and> IsEmpty (weapon_of (\<not> isPrimary) (fst st)) then
        (st, False, deny OR DENY_BARE_HANDED, unloaded)
      else if \<not> dstWasEmpty \<and> slot_type dst \<noteq> IT_WEAPON then
        (st, False, deny OR DENY_ITEM_TYPE_MISMATCH, unloaded)
      else
        let st1 = (set_weapon isPrimary (if dstWasEmpty then Clear w else put_payload dst w) (fst st), snd st);
            st2 = assign dstSlot (put_payload w dst) st1;
            iv3 = UpdateFirstEmptySlotIndex (fst st2);
            (iv4, unloaded1, ok) = UnloadMagazineToInventory isPrimary iv3
        in if \<not> ok then ((iv4, snd st2), False, deny OR DENY_MAGAZINE_UNLOAD_FAILED, unloaded1)
           else ((IncrementInventoryVersion iv4, snd st2), True, deny, unloaded1))"

definition EquipArmorFromSlot :: "slot_ref \<Rightarrow> u32 \<Rightarrow> store \<Rightarrow> store \<times> bool \<times> u32" where
  "EquipArmorFromSlot srcSlot deny st =
     (let src = deref st srcSlot; a = armorSlot (fst st) in
      if IsEmpty src then (st, False, deny OR DENY_SLOT_EMPTY)
      else if slot_type src \<noteq> IT_ARMOR then (st, False, deny OR DENY_ITEM_TYPE_MISMATCH)
      else
        let st2 = ((fst st)\<lparr>armorSlot := put_payload src a\<rparr>, snd st);
            st3 = assign srcSlot (if IsEmpty a then Clear src else put_payload a src) st2
        in (finish_equip st3, True, deny))"

definition UnequipArmorToSlot :: "slot_ref \<Rightarrow> u32 \<Rightarrow> store \<Rightarrow> store \<times> bool \<times> u32" where
  "UnequipArmorToSlot dstSlot deny st =
     (let dst = deref st dstSlot; a = armorSlot (fst st) in
      if IsEmpty a then (st, False, deny OR DENY_SLOT_EMPTY)
      else if \<not> IsEmpty dst \<and> slot_type dst \<noteq> IT_ARMOR then
        (st, False, deny OR DENY_ITEM_TYPE_MISMATCH)
      else
        let st2 = ((fst st)\<lparr>armorSlot := (if IsEmpty dst then Clear a else put_payload dst a)\<rparr>, snd st);
            st3 = assign dstSlot (put_payload a dst) st2
        in (finish_equip st3, True, deny))"

section \<open>Serialisation\<close>

record PbInventorySlot =
  pb_slot_index :: i32
  pb_blueprint_id :: u32
  pb_instance_uid :: u64
  pb_item_type :: u32
  pb_quantity :: i32

record D2CFullInventorySync =
  fis_inventory_version :: u32
  fis_inventory_slots :: "PbInventorySlot list"
  fis_primary_weapon :: "PbInventorySlot option"
  fis_secondary_weapon :: "PbInventorySlot option"
  fis_armor :: "PbInventorySlot option"
  fis_primary_weapon_magazine :: "PbInventorySlot option"
  fis_secondary_weapon_magazine :: "PbInventorySlot option"

definition ItemType_num :: "ItemType \<Rightarrow> u32" where
  "ItemType_num t = (case t of IT_NONE \<Rightarrow> 0 | IT_WEAPON \<Rightarrow> 1 | IT_ARMOR \<Rightarrow> 2 | IT_AMMO \<Rightarrow> 3 | IT_MISC \<Rightarrow> 4)"

definition FillSlotProto :: "Slot \<Rightarrow> PbInventorySlot" where
  "FillSlotProto s = \<lparr>pb_slot_index = slotIndex s, pb_blueprint_id = bp s,
     pb_instance_uid = instanceUid (slot_item s), pb_item_type = ItemType_num (slot_type s),
     pb_quantity = quantity s\<rparr>"

definition SerializeSlot :: "PlayerInventory \<Rightarrow> i32 \<Rightarrow> PbInventorySlot option" where
  "SerializeSlot iv i =
     (if i < 0 \<or> i \<ge> int INVENTORY_SLOT_COUNT then None
      else Some (FillSlotProto (inventorySlots iv ! nat i)))"

definition slot_opt :: "Slot \<Rightarrow> PbInventorySlot option" where
  "slot_opt s = (if IsEmpty s then None else Some (FillSlotProto s))"

definition SerializeFullInventory :: "PlayerInventory \<Rightarrow> D2CFullInventorySync" where
  "SerializeFullInventory iv = \<lparr>fis_inventory_version = inventoryVersion iv,
     fis_inventory_slots = map FillSlotProto (filter (\<lambda>s. \<not> IsEmpty s) (inventorySlots iv)),
     fis_primary_weapon = slot_opt (primaryWeaponSlot iv),
     fis_secondary_weapon = slot_opt (secondaryWeaponSlot iv),
     fis_armor = slot_opt (armorSlot iv),
     fis_primary_weapon_magazine = slot_opt (primaryWeaponMagazineSlot iv),
     fis_secondary_weapon_magazine = slot_opt (secondaryWeaponMagazineSlot iv)\<rparr>"

section \<open>Well-formedness\<close>

text \<open>
  A slot array is well formed when every slot is and knows its own index. A magazine is
  empty or holds the ammunition of the weapon it belongs to, at most a full magazine.
  \<open>inv_core\<close> leaves out the cached first empty index, which the operations recompute last.
\<close>

definition slots_ok :: "Slot list \<Rightarrow> bool" where
  "slots_ok ss \<longleftrightarrow> (\<forall>i<length ss. slot_ok (ss ! i) \<and> slotIndex (ss ! i) = int i)"

definition mag_ok :: "Slot \<Rightarrow> Slot \<Rightarrow> bool" where
  "mag_ok w m \<longleftrightarrow> slot_ok m \<and> (IsEmpty m \<or>
     (case GetWeaponSpec (bp w) of None \<Rightarrow> False
      | Some sp \<Rightarrow> bp m = to_u32 (ammoType sp) \<and> quantity m \<le> maxAmmo sp))"

definition typed_ok :: "ItemType \<Rightarrow> Slot \<Rightarrow> bool" where
  "typed_ok t s \<longleftrightarrow> slot_ok s \<and> (IsEmpty s \<or> slot_type s = t)"

definition inv_core :: "PlayerInventory \<Rightarrow> bool" where
  "inv_core iv \<longleftrightarrow> length (inventorySlots iv) = INVENTORY_SLOT_COUNT \<and> slots_ok (inventorySlots iv) \<and>
     (\<forall>p. typed_ok IT_WEAPON (weapon_of p iv) \<and> mag_ok (weapon_of p iv) (magazine_of p iv)) \<and>
     typed_ok IT_ARMOR (armorSlot iv)"

definition inv_ok :: "PlayerInventory \<Rightarrow> bool" where
  "inv_ok iv \<longleftrightarrow> inv_core iv \<and> firstEmptySlotIndex iv = first_empty_from 0 (inventorySlots iv)"

text \<open>The amount of a blueprint a player carries, and the amount in a store.\<close>

definition carried :: "u32 \<Rightarrow> PlayerInventory \<Rightarrow> int" where
  "carried b iv = qty_list b (inventorySlots iv) + qty_of b (primaryWeaponSlot iv) +
     qty_of b (secondaryWeaponSlot iv) + qty_of b (armorSlot iv) +
     qty_of b (primaryWeaponMagazineSlot iv) + qty_of b (secondaryWeaponMagazineSlot iv)"

definition store_total :: "u32 \<Rightarrow> store \<Rightarrow> int" where
  "store_total b st = carried b (fst st) + qty_list b (snd st)"

definition store_ok :: "store \<Rightarrow> bool" where
  "store_ok st \<longleftrightarrow> inv_ok (fst st) \<and> slots_ok (snd st)"

fun valid_ref :: "store \<Rightarrow> slot_ref \<Rightarrow> bool" where
  "valid_ref st (PlayerSlot i) \<longleftrightarrow> i < INVENTORY_SLOT_COUNT"
| "valid_ref st (ContainerSlot i) \<longleftrightarrow> i < length (snd st)"

subsection \<open>Accessors\<close>

lemma acc_simps [simp]:
  "weapon_of p (set_weapon q s iv) = (if p = q then s else weapon_of p iv)"
  "weapon_of p (set_magazine q s iv) = weapon_of p iv"
  "magazine_of p (set_weapon q s iv) = magazine_of p iv"
  "magazine_of p (set_magazine q s iv) = (if p = q then s else magazine_of p iv)"
  "weapon_of p (iv\<lparr>inventorySlots := ss\<rparr>) = weapon_of p iv"
  "magazine_of p (iv\<lparr>inventorySlots := ss\<rparr>) = magazine_of p iv"
  "weapon_of p (iv\<lparr>armorSlot := s\<rparr>) = weapon_of p iv"
  "magazine_of p (iv\<lparr>armorSlot := s\<rparr>) = magazine_of p iv"
  "weapon_of p (UpdateFirstEmptySlotIndex iv) = weapon_of p iv"
  "magazine_of p (UpdateFirstEmptySlotIndex iv) = magazine_of p iv"
  "weapon_of p (IncrementInventoryVersion iv) = weapon_of p iv"
  "magazine_of p (IncrementInventoryVersion iv) = magazine_of p iv"
  by (auto simp: weapon_of_def set_weapon_def magazine_of_def set_magazine_def
      UpdateFirstEmptySlotIndex_def IncrementInventoryVersion_def)

lemma field_simps_inv [simp]:
  "inventorySlots (set_weapon q s iv) = inventorySlots iv"
  "inventorySlots (set_magazine q s iv) = inventorySlots iv"
  "armorSlot (set_weapon q s iv) = armorSlot iv"
  "armorSlot (set_magazine q s iv) = armorSlot iv"
  "inventoryVersion (set_weapon q s iv) = inventoryVersion iv"
  "inventoryVersion (set_magazine q s iv) = inventoryVersion iv"
  "firstEmptySlotIndex (set_weapon q s iv) = firstEmptySlotIndex iv"
  "firstEmptySlotIndex (set_magazine q s iv) = firstEmptySlotIndex iv"
  "inventorySlots (UpdateFirstEmptySlotIndex iv) = inventorySlots iv"
  "inventorySlots (IncrementInventoryVersion iv) = inventorySlots iv"
  "armorSlot (UpdateFirstEmptySlotIndex iv) = armorSlot iv"
  "armorSlot (IncrementInventoryVersion iv) = armorSlot iv"
  "inventoryVersion (UpdateFirstEmptySlotIndex iv) = inventoryVersion iv"
  "inventoryVersion (IncrementInventoryVersion iv) = inventoryVersion iv + 1"
  "firstEmptySlotIndex (UpdateFirstEmptySlotIndex iv) = first_empty_from 0 (inventorySlots iv)"
  "firstEmptySlotIndex (IncrementInventoryVersion iv) = firstEmptySlotIndex iv"
  by (auto simp: set_weapon_def set_magazine_def UpdateFirstEmptySlotIndex_def
      IncrementInventoryVersion_def)

lemma total_alt:
  "carried b iv = qty_list b (inventorySlots iv) + qty_of b (weapon_of p iv) +
     qty_of b (weapon_of (\<not> p) iv) + qty_of b (armorSlot iv) +
     qty_of b (magazine_of p iv) + qty_of b (magazine_of (\<not> p) iv)"
  by (cases p) (auto simp: carried_def weapon_of_def magazine_of_def)

lemma slots_ok_update: "slots_ok ss \<Longrightarrow> slot_ok s \<Longrightarrow> slotIndex s = int i \<Longrightarrow> slots_ok (ss[i := s])"
  by (auto simp: slots_ok_def) (metis nth_list_update_eq nth_list_update_neq)+

lemma slots_ok_nth: "slots_ok ss \<Longrightarrow> i < length ss \<Longrightarrow> slot_ok (ss ! i) \<and> slotIndex (ss ! i) = int i"
  by (auto simp: slots_ok_def)

lemma slots_ok_in: "slots_ok ss \<Longrightarrow> s \<in> set ss \<Longrightarrow> slot_ok s"
  by (auto simp: slots_ok_def in_set_conv_nth)

lemma inv_core_frame [simp]:
  "inv_core (UpdateFirstEmptySlotIndex iv) = inv_core iv"
  "inv_core (IncrementInventoryVersion iv) = inv_core iv"
  by (simp_all add: inv_core_def)

lemma inv_ok_Update [simp]: "inv_ok (UpdateFirstEmptySlotIndex iv) = inv_core iv"
  by (simp add: inv_ok_def)

lemma inv_ok_Increment [simp]: "inv_ok (IncrementInventoryVersion iv) = inv_ok iv"
  by (simp add: inv_ok_def)

lemma total_frame [simp]:
  "carried b (UpdateFirstEmptySlotIndex iv) = carried b iv"
  "carried b (IncrementInventoryVersion iv) = carried b iv"
  by (simp_all add: carried_def UpdateFirstEmptySlotIndex_def IncrementInventoryVersion_def)

text \<open>The cached index names the least empty slot, and $-1$ means there is none.\<close>

lemma first_empty_from_spec:
  "first_empty_from k ss = (if \<exists>s\<in>set ss. IsEmpty s then k + int (length (takeWhile (\<lambda>s. \<not> IsEmpty s) ss)) else - 1)"
  by (induction ss arbitrary: k) auto

lemma first_empty_from_props:
  assumes "first_empty_from 0 ss \<noteq> - 1"
  shows "0 \<le> first_empty_from 0 ss" "nat (first_empty_from 0 ss) < length ss"
    "IsEmpty (ss ! nat (first_empty_from 0 ss))"
    "j < nat (first_empty_from 0 ss) \<Longrightarrow> \<not> IsEmpty (ss ! j)"
proof -
  let ?P = "\<lambda>s. \<not> IsEmpty s"
  from assms have ex: "\<exists>s\<in>set ss. IsEmpty s" and
    eq: "first_empty_from 0 ss = int (length (takeWhile ?P ss))"
    by (auto simp: first_empty_from_spec split: if_splits)
  have lt: "length (takeWhile ?P ss) < length ss"
    using ex by (metis length_takeWhile_le nat_less_le takeWhile_eq_all_conv takeWhile_eq_take take_all_iff order_refl)
  show "0 \<le> first_empty_from 0 ss" "nat (first_empty_from 0 ss) < length ss"
    using eq lt by auto
  show "IsEmpty (ss ! nat (first_empty_from 0 ss))"
    using eq nth_length_takeWhile [OF lt] by simp
  show "\<not> IsEmpty (ss ! j)" if "j < nat (first_empty_from 0 ss)"
    using that eq by (metis nat_int nth_mem set_takeWhileD takeWhile_nth)
qed

subsection \<open>Loading and unloading a magazine\<close>

text \<open>
  What the load loop leaves behind: it takes the lesser of what fits and what the slots hold,
  moves exactly that into the magazine and touches no other blueprint.
\<close>

definition load_post :: "u32 \<Rightarrow> Slot list \<Rightarrow> Slot \<Rightarrow> int \<Rightarrow> bool \<Rightarrow> Slot list \<Rightarrow> Slot \<Rightarrow> int \<Rightarrow> bool \<Rightarrow> bool" where
  "load_post ammo ss mag remaining changed ss' mag' remaining' changed' \<longleftrightarrow>
     (let moved = min remaining (qty_list ammo ss) in
      map slotIndex ss' = map slotIndex ss \<and> list_all slot_ok ss' \<and> slot_ok mag' \<and>
      (IsEmpty mag' \<or> bp mag' = ammo) \<and> remaining' = remaining - moved \<and>
      quantity mag' = quantity mag + moved \<and> qty_list ammo ss' = qty_list ammo ss - moved \<and>
      (\<forall>b. b \<noteq> ammo \<longrightarrow> qty_list b ss' = qty_list b ss) \<and> changed' = (changed \<or> 0 < moved))"

lemma load_loop_take:
  assumes "slot_ok s" "slot_ok mag" "IsEmpty mag \<or> bp mag = bp s" "\<not> IsEmpty s" "0 < remaining"
  obtains mag1 s1 where
    "load_loop (bp s) (s # ss) mag remaining changed =
       (let (ss', r) = load_loop (bp s) ss mag1 (remaining - min (quantity s) remaining) True in (s1 # ss', r))"
    "slot_ok mag1" "\<not> IsEmpty mag1" "bp mag1 = bp s" "quantity mag1 = quantity mag + min (quantity s) remaining"
    "slot_ok s1" "slotIndex s1 = slotIndex s"
    "\<And>b. qty_of b s1 = qty_of b s - (if b = bp s then min (quantity s) remaining else 0)"
proof -
  let ?n = "min (quantity s) remaining"
  have q: "0 < quantity s" "0 < ?n" "bp s \<noteq> 0"
    using assms by (auto simp: slot_ok_pos slot_ok_empty)
  let ?mag1 = "if IsEmpty mag then mag\<lparr>slot_item := slot_item s, quantity := ?n\<rparr>
        else mag\<lparr>quantity := quantity mag + ?n\<rparr>"
  let ?s1 = "if quantity s - ?n \<le> 0 then Clear (s\<lparr>quantity := quantity s - ?n\<rparr>)
        else s\<lparr>quantity := quantity s - ?n\<rparr>"
  show thesis
  proof (rule that [of ?mag1 ?s1])
    show "load_loop (bp s) (s # ss) mag remaining changed =
        (let (ss', r) = load_loop (bp s) ss ?mag1 (remaining - ?n) True in (?s1 # ss', r))"
      using assms by (simp add: Let_def)
  qed (use assms q in \<open>auto simp: slot_ok_def IsEmpty_def qty_of_def\<close>)
qed

lemma load_loop_post:
  assumes "list_all slot_ok ss" "slot_ok mag" "IsEmpty mag \<or> bp mag = ammo" "ammo \<noteq> 0"
    "0 \<le> remaining" "load_loop ammo ss mag remaining changed = (ss', mag', remaining', changed')"
  shows "load_post ammo ss mag remaining changed ss' mag' remaining' changed'"
  using assms
proof (induction ss arbitrary: mag remaining changed ss' mag' remaining' changed')
  case Nil
  then show ?case by (simp add: load_post_def)
next
  case (Cons s ss)
  from Cons.prems(1) have oks: "slot_ok s" "list_all slot_ok ss" by auto
  then have nn: "0 \<le> qty_list ammo ss" "0 \<le> qty_of ammo s"
    by (auto intro: qty_list_nonneg qty_of_nonneg simp: list_all_iff)
  consider (stop) "remaining \<le> 0" | (skip) "0 < remaining" "IsEmpty s \<or> bp s \<noteq> ammo"
    | (tk) "0 < remaining" "\<not> IsEmpty s" "ammo = bp s" by force
  then show ?case
  proof cases
    case stop
    with Cons.prems nn oks show ?thesis by (auto simp: load_post_def)
  next
    case skip
    obtain t m r c where rec: "load_loop ammo ss mag remaining changed = (t, m, r, c)"
      by (metis prod_cases4)
    have "qty_of ammo s = 0"
      using skip Cons.prems(4) by (auto simp: qty_of_empty) (auto simp: qty_of_def)
    then show ?thesis
      using Cons.IH [OF oks(2) Cons.prems(2-5) rec] Cons.prems(6) skip rec oks
      by (auto simp: load_post_def Let_def)
  next
    case tk
    define n where "n = min (quantity s) remaining"
    obtain mag1 s1 where eq: "load_loop ammo (s # ss) mag remaining changed =
          (let (ss', r) = load_loop ammo ss mag1 (remaining - n) True in (s1 # ss', r))"
      and m1: "slot_ok mag1" "\<not> IsEmpty mag1" "bp mag1 = ammo" "quantity mag1 = quantity mag + n"
      and s1: "slot_ok s1" "slotIndex s1 = slotIndex s"
        "\<And>b. qty_of b s1 = qty_of b s - (if b = ammo then n else 0)"
      using load_loop_take [OF oks(1) Cons.prems(2) _ tk(2,1), of ss changed] Cons.prems(3)
      unfolding tk(3) n_def by blast
    obtain t m r c where rec: "load_loop ammo ss mag1 (remaining - n) True = (t, m, r, c)"
      by (metis prod_cases4)
    have post: "load_post ammo ss mag1 (remaining - n) True t m r c"
      using m1(3) by (intro Cons.IH [OF oks(2) m1(1) _ Cons.prems(4) _ rec]) (auto simp: n_def)
    have res: "ss' = s1 # t" "mag' = m" "remaining' = r" "changed' = c"
      using Cons.prems(6) unfolding eq rec by auto
    define k where "k = min (remaining - n) (qty_list ammo ss)"
    have moved: "min remaining (qty_list ammo (s # ss)) = n + k"
      using tk nn unfolding n_def k_def by (simp add: qty_of_def min_def)
    have pos: "0 < n + k"
      using slot_ok_pos [OF oks(1) tk(2)] tk(1) nn(1) by (simp add: n_def k_def)
    show ?thesis
      using post m1(4) s1 pos unfolding load_post_def moved res k_def [symmetric] Let_def by simp
  qed
qed

lemma load_loop_True: "load_loop ammo ss mag remaining True = (ss', mag', r, c) \<Longrightarrow> c"
  by (induction ammo ss mag remaining True arbitrary: ss' mag' r c rule: load_loop.induct)
    (auto simp: Let_def split: prod.splits if_splits)

lemma load_loop_unchanged:
  "load_loop ammo ss mag remaining False = (ss', mag', r, False) \<Longrightarrow> ss' = ss \<and> mag' = mag \<and> r = remaining"
  by (induction ss arbitrary: ss')
    (auto simp: Let_def split: prod.splits if_splits dest: load_loop_True)

lemma ammo_nonzero [simp]: "GetWeaponSpec i = Some sp \<Longrightarrow> to_u32 (ammoType sp) \<noteq> 0"
  by (auto simp: GetWeaponSpec_def hm_find_def weaponSpecs_def to_u32_def split: if_splits)

lemma mag_ok_ammo:
  assumes "mag_ok w m" "GetWeaponSpec (bp w) = Some sp"
  shows "slot_ok m" "IsEmpty m \<or> bp m = to_u32 (ammoType sp)" "quantity m \<le> maxAmmo sp"
  using assms weapon_spec_cases [OF assms(2)] by (auto simp: mag_ok_def IsEmpty_def)

lemma slots_ok_list: "slots_ok ss \<Longrightarrow> list_all slot_ok ss"
  by (auto simp: list_all_iff intro: slots_ok_in)

lemma slots_ok_map_index:
  assumes "slots_ok ss" "map slotIndex ss' = map slotIndex ss" "list_all slot_ok ss'"
  shows "slots_ok ss'"
proof -
  have l: "length ss' = length ss" using assms(2) map_eq_imp_length_eq by blast
  have "slotIndex (ss' ! i) = int i" if "i < length ss'" for i
    using that assms(1,2) l slots_ok_nth [of ss i] by (metis nth_map)
  with assms(3) show ?thesis by (auto simp: slots_ok_def list_all_length)
qed

text \<open>
  The whole effect of a load, for the weapon in the slot and its specification: how much is
  moved, and what it leaves unchanged.
\<close>

definition load_amount :: "bool \<Rightarrow> PlayerInventory \<Rightarrow> int" where
  "load_amount p iv =
     (if IsEmpty (weapon_of p iv) then 0
      else case GetWeaponSpec (bp (weapon_of p iv)) of None \<Rightarrow> 0
      | Some sp \<Rightarrow> min (maxAmmo sp - quantity (magazine_of p iv))
                      (qty_list (to_u32 (ammoType sp)) (inventorySlots iv)))"

lemma load_amount_nonneg: "inv_core iv \<Longrightarrow> 0 \<le> load_amount p iv"
  by (auto simp: load_amount_def inv_core_def slots_ok_in
      intro: qty_list_nonneg dest: mag_ok_ammo(3) split: option.splits)

lemma Load_cases:
  assumes "inv_core iv"
  obtains (idle) "load_amount p iv = 0" "LoadMagazineFromInventory p iv = iv"
  | (moved) sp ss mag r where "\<not> IsEmpty (weapon_of p iv)" "GetWeaponSpec (bp (weapon_of p iv)) = Some sp"
      "0 < load_amount p iv"
      "load_post (to_u32 (ammoType sp)) (inventorySlots iv) (magazine_of p iv)
         (maxAmmo sp - quantity (magazine_of p iv)) False ss mag r True"
      "load_amount p iv = min (maxAmmo sp - quantity (magazine_of p iv))
         (qty_list (to_u32 (ammoType sp)) (inventorySlots iv))"
      "LoadMagazineFromInventory p iv =
         IncrementInventoryVersion (UpdateFirstEmptySlotIndex (set_magazine p mag (iv\<lparr>inventorySlots := ss\<rparr>)))"
proof (cases "IsEmpty (weapon_of p iv) \<or> GetWeaponSpec (bp (weapon_of p iv)) = None")
  case True
  then show thesis
    by (intro idle) (auto simp: load_amount_def LoadMagazineFromInventory_def)
next
  case False
  then obtain sp where sp: "GetWeaponSpec (bp (weapon_of p iv)) = Some sp" and ne: "\<not> IsEmpty (weapon_of p iv)"
    by auto
  let ?rem = "maxAmmo sp - quantity (magazine_of p iv)" and ?a = "to_u32 (ammoType sp)"
  have la: "load_amount p iv = min ?rem (qty_list ?a (inventorySlots iv))"
    using sp ne by (simp add: load_amount_def)
  obtain ss mag r c where ll: "load_loop ?a (inventorySlots iv) (magazine_of p iv) ?rem False = (ss, mag, r, c)"
    by (metis prod_cases4)
  from assms have ok: "mag_ok (weapon_of p iv) (magazine_of p iv)" "slots_ok (inventorySlots iv)"
    by (auto simp: inv_core_def)
  note mo = mag_ok_ammo [OF ok(1) sp]
  have post: "load_post ?a (inventorySlots iv) (magazine_of p iv) ?rem False ss mag r c"
    using mo(3) by (intro load_loop_post [OF slots_ok_list [OF ok(2)] mo(1,2) ammo_nonzero [OF sp] _ ll]) simp
  have eqn: "LoadMagazineFromInventory p iv = (if ?rem \<le> 0 then iv else
      if c then IncrementInventoryVersion (UpdateFirstEmptySlotIndex (set_magazine p mag (iv\<lparr>inventorySlots := ss\<rparr>)))
      else set_magazine p mag (iv\<lparr>inventorySlots := ss\<rparr>))"
    using sp ne ll by (simp add: LoadMagazineFromInventory_def)
  have cc: "c \<longleftrightarrow> 0 < load_amount p iv" using post la by (simp add: load_post_def Let_def)
  show thesis
  proof (cases c)
    case True
    then show thesis using moved [OF ne sp] cc post la eqn by auto
  next
    case False
    then have "set_magazine p mag (iv\<lparr>inventorySlots := ss\<rparr>) = iv"
      using load_loop_unchanged ll by (fastforce simp: set_magazine_def magazine_of_def)
    then show thesis using idle cc False eqn load_amount_nonneg [OF assms, of p] by auto
  qed
qed

lemma Load_ok:
  assumes "inv_core iv"
  shows "inv_core (LoadMagazineFromInventory p iv)"
proof (cases rule: Load_cases [OF assms, of p, case_names idle moved])
  case (moved sp ss mag r)
  have l: "length ss = length (inventorySlots iv)"
    using moved(4) map_eq_imp_length_eq by (auto simp: load_post_def Let_def)
  have s: "slots_ok ss"
    using assms moved(4) slots_ok_map_index by (auto simp: inv_core_def load_post_def Let_def)
  have m: "mag_ok (weapon_of p iv) mag"
    using assms moved by (auto simp: mag_ok_def load_post_def Let_def)
  show ?thesis using assms l s m unfolding moved(6) by (auto simp: inv_core_def)
qed (use assms in auto)

lemma Load_inv_ok:
  assumes "inv_ok iv"
  shows "inv_ok (LoadMagazineFromInventory p iv)"
proof -
  have c: "inv_core iv" using assms by (simp add: inv_ok_def)
  show ?thesis
    using Load_ok [OF c, of p] assms by (cases rule: Load_cases [OF c, of p]) (auto simp: inv_ok_def)
qed

lemma Load_total:
  assumes "inv_core iv"
  shows "carried b (LoadMagazineFromInventory p iv) = carried b iv"
proof (cases rule: Load_cases [OF assms, of p, case_names idle moved])
  case (moved sp ss mag r)
  let ?a = "to_u32 (ammoType sp)"
  have mo: "slot_ok (magazine_of p iv)" "IsEmpty (magazine_of p iv) \<or> bp (magazine_of p iv) = ?a"
    using assms mag_ok_ammo [OF _ moved(2)] by (auto simp: inv_core_def)
  have a0: "?a \<noteq> 0" using moved(2) by simp
  have "qty_of b mag = qty_of b (magazine_of p iv) + (if b = ?a then load_amount p iv else 0)"
    using mo moved(3-5) a0 by (auto simp: load_post_def Let_def qty_of_def IsEmpty_def slot_ok_def)
  moreover have "qty_list b ss = qty_list b (inventorySlots iv) - (if b = ?a then load_amount p iv else 0)"
    using moved(4,5) by (auto simp: load_post_def Let_def)
  ultimately show ?thesis unfolding moved(6) by (simp add: total_alt [of b _ p])
qed simp

lemma Reload_magazine:
  assumes "inv_core iv"
  shows "quantity (magazine_of p (LoadMagazineFromInventory p iv)) = quantity (magazine_of p iv) + load_amount p iv"
    "inventoryVersion (LoadMagazineFromInventory p iv) = inventoryVersion iv + (if 0 < load_amount p iv then 1 else 0)"
  by (cases rule: Load_cases [OF assms, of p, case_names idle moved]; auto simp: load_post_def Let_def)+

text \<open>
  Unloading. In \<open>UnequipWeaponToSlot\<close> the weapon has already been exchanged when its
  magazine is unloaded, so the precondition \<open>inv_loose\<close> asks nothing of that magazine but
  that it is a well-formed slot.
\<close>

definition inv_loose :: "bool \<Rightarrow> PlayerInventory \<Rightarrow> bool" where
  "inv_loose p iv \<longleftrightarrow> length (inventorySlots iv) = INVENTORY_SLOT_COUNT \<and> slots_ok (inventorySlots iv) \<and>
     (\<forall>q. typed_ok IT_WEAPON (weapon_of q iv)) \<and> mag_ok (weapon_of (\<not> p) iv) (magazine_of (\<not> p) iv) \<and>
     slot_ok (magazine_of p iv) \<and> typed_ok IT_ARMOR (armorSlot iv)"

definition first_ok :: "PlayerInventory \<Rightarrow> bool" where
  "first_ok iv \<longleftrightarrow> firstEmptySlotIndex iv = first_empty_from 0 (inventorySlots iv)"

text \<open>
  The unload discards its ammunition exactly when no slot holds the same blueprint and no
  slot is free.
\<close>

definition discards :: "bool \<Rightarrow> PlayerInventory \<Rightarrow> bool" where
  "discards p iv \<longleftrightarrow> \<not> IsEmpty (magazine_of p iv) \<and> (\<forall>s\<in>set (inventorySlots iv). \<not> IsEmpty s \<and> bp s \<noteq> bp (magazine_of p iv))"

definition discarded :: "bool \<Rightarrow> u32 \<Rightarrow> PlayerInventory \<Rightarrow> int" where
  "discarded p b iv = (if discards p iv then qty_of b (magazine_of p iv) else 0)"

lemma inv_ok_core: "inv_ok iv \<Longrightarrow> inv_core iv"
  by (simp add: inv_ok_def)

lemma inv_ok_loose: "inv_ok iv \<Longrightarrow> inv_loose p iv \<and> first_ok iv"
  by (auto simp: inv_ok_def inv_core_def inv_loose_def first_ok_def mag_ok_def)

lemma inv_loose_core:
  "inv_loose p iv \<Longrightarrow> IsEmpty (magazine_of p iv) \<Longrightarrow> inv_core iv"
proof -
  assume l: "inv_loose p iv" and e: "IsEmpty (magazine_of p iv)"
  then have "mag_ok (weapon_of p iv) (magazine_of p iv)" by (simp add: inv_loose_def mag_ok_def)
  then have "mag_ok (weapon_of q iv) (magazine_of q iv)" for q
    using l by (cases "q = p") (auto simp: inv_loose_def)
  then show "inv_core iv" using l by (simp add: inv_loose_def inv_core_def)
qed

lemma find_same_bp_Some:
  "find_same_bp b k ss = Some i \<Longrightarrow> k \<le> i \<and> i - k < length ss \<and> \<not> IsEmpty (ss ! (i - k)) \<and> bp (ss ! (i - k)) = b"
proof (induction ss arbitrary: k)
  case Nil
  then show ?case by simp
next
  case (Cons s ss)
  show ?case
  proof (cases "\<not> IsEmpty s \<and> bp s = b")
    case True
    with Cons.prems show ?thesis by auto
  next
    case False
    with Cons.prems have "find_same_bp b (Suc k) ss = Some i" by (simp split: if_splits)
    from Cons.IH [OF this] have "Suc k \<le> i" "i - Suc k < length ss"
      "\<not> IsEmpty (ss ! (i - Suc k))" "bp (ss ! (i - Suc k)) = b" by auto
    moreover have "i - k = Suc (i - Suc k)" using \<open>Suc k \<le> i\<close> by simp
    ultimately show ?thesis by simp
  qed
qed

lemma find_same_bp_None:
  "find_same_bp b k ss = None \<longleftrightarrow> (\<forall>s\<in>set ss. IsEmpty s \<or> bp s \<noteq> b)"
  by (induction ss arbitrary: k) auto

lemma first_empty_from_cong:
  "map IsEmpty ss = map IsEmpty ts \<Longrightarrow> first_empty_from k ss = first_empty_from k ts"
proof (induction ss arbitrary: ts k)
  case (Cons s ss)
  then show ?case by (cases ts) auto
qed simp

lemma first_empty_from_update:
  "i < length ss \<Longrightarrow> IsEmpty s = IsEmpty (ss ! i) \<Longrightarrow> first_empty_from k (ss[i := s]) = first_empty_from k ss"
proof (rule first_empty_from_cong)
  assume "i < length ss" "IsEmpty s = IsEmpty (ss ! i)"
  then show "map IsEmpty (ss[i := s]) = map IsEmpty ss"
    by (simp add: map_update list_update_same_conv)
qed

lemma Unload_cases:
  assumes "first_ok iv"
  obtains (empty) "IsEmpty (magazine_of p iv)" "UnloadMagazineToInventory p iv = (iv, - 1, True)"
  | (merge) i where "\<not> IsEmpty (magazine_of p iv)" "i < length (inventorySlots iv)"
      "\<not> IsEmpty (inventorySlots iv ! i)" "bp (inventorySlots iv ! i) = bp (magazine_of p iv)"
      "UnloadMagazineToInventory p iv = (set_magazine p (Clear (magazine_of p iv))
         (iv\<lparr>inventorySlots := (inventorySlots iv)[i := (inventorySlots iv ! i)
           \<lparr>quantity := quantity (inventorySlots iv ! i) + quantity (magazine_of p iv)\<rparr>]\<rparr>), int i, True)"
  | (discard) "discards p iv"
      "UnloadMagazineToInventory p iv = (set_magazine p (Clear (magazine_of p iv)) iv, - 1, True)"
  | (place) i where "\<not> IsEmpty (magazine_of p iv)" "i < length (inventorySlots iv)" "IsEmpty (inventorySlots iv ! i)"
      "UnloadMagazineToInventory p iv = (UpdateFirstEmptySlotIndex (set_magazine p (Clear (magazine_of p iv))
         (iv\<lparr>inventorySlots := (inventorySlots iv)[i := put_payload (magazine_of p iv) (inventorySlots iv ! i)]\<rparr>)), int i, True)"
proof (cases "IsEmpty (magazine_of p iv)")
  case True
  then show thesis by (intro empty) (auto simp: UnloadMagazineToInventory_def)
next
  case False
  note ne = this
  show thesis
  proof (cases "find_same_bp (bp (magazine_of p iv)) 0 (inventorySlots iv)")
    case (Some i)
    with ne show thesis
      using find_same_bp_Some [OF Some] by (intro merge [of i]) (auto simp: UnloadMagazineToInventory_def Let_def)
  next
    case None
    let ?f = "first_empty_from 0 (inventorySlots iv)"
    have none: "\<forall>s\<in>set (inventorySlots iv). IsEmpty s \<or> bp s \<noteq> bp (magazine_of p iv)"
      using None by (simp add: find_same_bp_None)
    show thesis
    proof (cases "?f = - 1")
      case True
      then have "\<forall>s\<in>set (inventorySlots iv). \<not> IsEmpty s"
        by (auto simp: first_empty_from_spec split: if_splits)
      with True None ne none assms show thesis
        by (intro discard) (auto simp: discards_def UnloadMagazineToInventory_def first_ok_def Let_def)
    next
      case False
      with None ne assms show thesis
        using first_empty_from_props [OF False]
        by (intro place [of "nat ?f"]) (auto simp: UnloadMagazineToInventory_def first_ok_def Let_def)
    qed
  qed
qed

lemma Unload_ok:
  assumes "inv_loose p iv" "first_ok iv" "UnloadMagazineToInventory p iv = (iv', idx, ok)"
  shows "ok \<and> inv_ok iv' \<and> IsEmpty (magazine_of p iv') \<and> weapon_of q iv' = weapon_of q iv \<and>
    armorSlot iv' = armorSlot iv \<and> inventoryVersion iv' = inventoryVersion iv"
proof -
  have il: "length (inventorySlots iv) = INVENTORY_SLOT_COUNT" "slots_ok (inventorySlots iv)" "slot_ok (magazine_of p iv)"
    using assms(1) by (auto simp: inv_loose_def)
  have core: "inv_core (set_magazine p (Clear (magazine_of p iv)) (iv\<lparr>inventorySlots := ss\<rparr>))"
    if "slots_ok ss" "length ss = length (inventorySlots iv)" for ss
    using that assms(1) il by (intro inv_loose_core [of p]) (auto simp: inv_loose_def)
  show ?thesis
  proof (cases rule: Unload_cases [OF assms(2), of p, case_names empty merge discard place])
    case empty
    then show ?thesis using assms inv_loose_core by (auto simp: inv_ok_def first_ok_def)
  next
    case (merge i)
    let ?s = "inventorySlots iv ! i"
    let ?s' = "?s\<lparr>quantity := quantity ?s + quantity (magazine_of p iv)\<rparr>"
    have s: "slot_ok ?s" "slotIndex ?s = int i" using slots_ok_nth [OF il(2) merge(2)] by auto
    have "slot_ok ?s'" "IsEmpty ?s' = IsEmpty ?s"
      using s merge(1,3) il(3) by (auto simp: slot_ok_def IsEmpty_def)
    then show ?thesis
      using assms(2,3) merge s core [of "(inventorySlots iv)[i := ?s']"] il
      by (auto simp: inv_ok_def first_ok_def slots_ok_update first_empty_from_update)
  next
    case discard
    then show ?thesis using assms(2,3) core [of "inventorySlots iv"] il by (auto simp: inv_ok_def first_ok_def)
  next
    case (place i)
    let ?s = "put_payload (magazine_of p iv) (inventorySlots iv ! i)"
    have "slots_ok ((inventorySlots iv)[i := ?s])"
      using il slots_ok_nth [OF il(2) place(2)] by (intro slots_ok_update) auto
    then show ?thesis using assms(3) place core [of "(inventorySlots iv)[i := ?s]"] by auto
  qed
qed

lemma total_set_slots:
  "carried b (iv\<lparr>inventorySlots := ss\<rparr>) = carried b iv - qty_list b (inventorySlots iv) + qty_list b ss"
  by (simp add: carried_def)

lemma total_set_weapon: "carried b (set_weapon p w iv) = carried b iv - qty_of b (weapon_of p iv) + qty_of b w"
  by (simp add: total_alt [of b _ p])

lemma total_set_magazine: "carried b (set_magazine p m iv) = carried b iv - qty_of b (magazine_of p iv) + qty_of b m"
  by (simp add: total_alt [of b _ p])

lemma total_set_armor: "carried b (iv\<lparr>armorSlot := a\<rparr>) = carried b iv - qty_of b (armorSlot iv) + qty_of b a"
  by (simp add: carried_def)

lemmas total_set = total_set_slots total_set_weapon total_set_magazine total_set_armor

lemma Unload_total:
  assumes "first_ok iv" "UnloadMagazineToInventory p iv = (iv', idx, ok)" "b \<noteq> 0"
  shows "carried b iv' = carried b iv - discarded p b iv"
proof (cases rule: Unload_cases [OF assms(1), of p, case_names empty merge discard place])
  case empty
  then show ?thesis using assms(2) by (simp add: discarded_def discards_def)
next
  case (merge i)
  then have "\<not> discards p iv" by (auto simp: discards_def)
  with merge assms(2,3) show ?thesis
    by (auto simp: discarded_def total_set qty_list_update) (auto simp: qty_of_def)
next
  case discard
  then show ?thesis using assms(2,3) by (auto simp: discarded_def total_set)
next
  case (place i)
  then have "\<not> discards p iv" by (auto simp: discards_def)
  with place assms(2,3) show ?thesis
    by (auto simp: discarded_def total_set qty_list_update qty_of_empty)
qed

lemma Unload_frame:
  assumes "first_ok iv" "UnloadMagazineToInventory p iv = (iv', idx, ok)"
    "\<not> IsEmpty (inventorySlots iv ! i)" "bp (inventorySlots iv ! i) \<noteq> bp (magazine_of p iv)"
  shows "inventorySlots iv' ! i = inventorySlots iv ! i"
  using assms by (cases rule: Unload_cases [OF assms(1), of p, case_names empty merge discard place])
    (auto intro!: nth_list_update_neq)

subsection \<open>References\<close>

lemma deref_ok:
  "store_ok st \<Longrightarrow> valid_ref st r \<Longrightarrow> slot_ok (deref st r)"
  by (cases st; cases r) (auto simp: store_ok_def inv_ok_def inv_core_def slots_ok_nth)

lemma assign_fields [simp]:
  "weapon_of p (fst (assign r s st)) = weapon_of p (fst st)"
  "magazine_of p (fst (assign r s st)) = magazine_of p (fst st)"
  "armorSlot (fst (assign r s st)) = armorSlot (fst st)"
  "inventoryVersion (fst (assign r s st)) = inventoryVersion (fst st)"
  "length (inventorySlots (fst (assign r s st))) = length (inventorySlots (fst st))"
  "length (snd (assign r s st)) = length (snd st)"
  by (cases st; cases r; simp)+

lemma deref_assign:
  "length (inventorySlots (fst st)) = INVENTORY_SLOT_COUNT \<Longrightarrow> valid_ref st r \<Longrightarrow> deref (assign r s st) r = s"
  by (cases st; cases r) auto

lemma assign_total:
  assumes "length (inventorySlots (fst st)) = INVENTORY_SLOT_COUNT" "valid_ref st r"
  shows "store_total b (assign r s st) = store_total b st - qty_of b (deref st r) + qty_of b s"
  using assms by (cases st; cases r) (auto simp: store_total_def total_set qty_list_update)

lemma assign_slots_ok:
  assumes "slots_ok (inventorySlots (fst st))" "slots_ok (snd st)" "slot_ok s" "slotIndex s = slotIndex (deref st r)"
    "length (inventorySlots (fst st)) = INVENTORY_SLOT_COUNT" "valid_ref st r"
  shows "slots_ok (inventorySlots (fst (assign r s st))) \<and> slots_ok (snd (assign r s st))"
  using assms by (cases st; cases r) (auto simp: slots_ok_update slots_ok_nth)

lemma deref_frame:
  "inventorySlots iv = inventorySlots iv' \<Longrightarrow> deref (iv, cs) r = deref (iv', cs) r"
  by (cases r) auto

subsection \<open>Equipment\<close>

text \<open>
  What a successful exchange leaves: a well-formed store, one more version, the same amount of
  every blueprint except \<open>lost\<close>, and the deny mask as it was; a refused one leaves
  everything as it was and leaves a nonzero mask.
\<close>

definition exchange_ok :: "store \<Rightarrow> (u32 \<Rightarrow> int) \<Rightarrow> u32 \<Rightarrow> store \<Rightarrow> bool \<Rightarrow> u32 \<Rightarrow> bool" where
  "exchange_ok st lost deny st' ok deny' \<longleftrightarrow>
     (if ok then store_ok st' \<and> deny' = deny \<and>
        inventoryVersion (fst st') = inventoryVersion (fst st) + 1 \<and>
        (\<forall>b. b \<noteq> 0 \<longrightarrow> store_total b st' = store_total b st - lost b)
      else st' = st \<and> deny' \<noteq> 0)"

lemma store_okD:
  assumes "store_ok st"
  shows "inv_ok (fst st)" "inv_core (fst st)" "slots_ok (snd st)" "slots_ok (inventorySlots (fst st))"
    "length (inventorySlots (fst st)) = INVENTORY_SLOT_COUNT"
    "typed_ok IT_WEAPON (weapon_of p (fst st))" "mag_ok (weapon_of p (fst st)) (magazine_of p (fst st))"
    "typed_ok IT_ARMOR (armorSlot (fst st))" "first_ok (fst st)"
  using assms by (auto simp: store_ok_def inv_ok_def inv_core_def first_ok_def)

lemma store_ok_finish:
  "store_ok (finish_equip st) \<longleftrightarrow> inv_core (fst st) \<and> slots_ok (snd st)"
  by (simp add: store_ok_def finish_equip_def)

lemma store_total_finish [simp]: "store_total b (finish_equip st) = store_total b st"
  by (simp add: store_total_def finish_equip_def)

lemma inventoryVersion_finish [simp]:
  "inventoryVersion (fst (finish_equip st)) = inventoryVersion (fst st) + 1"
  by (simp add: finish_equip_def)

lemma typed_ok_put [simp]: "typed_ok t (put_payload s w) = typed_ok t s"
  by (simp add: typed_ok_def)

lemma typed_ok_Clear [simp]: "typed_ok t (Clear s)"
  by (simp add: typed_ok_def)

text \<open>
  All four operations exchange the payload of an equipment slot with that of a slot; an empty
  side is written as a cleared slot.
\<close>

definition swap_into :: "Slot \<Rightarrow> Slot \<Rightarrow> Slot" where
  "swap_into x y = (if IsEmpty x then Clear y else put_payload x y)"

lemma swap_into_simps [simp]:
  "slot_ok x \<Longrightarrow> slot_ok (swap_into x y)"
  "slotIndex (swap_into x y) = slotIndex y"
  "b \<noteq> 0 \<Longrightarrow> qty_of b (swap_into x y) = qty_of b x"
  "typed_ok t x \<Longrightarrow> typed_ok t (swap_into x y)"
  "IsEmpty (swap_into x y) = IsEmpty x"
  by (auto simp: swap_into_def qty_of_empty)

definition swap_armor :: "slot_ref \<Rightarrow> store \<Rightarrow> store" where
  "swap_armor r st = assign r (swap_into (armorSlot (fst st)) (deref st r))
     ((fst st)\<lparr>armorSlot := swap_into (deref st r) (armorSlot (fst st))\<rparr>, snd st)"

definition swap_weapon :: "bool \<Rightarrow> slot_ref \<Rightarrow> store \<Rightarrow> store" where
  "swap_weapon p r st = assign r (swap_into (weapon_of p (fst st)) (deref st r))
     (set_weapon p (swap_into (deref st r) (weapon_of p (fst st))) (fst st), snd st)"

lemma deref_equipment [simp]:
  "deref (iv\<lparr>armorSlot := a\<rparr>, cs) r = deref (iv, cs) r" "deref (set_weapon p w iv, cs) r = deref (iv, cs) r"
  "valid_ref (iv\<lparr>armorSlot := a\<rparr>, cs) r = valid_ref (iv, cs) r"
  "valid_ref (set_weapon p w iv, cs) r = valid_ref (iv, cs) r"
  by (cases r; simp)+

lemma swap_armor_ok:
  assumes "inv_core (fst st)" "slots_ok (snd st)" "valid_ref st r" "typed_ok IT_ARMOR (deref st r)"
  shows "inv_core (fst (swap_armor r st)) \<and> slots_ok (snd (swap_armor r st))"
    and "inventoryVersion (fst (swap_armor r st)) = inventoryVersion (fst st)"
    and "b \<noteq> 0 \<Longrightarrow> store_total b (swap_armor r st) = store_total b st"
proof -
  let ?st2 = "((fst st)\<lparr>armorSlot := swap_into (deref st r) (armorSlot (fst st))\<rparr>, snd st)"
  let ?s = "swap_into (armorSlot (fst st)) (deref st r)"
  have len: "length (inventorySlots (fst st)) = INVENTORY_SLOT_COUNT" "slot_ok (armorSlot (fst st))"
    using assms(1) by (auto simp: inv_core_def typed_ok_def)
  have "slots_ok (inventorySlots (fst (assign r ?s ?st2))) \<and> slots_ok (snd (assign r ?s ?st2))"
    using assms len by (intro assign_slots_ok) (auto simp: inv_core_def)
  then show "inv_core (fst (swap_armor r st)) \<and> slots_ok (snd (swap_armor r st))"
    using assms by (auto simp: inv_core_def swap_armor_def)
  show "inventoryVersion (fst (swap_armor r st)) = inventoryVersion (fst st)"
    by (simp add: swap_armor_def)
  show "store_total b (swap_armor r st) = store_total b st" if "b \<noteq> 0"
    using assign_total [of ?st2 r b ?s] assms(3) len that
    by (simp add: swap_armor_def) (simp add: store_total_def total_set)
qed

lemma swap_weapon_ok:
  assumes "inv_loose p (fst st)" "slots_ok (snd st)" "valid_ref st r" "typed_ok IT_WEAPON (deref st r)"
  shows "inv_loose p (fst (swap_weapon p r st)) \<and> slots_ok (snd (swap_weapon p r st))"
    and "inventoryVersion (fst (swap_weapon p r st)) = inventoryVersion (fst st)"
    and "magazine_of q (fst (swap_weapon p r st)) = magazine_of q (fst st)"
    and "b \<noteq> 0 \<Longrightarrow> store_total b (swap_weapon p r st) = store_total b st"
proof -
  let ?st2 = "(set_weapon p (swap_into (deref st r) (weapon_of p (fst st))) (fst st), snd st)"
  let ?s = "swap_into (weapon_of p (fst st)) (deref st r)"
  have len: "length (inventorySlots (fst st)) = INVENTORY_SLOT_COUNT" "slot_ok (weapon_of p (fst st))"
    using assms(1) by (auto simp: inv_loose_def typed_ok_def)
  have "slots_ok (inventorySlots (fst (assign r ?s ?st2))) \<and> slots_ok (snd (assign r ?s ?st2))"
    using assms len by (intro assign_slots_ok) (auto simp: inv_loose_def)
  then show "inv_loose p (fst (swap_weapon p r st)) \<and> slots_ok (snd (swap_weapon p r st))"
    using assms by (auto simp: inv_loose_def swap_weapon_def)
  show "inventoryVersion (fst (swap_weapon p r st)) = inventoryVersion (fst st)"
    "magazine_of q (fst (swap_weapon p r st)) = magazine_of q (fst st)"
    by (simp_all add: swap_weapon_def)
  show "store_total b (swap_weapon p r st) = store_total b st" if "b \<noteq> 0"
    using assign_total [of ?st2 r b ?s] assms(3) len that
    by (simp add: swap_weapon_def) (simp add: store_total_def total_set)
qed

lemma EquipArmor_swap:
  "EquipArmorFromSlot r deny st =
     (if IsEmpty (deref st r) then (st, False, deny OR DENY_SLOT_EMPTY)
      else if slot_type (deref st r) \<noteq> IT_ARMOR then (st, False, deny OR DENY_ITEM_TYPE_MISMATCH)
      else (finish_equip (swap_armor r st), True, deny))"
  by (simp add: EquipArmorFromSlot_def swap_armor_def swap_into_def Let_def)

lemma UnequipArmor_swap:
  "UnequipArmorToSlot r deny st =
     (if IsEmpty (armorSlot (fst st)) then (st, False, deny OR DENY_SLOT_EMPTY)
      else if \<not> IsEmpty (deref st r) \<and> slot_type (deref st r) \<noteq> IT_ARMOR
      then (st, False, deny OR DENY_ITEM_TYPE_MISMATCH)
      else (finish_equip (swap_armor r st), True, deny))"
  by (simp add: UnequipArmorToSlot_def swap_armor_def swap_into_def Let_def)

lemma deny_nonzero [simp]: "deny OR DENY_SLOT_EMPTY \<noteq> 0" "deny OR DENY_ITEM_TYPE_MISMATCH \<noteq> 0"
  "deny OR DENY_BARE_HANDED \<noteq> 0"
  by (simp_all add: deny_defs or_eq_0_iff)

lemma swap_armor_exchange:
  assumes "store_ok st" "valid_ref st r" "IsEmpty (deref st r) \<or> slot_type (deref st r) = IT_ARMOR"
  shows "exchange_ok st (\<lambda>_. 0) deny (finish_equip (swap_armor r st)) True deny"
  using swap_armor_ok [of st r] store_okD [OF assms(1)] deref_ok [OF assms(1,2)] assms(2,3)
  by (simp add: exchange_ok_def store_ok_finish typed_ok_def)

lemma Armor_exchange:
  assumes "store_ok st" "valid_ref st r"
    and "EquipArmorFromSlot r deny st = (st', ok, deny') \<or> UnequipArmorToSlot r deny st = (st', ok, deny')"
  shows "exchange_ok st (\<lambda>_. 0) deny st' ok deny'"
  using assms(3) swap_armor_exchange [OF assms(1,2)]
  by (auto simp: EquipArmor_swap UnequipArmor_swap split: if_splits) (auto simp: exchange_ok_def)

lemma mag_ammo_type:
  assumes "mag_ok w m" "\<not> IsEmpty m"
  shows "GetType (to_i32 (bp m)) = IT_AMMO"
  using assms by (auto simp: mag_ok_def GetWeaponSpec_def hm_find_def weaponSpecs_def GetType_def typeMap_def
      to_i32_def to_u32_def split: option.splits if_splits)

lemma Unload_deref:
  assumes "store_ok st" "UnloadMagazineToInventory p (fst st) = (iv1, u, ok)"
    "\<not> IsEmpty (deref st r)" "slot_type (deref st r) = IT_WEAPON"
  shows "deref (iv1, snd st) r = deref st r"
proof (cases "IsEmpty (magazine_of p (fst st))")
  case True
  then show ?thesis using assms(2) by (cases st) (auto simp: UnloadMagazineToInventory_def)
next
  case False
  have "bp (deref st r) \<noteq> bp (magazine_of p (fst st))"
    using mag_ammo_type [OF store_okD(7) [OF assms(1)] False] assms(4) by auto
  then show ?thesis
    using Unload_frame [OF store_okD(9) [OF assms(1)] assms(2)] assms(3) by (cases st; cases r) auto
qed

lemma EquipWeapon_exchange:
  assumes "store_ok st" "valid_ref st r" "EquipWeaponFromSlot r p deny u st = (st', ok, deny', u')"
  shows "exchange_ok st (\<lambda>b. discarded p b (fst st)) deny st' ok deny'"
proof (cases "IsEmpty (deref st r) \<or> slot_type (deref st r) \<noteq> IT_WEAPON")
  case True
  then show ?thesis using assms(3) by (auto simp: EquipWeaponFromSlot_def exchange_ok_def split: if_splits)
next
  case False
  obtain iv1 u1 ok1 where un: "UnloadMagazineToInventory p (fst st) = (iv1, u1, ok1)" by (metis prod_cases3)
  let ?st1 = "(iv1, snd st)"
  have un_ok: "ok1" "inv_ok iv1" "IsEmpty (magazine_of p iv1)" "inventoryVersion iv1 = inventoryVersion (fst st)"
    using Unload_ok [OF _ _ un] inv_ok_loose [OF store_okD(1) [OF assms(1)]] by auto
  have d: "deref ?st1 r = deref st r" using Unload_deref [OF assms(1) un] False by auto
  have eq: "st' = finish_equip (swap_weapon p r ?st1)" "ok" "deny' = deny"
    using assms(3) False un un_ok(1) d
    by (auto simp: EquipWeaponFromSlot_def Let_def swap_weapon_def swap_into_def)
  have v: "valid_ref ?st1 r" using assms(2) by (cases r) auto
  have pre: "inv_loose p (fst ?st1)" "slots_ok (snd ?st1)" "valid_ref ?st1 r" "typed_ok IT_WEAPON (deref ?st1 r)"
    using inv_ok_loose [OF un_ok(2)] store_okD(3) [OF assms(1)] v d False deref_ok [OF assms(1,2)]
    by (auto simp: typed_ok_def)
  note sw = swap_weapon_ok [OF pre]
  have "inv_core (fst (swap_weapon p r ?st1))"
    using sw(1) un_ok(3) sw(3) [of p] by (intro inv_loose_core) auto
  moreover have "store_total b (swap_weapon p r ?st1) = store_total b st - discarded p b (fst st)" if "b \<noteq> 0" for b
    using sw(4) [OF that] Unload_total [OF store_okD(9) [OF assms(1)] un that] by (simp add: store_total_def)
  ultimately show ?thesis
    using eq sw(1,2) un_ok(4) by (simp add: exchange_ok_def store_ok_finish)
qed

lemma UnequipWeapon_swap:
  "UnequipWeaponToSlot r p deny u st =
     (if IsEmpty (weapon_of p (fst st)) then (st, False, deny OR DENY_SLOT_EMPTY, u)
      else if IsEmpty (deref st r) \<and> IsEmpty (weapon_of (\<not> p) (fst st)) then (st, False, deny OR DENY_BARE_HANDED, u)
      else if \<not> IsEmpty (deref st r) \<and> slot_type (deref st r) \<noteq> IT_WEAPON
      then (st, False, deny OR DENY_ITEM_TYPE_MISMATCH, u)
      else let (iv4, u1, ok) = UnloadMagazineToInventory p (UpdateFirstEmptySlotIndex (fst (swap_weapon p r st)));
               cs = snd (swap_weapon p r st)
           in if \<not> ok then ((iv4, cs), False, deny OR DENY_MAGAZINE_UNLOAD_FAILED, u1)
              else ((IncrementInventoryVersion iv4, cs), True, deny, u1))"
  by (simp add: UnequipWeaponToSlot_def swap_weapon_def swap_into_def Let_def)

lemma UnequipWeapon_exchange:
  assumes "store_ok st" "valid_ref st r" "UnequipWeaponToSlot r p deny u st = (st', ok, deny', u')"
  shows "exchange_ok st (\<lambda>b. discarded p b (fst (swap_weapon p r st))) deny st' ok deny'"
proof (cases "IsEmpty (weapon_of p (fst st)) \<or> (IsEmpty (deref st r) \<and> IsEmpty (weapon_of (\<not> p) (fst st))) \<or>
    (\<not> IsEmpty (deref st r) \<and> slot_type (deref st r) \<noteq> IT_WEAPON)")
  case True
  then show ?thesis using assms(3) by (auto simp: UnequipWeapon_swap exchange_ok_def split: if_splits)
next
  case False
  let ?iv = "UpdateFirstEmptySlotIndex (fst (swap_weapon p r st))"
  obtain iv4 u1 ok1 where un: "UnloadMagazineToInventory p ?iv = (iv4, u1, ok1)" by (metis prod_cases3)
  have pre: "inv_loose p (fst st)" "slots_ok (snd st)" "valid_ref st r" "typed_ok IT_WEAPON (deref st r)"
    using inv_ok_loose [OF store_okD(1) [OF assms(1)]] store_okD(3) [OF assms(1)] assms(2) False
      deref_ok [OF assms(1,2)] by (auto simp: typed_ok_def)
  note sw = swap_weapon_ok [OF pre]
  have "inv_loose p ?iv" "first_ok ?iv" using sw(1) by (auto simp: inv_loose_def first_ok_def)
  note uo = Unload_ok [OF this un] and ut = Unload_total [OF this(2) un]
  have eq: "st' = (IncrementInventoryVersion iv4, snd (swap_weapon p r st))" "ok" "deny' = deny"
    using assms(3) False un uo by (auto simp: UnequipWeapon_swap Let_def)
  have "discarded p b ?iv = discarded p b (fst (swap_weapon p r st))" for b
    by (simp add: discarded_def discards_def)
  then show ?thesis
    using eq uo sw(1,2,4) ut by (simp add: exchange_ok_def store_ok_def store_total_def)
qed

subsection \<open>The constructor\<close>

lemma place_inventory_Cons [simp]:
  "place_inventory base (s # ss) = place_inventory
     (if 0 \<le> slotIndex s \<and> slotIndex s < int INVENTORY_SLOT_COUNT then base[nat (slotIndex s) := s] else base) ss"
  by (simp add: place_inventory_def)

lemma place_inventory_Nil [simp]: "place_inventory base [] = base"
  by (simp add: place_inventory_def)

lemma place_inventory_ok:
  "slots_ok base \<Longrightarrow> list_all slot_ok ss \<Longrightarrow>
   slots_ok (place_inventory base ss) \<and> length (place_inventory base ss) = length base"
proof (induction ss arbitrary: base)
  case (Cons s ss)
  then show ?case by (cases "0 \<le> slotIndex s \<and> slotIndex s < int INVENTORY_SLOT_COUNT") (auto simp: slots_ok_update)
qed simp

lemma place_inventory_qty:
  assumes "length base = INVENTORY_SLOT_COUNT" "distinct (map slotIndex ss)"
    "\<forall>s\<in>set ss. 0 \<le> slotIndex s \<and> slotIndex s < int INVENTORY_SLOT_COUNT \<and> qty_of b (base ! nat (slotIndex s)) = 0"
  shows "qty_list b (place_inventory base ss) = qty_list b base + qty_list b ss"
  using assms
proof (induction ss arbitrary: base)
  case (Cons s ss)
  let ?base = "base[nat (slotIndex s) := s]"
  have r: "0 \<le> slotIndex s" "slotIndex s < int INVENTORY_SLOT_COUNT" "qty_of b (base ! nat (slotIndex s)) = 0"
    using Cons.prems(3) by auto
  have "?base ! nat (slotIndex t) = base ! nat (slotIndex t)" if "t \<in> set ss" for t
    using that Cons.prems(2,3) r(1) by (intro nth_list_update_neq) (force simp: nat_eq_iff2 image_iff)
  then have "qty_list b (place_inventory ?base ss) = qty_list b ?base + qty_list b ss"
    using Cons.prems by (intro Cons.IH) auto
  then show ?case using r Cons.prems(1) by (simp add: qty_list_update nat_less_iff)
qed simp

text \<open>The equipment slot an equipment id stands for; its kind.\<close>

definition equip_of :: "i32 \<Rightarrow> PlayerInventory \<Rightarrow> Slot" where
  "equip_of k iv = (if k = 0 then primaryWeaponSlot iv else if k = 1 then secondaryWeaponSlot iv else armorSlot iv)"

definition equip_kind :: "i32 \<Rightarrow> ItemType" where
  "equip_kind k = (if k = 0 \<or> k = 1 then IT_WEAPON else IT_ARMOR)"

lemma place_equipment_Cons [simp]:
  "place_equipment iv (s # ss) = place_equipment (if slotIndex s = 0 then iv\<lparr>primaryWeaponSlot := s\<rparr>
       else if slotIndex s = 1 then iv\<lparr>secondaryWeaponSlot := s\<rparr>
       else if slotIndex s = 2 then iv\<lparr>armorSlot := s\<rparr> else iv) ss"
  by (simp add: place_equipment_def)

lemma place_equipment_Nil [simp]: "place_equipment iv [] = iv"
  by (simp add: place_equipment_def)

lemma place_equipment_frame [simp]:
  "inventorySlots (place_equipment iv ss) = inventorySlots iv"
  "primaryWeaponMagazineSlot (place_equipment iv ss) = primaryWeaponMagazineSlot iv"
  "secondaryWeaponMagazineSlot (place_equipment iv ss) = secondaryWeaponMagazineSlot iv"
  by (induction ss arbitrary: iv) auto

lemma place_equipment_typed:
  assumes "\<forall>s\<in>set ss. typed_ok (equip_kind (slotIndex s)) s"
    "\<forall>k\<in>{0, 1, 2}. typed_ok (equip_kind k) (equip_of k iv)" "k \<in> {0, 1, 2}"
  shows "typed_ok (equip_kind k) (equip_of k (place_equipment iv ss))"
  using assms
proof (induction ss arbitrary: iv)
  case (Cons s ss)
  show ?case
    unfolding place_equipment_Cons
    by (rule Cons.IH) (use Cons.prems in \<open>auto simp: equip_of_def equip_kind_def\<close>)
qed auto

lemma place_equipment_qty:
  assumes "distinct (map slotIndex ss)"
    "\<forall>s\<in>set ss. slotIndex s \<in> {0, 1, 2} \<and> qty_of b (equip_of (slotIndex s) iv) = 0"
  shows "carried b (place_equipment iv ss) = carried b iv + qty_list b ss"
  using assms
proof (induction ss arbitrary: iv)
  case (Cons s ss)
  let ?iv = "if slotIndex s = 0 then iv\<lparr>primaryWeaponSlot := s\<rparr>
       else if slotIndex s = 1 then iv\<lparr>secondaryWeaponSlot := s\<rparr>
       else if slotIndex s = 2 then iv\<lparr>armorSlot := s\<rparr> else iv"
  have "carried b (place_equipment ?iv ss) = carried b ?iv + qty_list b ss"
    using Cons.prems by (intro Cons.IH) (auto simp: equip_of_def)
  moreover have "carried b ?iv = carried b iv + qty_of b s"
    using Cons.prems by (auto simp: equip_of_def carried_def)
  ultimately show ?case by simp
qed simp

text \<open>The loadout the lobby hands over: one entry per slot id, each of the slot's kind.\<close>

definition loadout_ok :: "Slot list \<Rightarrow> Slot list \<Rightarrow> bool" where
  "loadout_ok ivs eqs \<longleftrightarrow>
     distinct (map slotIndex ivs) \<and> list_all (\<lambda>s. slot_ok s \<and> 0 \<le> slotIndex s \<and> slotIndex s < int INVENTORY_SLOT_COUNT) ivs \<and>
     distinct (map slotIndex eqs) \<and>
     list_all (\<lambda>s. slotIndex s \<in> {0, 1, 2} \<and> typed_ok (equip_kind (slotIndex s)) s) eqs"

lemma base_slots:
  "slots_ok (map (\<lambda>i. Slot_default\<lparr>slotIndex := int i\<rparr>) [0..<n])"
  "b \<noteq> 0 \<Longrightarrow> qty_list b (map (\<lambda>i. Slot_default\<lparr>slotIndex := int i\<rparr>) [0..<n]) = 0"
proof -
  show "slots_ok (map (\<lambda>i. Slot_default\<lparr>slotIndex := int i\<rparr>) [0..<n])"
    by (auto simp: slots_ok_def slot_ok_def Slot_default_def Item_default_def)
  show "qty_list b (map (\<lambda>i. Slot_default\<lparr>slotIndex := int i\<rparr>) [0..<n]) = 0" if "b \<noteq> 0"
    using that by (intro qty_list_zero) (auto simp: qty_of_def Slot_default_def Item_default_def)
qed

definition fresh_inventory :: "Slot list \<Rightarrow> Slot list \<Rightarrow> PlayerInventory" where
  "fresh_inventory ivs eqs = place_equipment
     \<lparr>primaryWeaponSlot = Slot_default, secondaryWeaponSlot = Slot_default,
      armorSlot = Slot_default, primaryWeaponMagazineSlot = Slot_default,
      secondaryWeaponMagazineSlot = Slot_default,
      inventorySlots = place_inventory (map (\<lambda>i. Slot_default\<lparr>slotIndex := int i\<rparr>) [0..<INVENTORY_SLOT_COUNT]) ivs,
      inventoryVersion = 0, firstEmptySlotIndex = - 1\<rparr> eqs"

lemma Make_fresh:
  "MakePlayerInventory ivs eqs = UpdateFirstEmptySlotIndex
     (LoadMagazineFromInventory False (LoadMagazineFromInventory True (fresh_inventory ivs eqs)))"
  by (simp add: MakePlayerInventory_def fresh_inventory_def Let_def)

lemma fresh_core:
  assumes "loadout_ok ivs eqs"
  shows "inv_core (fresh_inventory ivs eqs)"
proof -
  have "\<forall>k\<in>{0, 1, 2}. typed_ok (equip_kind k) (equip_of k (fresh_inventory ivs eqs))"
    using assms unfolding fresh_inventory_def
    by (intro ballI place_equipment_typed)
      (auto simp: loadout_ok_def list_all_iff equip_of_def typed_ok_def)
  then show ?thesis
    using assms place_inventory_ok [OF base_slots(1) [of INVENTORY_SLOT_COUNT], of ivs]
    by (auto simp: inv_core_def loadout_ok_def list_all_iff weapon_of_def magazine_of_def equip_of_def
        equip_kind_def mag_ok_def fresh_inventory_def)
qed

lemma fresh_carried:
  assumes "loadout_ok ivs eqs" "b \<noteq> 0"
  shows "carried b (fresh_inventory ivs eqs) = qty_list b ivs + qty_list b eqs"
proof -
  let ?base = "map (\<lambda>i. Slot_default\<lparr>slotIndex := int i\<rparr>) [0..<INVENTORY_SLOT_COUNT]"
  have "qty_list b (place_inventory ?base ivs) = qty_list b ?base + qty_list b ivs"
    using assms
    by (intro place_inventory_qty) (auto simp: loadout_ok_def list_all_iff qty_of_def nat_less_iff)
  moreover have "qty_of b Slot_default = 0" using assms(2) by (simp add: qty_of_def)
  ultimately show ?thesis
    using assms base_slots(2) [OF assms(2)] unfolding fresh_inventory_def
    by (subst place_equipment_qty) (auto simp: loadout_ok_def list_all_iff carried_def equip_of_def)
qed

section \<open>Properties\<close>

lemma unequip_armed:
  assumes "UnequipWeaponToSlot r p deny u st = (st', True, deny', u')" "store_ok st" "valid_ref st r"
  shows "\<exists>q. \<not> IsEmpty (weapon_of q (fst st'))"
proof -
  have typed: "typed_ok IT_WEAPON (deref st r)"
    using assms deref_ok [OF assms(2,3)] by (auto simp: UnequipWeapon_swap typed_ok_def split: if_splits)
  let ?iv = "UpdateFirstEmptySlotIndex (fst (swap_weapon p r st))"
  obtain iv4 u1 ok1 where un: "UnloadMagazineToInventory p ?iv = (iv4, u1, ok1)" by (metis prod_cases3)
  have "inv_loose p (fst st)" "slots_ok (snd st)"
    using inv_ok_loose store_okD(1,3) [OF assms(2)] by auto
  then have "inv_loose p ?iv" "first_ok ?iv"
    using swap_weapon_ok(1) [OF _ _ assms(3) typed] by (auto simp: inv_loose_def first_ok_def)
  then have "weapon_of q iv4 = weapon_of q (fst (swap_weapon p r st))" for q
    using Unload_ok [OF _ _ un] by simp
  then have w: "weapon_of q (fst st') = weapon_of q (fst (swap_weapon p r st))" for q
    using assms(1) un by (auto simp: UnequipWeapon_swap Let_def split: if_splits)
  have "\<not> IsEmpty (weapon_of (if IsEmpty (deref st r) then \<not> p else p) (fst st'))"
    using assms(1) unfolding w by (auto simp: UnequipWeapon_swap swap_weapon_def split: if_splits)
  then show ?thesis by blast
qed

text \<open>
  Equipping a weapon from any slot (of the inventory or of the opened container) keeps the
  well-formedness of the store, raises the inventory version by one and conserves every
  blueprint, except that the ammunition of the replaced magazine is thrown away exactly when no
  slot holds the same ammunition and no slot is free.
\<close>

theorem equip_weapon_conserves:
  assumes "store_ok st" "valid_ref st r" "EquipWeaponFromSlot r p deny u st = (st', True, deny', u')" "b \<noteq> 0"
  shows "store_ok st' \<and> inventoryVersion (fst st') = inventoryVersion (fst st) + 1 \<and>
    store_total b st' = store_total b st - (if discards p (fst st) then qty_of b (magazine_of p (fst st)) else 0)"
  using EquipWeapon_exchange [OF assms(1-3)] assms(4) by (simp add: exchange_ok_def discarded_def)

text \<open>
  Unequipping a weapon into a slot never leaves the player bare-handed and conserves every
  blueprint, again up to the documented discard of the unloaded magazine, judged in the
  inventory after the weapon has moved.
\<close>

theorem unequip_weapon_conserves:
  assumes "store_ok st" "valid_ref st r" "UnequipWeaponToSlot r p deny u st = (st', True, deny', u')" "b \<noteq> 0"
  shows "store_ok st' \<and> (\<exists>q. \<not> IsEmpty (weapon_of q (fst st'))) \<and>
    store_total b st' = store_total b st - discarded p b (fst (swap_weapon p r st))"
  using UnequipWeapon_exchange [OF assms(1-3)] assms(4) unequip_armed [OF assms(3,1,2)]
  by (simp add: exchange_ok_def)

text \<open>
  A refused equipment operation leaves the inventory and the container exactly as they
  were and reports a reason.
\<close>

theorem equip_denied_unchanged:
  assumes "store_ok st" "valid_ref st r"
    and "\<exists>u u'. EquipWeaponFromSlot r p deny u st = (st', False, deny', u') \<or>
           UnequipWeaponToSlot r p deny u st = (st', False, deny', u') \<or>
           EquipArmorFromSlot r deny st = (st', False, deny') \<or>
           UnequipArmorToSlot r deny st = (st', False, deny')"
  shows "st' = st \<and> deny' \<noteq> 0"
proof -
  have "\<exists>lost. exchange_ok st lost deny st' False deny'"
    using assms(3) EquipWeapon_exchange [OF assms(1,2)] UnequipWeapon_exchange [OF assms(1,2)]
      Armor_exchange [OF assms(1,2)] by blast
  then show ?thesis by (simp add: exchange_ok_def)
qed

text \<open>
  Exchanging armour conserves every blueprint, keeps the store well formed and raises the
  version by one.
\<close>

theorem armor_exchange_conserves:
  assumes "store_ok st" "valid_ref st r" "b \<noteq> 0"
    and "EquipArmorFromSlot r deny st = (st', True, deny') \<or> UnequipArmorToSlot r deny st = (st', True, deny')"
  shows "store_ok st' \<and> store_total b st' = store_total b st \<and>
    inventoryVersion (fst st') = inventoryVersion (fst st) + 1"
  using Armor_exchange [OF assms(1,2,4)] assms(3) by (simp add: exchange_ok_def)

text \<open>
  A reload fills the magazine with as much of the weapon's ammunition as fits and the
  inventory holds, takes exactly that from the inventory, keeps everything else, and reports a
  change exactly when something was moved.
\<close>

theorem reload_fills_magazine:
  assumes "inv_ok iv" "\<not> IsEmpty (weapon_of p iv)" "GetWeaponSpec (bp (weapon_of p iv)) = Some sp"
    "ReloadMagazine p iv = (iv', changed)"
  shows "quantity (magazine_of p iv') =
      min (maxAmmo sp) (quantity (magazine_of p iv) + qty_list (to_u32 (ammoType sp)) (inventorySlots iv)) \<and>
    (changed \<longleftrightarrow> quantity (magazine_of p iv) < quantity (magazine_of p iv')) \<and>
    inv_ok iv' \<and> carried b iv' = carried b iv"
proof -
  have c: "inv_core iv" by (rule inv_ok_core [OF assms(1)])
  have eq: "iv' = LoadMagazineFromInventory p iv" "changed = (inventoryVersion iv' \<noteq> inventoryVersion iv)"
    using assms(4) by (auto simp: ReloadMagazine_def Let_def)
  have la: "load_amount p iv = min (maxAmmo sp - quantity (magazine_of p iv))
      (qty_list (to_u32 (ammoType sp)) (inventorySlots iv))"
    using assms(2,3) by (simp add: load_amount_def)
  have "quantity (magazine_of p iv') = quantity (magazine_of p iv) + load_amount p iv"
    "changed = (0 < load_amount p iv)"
    using Reload_magazine [OF c, of p] eq by auto
  moreover have "inv_ok iv'" "carried b iv' = carried b iv"
    using Load_inv_ok [OF assms(1)] Load_total [OF c] eq by auto
  ultimately show ?thesis unfolding la by simp
qed

lemma MakePlayerInventory_ok:
  assumes "loadout_ok ivs eqs"
  shows "inv_ok (MakePlayerInventory ivs eqs)"
    "b \<noteq> 0 \<Longrightarrow> carried b (MakePlayerInventory ivs eqs) = qty_list b ivs + qty_list b eqs"
proof -
  have c: "inv_core (fresh_inventory ivs eqs)" by (rule fresh_core [OF assms])
  then have c2: "inv_core (LoadMagazineFromInventory True (fresh_inventory ivs eqs))" by (rule Load_ok)
  show "inv_ok (MakePlayerInventory ivs eqs)" using Load_ok [OF c2, of False] by (simp add: Make_fresh)
  show "b \<noteq> 0 \<Longrightarrow> carried b (MakePlayerInventory ivs eqs) = qty_list b ivs + qty_list b eqs"
    using Load_total [OF c] Load_total [OF c2] fresh_carried [OF assms] by (simp add: Make_fresh)
qed

text \<open>
  A session's inventory built from a well-formed loadout is well formed and carries exactly
  what the loadout lists: loading the two magazines moves ammunition and loses none.
\<close>

theorem constructor_conserves:
  assumes "loadout_ok ivs eqs" "b \<noteq> 0"
  shows "inv_ok (MakePlayerInventory ivs eqs) \<and>
    carried b (MakePlayerInventory ivs eqs) = qty_list b ivs + qty_list b eqs"
  using MakePlayerInventory_ok [OF assms(1)] assms(2) by blast

subsection \<open>Concrete inventories\<close>

definition ex_slot :: "i32 \<Rightarrow> u32 \<Rightarrow> i32 \<Rightarrow> Slot" where
  "ex_slot i b q = \<lparr>slot_item = \<lparr>instanceUid = 7, blueprintId = b\<rparr>, slotIndex = i, quantity = q\<rparr>"

definition ex_loadout :: "Slot list \<times> Slot list" where
  "ex_loadout = ([ex_slot 0 6 40, ex_slot 1 2 1, ex_slot 2 8 1], [ex_slot 0 1 1, ex_slot 2 4 1])"

definition ex_store :: store where
  "ex_store = (MakePlayerInventory (fst ex_loadout) (snd ex_loadout), [])"

lemma ex_store_ok: "store_ok ex_store"
  by code_simp

theorem equip_weapon_conserves_witness:
  "store_ok (fst (EquipWeaponFromSlot (PlayerSlot 1) True 0 (- 1) ex_store)) \<and>
   store_total 6 (fst (EquipWeaponFromSlot (PlayerSlot 1) True 0 (- 1) ex_store)) = store_total 6 ex_store"
proof -
  let ?r = "EquipWeaponFromSlot (PlayerSlot 1) True 0 (- 1) ex_store"
  have ok: "fst (snd ?r)" and nd: "\<not> discards True (fst ex_store)" by code_simp+
  then have "?r = (fst ?r, True, fst (snd (snd ?r)), snd (snd (snd ?r)))" by (simp add: prod_eq_iff)
  from equip_weapon_conserves [OF ex_store_ok _ this, of 6] nd show ?thesis by (simp add: INVENTORY_SLOT_COUNT_def)
qed

theorem unequip_weapon_conserves_witness:
  "\<exists>q. \<not> IsEmpty (weapon_of q (fst (fst (UnequipWeaponToSlot (PlayerSlot 1) True 0 (- 1) ex_store))))"
proof -
  let ?r = "UnequipWeaponToSlot (PlayerSlot 1) True 0 (- 1) ex_store"
  have ok: "fst (snd ?r)" by code_simp
  then have "?r = (fst ?r, True, fst (snd (snd ?r)), snd (snd (snd ?r)))" by (simp add: prod_eq_iff)
  from unequip_weapon_conserves [OF ex_store_ok _ this, of 6] show ?thesis by (simp add: INVENTORY_SLOT_COUNT_def)
qed

theorem equip_denied_unchanged_witness:
  "fst (UnequipWeaponToSlot (PlayerSlot 3) True 0 (- 1) ex_store) = ex_store"
proof -
  let ?r = "UnequipWeaponToSlot (PlayerSlot 3) True 0 (- 1) ex_store"
  have ok: "\<not> fst (snd ?r)" by code_simp
  then have "?r = (fst ?r, False, fst (snd (snd ?r)), snd (snd (snd ?r)))" by (simp add: prod_eq_iff)
  moreover have "valid_ref ex_store (PlayerSlot 3)" by (simp add: INVENTORY_SLOT_COUNT_def)
  ultimately show ?thesis using equip_denied_unchanged [OF ex_store_ok] by blast
qed

theorem armor_exchange_conserves_witness:
  "store_total 4 (fst (EquipArmorFromSlot (PlayerSlot 2) 0 ex_store)) = store_total 4 ex_store"
proof -
  let ?r = "EquipArmorFromSlot (PlayerSlot 2) 0 ex_store"
  have ok: "fst (snd ?r)" by code_simp
  then have "?r = (fst ?r, True, snd (snd ?r))" by (simp add: prod_eq_iff)
  then show ?thesis
    using armor_exchange_conserves [OF ex_store_ok, of "PlayerSlot 2" 4 0 "fst ?r" "snd (snd ?r)"]
    by (auto simp: INVENTORY_SLOT_COUNT_def)
qed

theorem reload_fills_magazine_witness:
  "quantity (magazine_of True (fst (ReloadMagazine True (set_magazine True (ex_slot (- 1) 6 3) (fst ex_store))))) = 13"
proof -
  let ?iv = "set_magazine True (ex_slot (- 1) 6 3) (fst ex_store)"
  have a: "inv_ok ?iv" and b: "\<not> IsEmpty (weapon_of True ?iv)" by code_simp+
  have c: "GetWeaponSpec (bp (weapon_of True ?iv)) = Some (the (GetWeaponSpec 1))" by code_simp
  have d: "min (maxAmmo (the (GetWeaponSpec 1)))
    (quantity (magazine_of True ?iv) + qty_list (to_u32 (ammoType (the (GetWeaponSpec 1)))) (inventorySlots ?iv)) = 13"
    by code_simp
  show ?thesis
    using reload_fills_magazine [OF a b c, of "fst (ReloadMagazine True ?iv)" "snd (ReloadMagazine True ?iv)"] d
    by (simp add: prod_eq_iff)
qed

theorem constructor_conserves_witness:
  "inv_ok (fst ex_store) \<and> carried 6 (fst ex_store) = 40"
proof -
  have "loadout_ok (fst ex_loadout) (snd ex_loadout)"
    "qty_list 6 (fst ex_loadout) + qty_list 6 (snd ex_loadout) = 40" by code_simp+
  with constructor_conserves [of "fst ex_loadout" "snd ex_loadout" 6] show ?thesis
    by (simp add: ex_store_def)
qed

end
