(* ===== verification/Float32.thy ===== *)
theory Float32
  imports Prelude "HOL-Library.Log_Nat"
begin

text \<open>
  The C++ type \<open>float\<close> (IEEE 754 binary32) as far as the server computes with it:
  positions, squared distances and the two range tests of the game room. A value is a NaN,
  an infinity or a finite rational; every operation rounds its exact result to nearest, ties
  to even, with gradual underflow and overflow to infinity. The sign of zero is not kept: no
  comparison of the source distinguishes it.
\<close>

datatype f32 = NaN | Inf bool | Fin rat

text \<open>\<open>Inf True\<close> is minus infinity.\<close>

definition pow2 :: "int \<Rightarrow> rat" where
  "pow2 e = (if 0 \<le> e then 2 ^ nat e else 1 / 2 ^ nat (- e))"

text \<open>The exponent of the leading bit of a positive rational.\<close>

definition flog2 :: "rat \<Rightarrow> int" where
  "flog2 m = (let (a, b) = quotient_of m; k = bitlen a - bitlen b
              in if pow2 k \<le> m then k else k - 1)"

definition round_even :: "rat \<Rightarrow> int" where
  "round_even q = (let n = \<lfloor>q\<rfloor>; r = q - of_int n
                   in if r > 1 / 2 \<or> (r = 1 / 2 \<and> odd n) then n + 1 else n)"

definition f32_round :: "rat \<Rightarrow> f32" where
  "f32_round x =
     (if x = 0 then Fin 0
      else let e = max (- 149) (flog2 \<bar>x\<bar> - 23);
               v = of_int (round_even (\<bar>x\<bar> / pow2 e)) * pow2 e
           in if pow2 128 \<le> v then Inf (x < 0) else Fin (if x < 0 then - v else v))"

fun f_neg :: "f32 \<Rightarrow> f32" where
  "f_neg NaN = NaN"
| "f_neg (Inf s) = Inf (\<not> s)"
| "f_neg (Fin a) = Fin (- a)"

fun f_add :: "f32 \<Rightarrow> f32 \<Rightarrow> f32" where
  "f_add NaN _ = NaN"
| "f_add _ NaN = NaN"
| "f_add (Inf s) (Inf t) = (if s = t then Inf s else NaN)"
| "f_add (Inf s) (Fin _) = Inf s"
| "f_add (Fin _) (Inf t) = Inf t"
| "f_add (Fin a) (Fin b) = f32_round (a + b)"

definition f_sub :: "f32 \<Rightarrow> f32 \<Rightarrow> f32" where
  "f_sub a b = f_add a (f_neg b)"

fun f_mul :: "f32 \<Rightarrow> f32 \<Rightarrow> f32" where
  "f_mul NaN _ = NaN"
| "f_mul _ NaN = NaN"
| "f_mul (Inf s) (Inf t) = Inf (s \<noteq> t)"
| "f_mul (Inf s) (Fin b) = (if b = 0 then NaN else Inf (s \<noteq> (b < 0)))"
| "f_mul (Fin a) (Inf t) = (if a = 0 then NaN else Inf (t \<noteq> (a < 0)))"
| "f_mul (Fin a) (Fin b) = f32_round (a * b)"

text \<open>The comparisons \<open>a <= b\<close> and \<open>a > b\<close>: false when an operand is a NaN.\<close>

fun f_le :: "f32 \<Rightarrow> f32 \<Rightarrow> bool" where
  "f_le NaN _ = False"
| "f_le _ NaN = False"
| "f_le (Inf s) (Inf t) = (s \<or> \<not> t)"
| "f_le (Inf s) (Fin _) = s"
| "f_le (Fin _) (Inf t) = (\<not> t)"
| "f_le (Fin a) (Fin b) = (a \<le> b)"

definition f_gt :: "f32 \<Rightarrow> f32 \<Rightarrow> bool" where
  "f_gt a b \<longleftrightarrow> a \<noteq> NaN \<and> b \<noteq> NaN \<and> \<not> f_le a b"

text \<open>A decimal literal \<open>1.5f\<close> of the source.\<close>

definition flit :: "rat \<Rightarrow> f32" where
  "flit r = f32_round r"

text \<open>
  The operations the quaternion compression uses: absolute value, division, square root
  (correctly rounded), \<open>std::round\<close> (halves away from zero), \<open>std::max\<close>, \<open>std::clamp\<close>
  and the cast to \<open>uint32_t\<close>, which is undefined outside the range of the type.
\<close>

fun f_abs :: "f32 \<Rightarrow> f32" where
  "f_abs NaN = NaN"
| "f_abs (Inf s) = Inf False"
| "f_abs (Fin a) = Fin \<bar>a\<bar>"

fun f_div :: "f32 \<Rightarrow> f32 \<Rightarrow> f32" where
  "f_div NaN _ = NaN"
| "f_div _ NaN = NaN"
| "f_div (Inf s) (Inf t) = NaN"
| "f_div (Inf s) (Fin b) = Inf (s \<noteq> (b < 0))"
| "f_div (Fin a) (Inf t) = Fin 0"
| "f_div (Fin a) (Fin b) = (if b = 0 then (if a = 0 then NaN else Inf (a < 0)) else f32_round (a / b))"

fun isqrt :: "nat \<Rightarrow> nat" where
  "isqrt n = (if n = 0 then 0
              else let r = 2 * isqrt (n div 4) in if (r + 1) * (r + 1) \<le> n then r + 1 else r)"

declare isqrt.simps [simp del]

lemma isqrt_spec: "isqrt n * isqrt n \<le> n \<and> n < (isqrt n + 1) * (isqrt n + 1)"
proof (induction n rule: isqrt.induct)
  case (1 n)
  show ?case
  proof (cases "n = 0")
    case True
    then show ?thesis by (simp add: isqrt.simps [of 0])
  next
    case False
    define r where "r = isqrt (n div 4)"
    have IH: "r * r \<le> n div 4" "n div 4 < (r + 1) * (r + 1)" using "1" [OF False] by (auto simp: r_def)
    have "4 * (r * r) \<le> n" using IH(1) by simp
    moreover have "n < 4 * ((r + 1) * (r + 1))" using IH(2) by (simp add: less_mult_imp_div_less div_less_iff_less_mult)
    moreover have "isqrt n = (if (2 * r + 1) * (2 * r + 1) \<le> n then 2 * r + 1 else 2 * r)"
      using False by (subst isqrt.simps) (simp add: Let_def r_def)
    ultimately show ?thesis by (simp add: algebra_simps)
  qed
qed

fun f_sqrt :: "f32 \<Rightarrow> f32" where
  "f_sqrt NaN = NaN"
| "f_sqrt (Inf s) = (if s then NaN else Inf False)"
| "f_sqrt (Fin a) =
     (if a < 0 then NaN else if a = 0 then Fin 0
      else let k = flog2 a div 2 - 23; r = a / pow2 (2 * k); n = of_nat (isqrt (nat \<lfloor>r\<rfloor>))
           in Fin (of_int (if (of_int n + 1 / 2) * (of_int n + 1 / 2) < r then n + 1 else n) * pow2 k))"

fun f_round_away :: "f32 \<Rightarrow> f32" where
  "f_round_away (Fin a) = Fin (if 0 \<le> a then of_int \<lfloor>a + 1 / 2\<rfloor> else - of_int \<lfloor>- a + 1 / 2\<rfloor>)"
| "f_round_away x = x"

definition f_lt :: "f32 \<Rightarrow> f32 \<Rightarrow> bool" where
  "f_lt a b = f_gt b a"

definition f_max :: "f32 \<Rightarrow> f32 \<Rightarrow> f32" where
  "f_max a b = (if f_lt a b then b else a)"

definition f_clamp :: "f32 \<Rightarrow> f32 \<Rightarrow> f32 \<Rightarrow> f32" where
  "f_clamp v lo hi = (if f_lt v lo then lo else if f_lt hi v then hi else v)"

fun f_to_u32 :: "f32 \<Rightarrow> u32 option" where
  "f_to_u32 (Fin a) = (if - 1 < a \<and> a < 4294967296
     then Some (word_of_int (if 0 \<le> a then \<lfloor>a\<rfloor> else 0)) else None)"
| "f_to_u32 x = None"

definition f_of_u32 :: "u32 \<Rightarrow> f32" where
  "f_of_u32 w = f32_round (of_int (uint w))"

lemma f_add_NaN [simp]: "f_add a NaN = NaN"
  by (cases a) auto

lemma f_mul_NaN [simp]: "f_mul a NaN = NaN"
  by (cases a) auto

lemma f_sub_NaN [simp]: "f_sub NaN a = NaN" "f_sub a NaN = NaN"
  by (auto simp: f_sub_def)

lemma f_le_NaN [simp]: "f_le a NaN = False"
  by (cases a) auto

lemma f_gt_NaN [simp]: "f_gt NaN a = False" "f_gt a NaN = False"
  by (auto simp: f_gt_def)

lemma f_le_total: "a \<noteq> NaN \<Longrightarrow> b \<noteq> NaN \<Longrightarrow> f_le a b \<or> f_le b a"
  by (cases a; cases b) auto

lemma f_gt_lt: "f_gt a b \<Longrightarrow> f_le b a"
  using f_le_total [of a b] by (auto simp: f_gt_def)

end
