(* ===== verification/Packets.thy ===== *)
theory Packets
  imports Inventory Float32
begin

text \<open>
  The wire level of the dedicated server: the messages of
  \<open>Protocol/ExternalProtocol\<close> as datatypes, the packed 35-byte \<open>UDPHeader\<close> of
  \<open>src/DedicateProcess/ClientPacketHandler.h\<close> with its byte layout, and the packet ids and
  delivery class of the \<open>MakeD2C...\<close> functions. Protocol-buffer encoding and XXH64 are
  not part of the repository: they are the fields \<open>e_enc\<close>, \<open>e_parse\<close> and
  \<open>e_xxh64\<close> of the environment \<open>env\<close>, together with the clock. Result: reading back
  the header bytes gives the header.
\<close>

section \<open>Payload types\<close>

record Vector3 =
  vx :: f32
  vy :: f32
  vz :: f32

definition Vector3_zero :: Vector3 where
  "Vector3_zero = \<lparr>vx = Fin 0, vy = Fin 0, vz = Fin 0\<rparr>"

datatype Rotation = RotNone | RotQuat u32 | RotYaw f32

record TransformInfo =
  ti_position :: "Vector3 option"
  ti_rotation :: Rotation

definition TransformInfo_default :: TransformInfo where
  "TransformInfo_default = \<lparr>ti_position = None, ti_rotation = RotNone\<rparr>"

record PbUnityGameObject =
  ugo_object_id :: u32
  ugo_object_type :: i32
  ugo_transform :: TransformInfo

record GameObjectMovementInfo =
  mi_object_id :: u32
  mi_transform :: "TransformInfo option"
  mi_state :: u32

record PlayerState =
  st_movement_info :: "GameObjectMovementInfo option"
  st_pitch :: f32
  st_velocity :: "Vector3 option"
  st_action_state :: u32

datatype HealthChangeReason = REASON_UNKNOWN | REASON_WEAPON_HIT | REASON_ITEM_HEAL | REASON_NPC_ATTACK

datatype RecallResultReason =
  RECALL_RESULT_UNKNOWN | RECALL_RESULT_SUCCESS | RECALL_RESULT_OUT_OF_ZONE
  | RECALL_RESULT_PLAYER_DEAD | RECALL_RESULT_SESSION_LOST | RECALL_RESULT_SERVER_INTERNAL

datatype DespawnReason = DESPAWN_UNKNOWN | DESPAWN_RECALLED | DESPAWN_DEAD | DESPAWN_DISCONNECTED

text \<open>The request and the response of a slot-to-slot interaction have the same fields.\<close>

record InteractInfo =
  ii_interact_type :: u32
  ii_start_object_id :: u32
  ii_start_version :: u32
  ii_start_slot_idx :: u32
  ii_quantity :: i32
  ii_end_object_id :: u32
  ii_end_version :: u32
  ii_end_slot_idx :: u32

record EquipInfo =
  ei_action_type :: u32
  ei_equipment_slot_type :: u32
  ei_object_id :: u32
  ei_object_version :: u32
  ei_object_slot_idx :: u32
  ei_my_version :: u32

section \<open>Messages\<close>

datatype C2DMsg =
  C_ChannelOpen string
| C_HeartBeat
| C_RequestBlueprint
| C_RequestSpawnMe
| C_RequestSpawnByObjectId i32
| C_UpdatePlayerState PlayerState "GameObjectMovementInfo list"
| C_RequestSpawnPlayerObjects
| C_NotifyLoadingComplete
| C_RequestOpenContainer u32
| C_CloseContainer
| C_RequestInteractContainerObject InteractInfo
| C_RequestEquipItem EquipInfo
| C_RequestRecentInventoryInfo u32
| C_RequestSwitchWeapon u32 u32
| C_RequestWeaponFire u32 u32 "Vector3 option" u32
| C_RequestRecall u32
| C_RequestReload u32
| C_NotifyReloadSequence u32
| C_RequestNpcAggro u32 i32
| C_RequestNpcAuthority u32 i32
| C_ReportNpcAttack u32 u32 "Vector3 option"

datatype D2CMsg =
  D_ResponseChannelOpen string
| D_HeartBeat
| D_BlueprintStaticObjects u32 bool "PbUnityGameObject list"
| D_SpawnMeSpawnSpot Vector3 i32 u32 u32
| D_SpawnMeDynamicObjects u32 bool "PbUnityGameObject list"
| D_SpawnByObjectId PbUnityGameObject
| D_NotifySpawnObject PbUnityGameObject
| D_SpawnPlayerObject i32 PbUnityGameObject i32
| D_SpawnPlayerObjects "(i32 \<times> PbUnityGameObject \<times> i32) list"
| D_UpdatePlayerStates "PlayerState list"
| D_FullInventorySync D2CFullInventorySync
| D_OpenContainer u32 u32 u32 "PbInventorySlot list"
| D_InteractContainerObject InteractInfo
| D_EquipItem EquipInfo "PbInventorySlot option"
| D_InteractDeny u32
| D_EquipDeny u32
| D_RecentContainerInfo u32 u32 u32 "PbInventorySlot list"
| D_WeaponChanged u32 u32 u32 u32
| D_BroadcastWeaponFire u32 "Vector3 option"
| D_HealthChange i32 i32 HealthChangeReason u32
| D_ResponseRecall bool u32
| D_RecallResult bool u32 RecallResultReason
| D_DespawnPlayerObject u32 DespawnReason
| D_NotifyDespawnObject u32
| D_PlayerKilled u32 u32 string string
| D_ObjectKilled u32 u32 string
| D_ResponseReload bool u32 u32 D2CFullInventorySync
| D_ReloadSequence u32 u32
| D_NpcAuthority u32 u32 i32
| D_BroadcastNpcAttack u32 "Vector3 option"
| D_UpdateNpcStates "GameObjectMovementInfo list"

definition PKT_ID_MAX :: u16 where "PKT_ID_MAX = 52"

text \<open>The packet id of each message a client sends (the table filled by \<open>Init\<close>).\<close>

fun c2d_pkt_id :: "C2DMsg \<Rightarrow> u16" where
  "c2d_pkt_id (C_ChannelOpen _) = 0"
| "c2d_pkt_id C_HeartBeat = 2"
| "c2d_pkt_id C_RequestBlueprint = 4"
| "c2d_pkt_id C_RequestSpawnMe = 6"
| "c2d_pkt_id (C_RequestSpawnByObjectId _) = 9"
| "c2d_pkt_id (C_UpdatePlayerState _ _) = 11"
| "c2d_pkt_id C_RequestSpawnPlayerObjects = 12"
| "c2d_pkt_id C_NotifyLoadingComplete = 16"
| "c2d_pkt_id (C_RequestOpenContainer _) = 18"
| "c2d_pkt_id C_CloseContainer = 20"
| "c2d_pkt_id (C_RequestInteractContainerObject _) = 21"
| "c2d_pkt_id (C_RequestEquipItem _) = 23"
| "c2d_pkt_id (C_RequestRecentInventoryInfo _) = 27"
| "c2d_pkt_id (C_RequestWeaponFire _ _ _ _) = 29"
| "c2d_pkt_id (C_RequestRecall _) = 32"
| "c2d_pkt_id (C_RequestSwitchWeapon _ _) = 38"
| "c2d_pkt_id (C_RequestReload _) = 42"
| "c2d_pkt_id (C_NotifyReloadSequence _) = 44"
| "c2d_pkt_id (C_RequestNpcAggro _ _) = 46"
| "c2d_pkt_id (C_RequestNpcAuthority _ _) = 47"
| "c2d_pkt_id (C_ReportNpcAttack _ _ _) = 48"

text \<open>The packet id and the delivery class each \<open>MakeD2C...\<close> function passes on.\<close>

fun d2c_class :: "D2CMsg \<Rightarrow> u16 \<times> bool" where
  "d2c_class (D_ResponseChannelOpen _) = (1, True)"
| "d2c_class D_HeartBeat = (3, False)"
| "d2c_class (D_BlueprintStaticObjects _ _ _) = (5, True)"
| "d2c_class (D_SpawnMeSpawnSpot _ _ _ _) = (7, True)"
| "d2c_class (D_SpawnMeDynamicObjects _ _ _) = (8, True)"
| "d2c_class (D_SpawnByObjectId _) = (10, True)"
| "d2c_class (D_SpawnPlayerObject _ _ _) = (13, True)"
| "d2c_class (D_SpawnPlayerObjects _) = (14, True)"
| "d2c_class (D_UpdatePlayerStates _) = (15, False)"
| "d2c_class (D_FullInventorySync _) = (17, True)"
| "d2c_class (D_OpenContainer _ _ _ _) = (19, True)"
| "d2c_class (D_InteractContainerObject _) = (22, True)"
| "d2c_class (D_EquipItem _ _) = (24, True)"
| "d2c_class (D_InteractDeny _) = (25, True)"
| "d2c_class (D_EquipDeny _) = (26, True)"
| "d2c_class (D_RecentContainerInfo _ _ _ _) = (28, True)"
| "d2c_class (D_BroadcastWeaponFire _ _) = (30, False)"
| "d2c_class (D_HealthChange _ _ _ _) = (31, True)"
| "d2c_class (D_ResponseRecall _ _) = (33, True)"
| "d2c_class (D_RecallResult _ _ _) = (34, True)"
| "d2c_class (D_DespawnPlayerObject _ _) = (35, True)"
| "d2c_class (D_NotifySpawnObject _) = (36, True)"
| "d2c_class (D_WeaponChanged _ _ _ _) = (37, True)"
| "d2c_class (D_NotifyDespawnObject _) = (39, True)"
| "d2c_class (D_PlayerKilled _ _ _ _) = (40, True)"
| "d2c_class (D_ObjectKilled _ _ _) = (41, True)"
| "d2c_class (D_ResponseReload _ _ _ _) = (43, True)"
| "d2c_class (D_ReloadSequence _ _) = (45, False)"
| "d2c_class (D_NpcAuthority _ _ _) = (49, True)"
| "d2c_class (D_BroadcastNpcAttack _ _) = (50, False)"
| "d2c_class (D_UpdateNpcStates _) = (51, False)"

section \<open>The UDP header\<close>

record UDPHeader =
  h_signature :: u64
  h_packetId :: u16
  h_sessionId :: u16
  h_rSeqNum :: u32
  h_uSeqNum :: u16
  h_flags :: u8
  h_ackRSeqNum :: u32
  h_ackBitfield :: u32
  h_timestamp :: u32
  h_timestampEcho :: u32

definition FLAG_HAS_ACK :: u8 where "FLAG_HAS_ACK = 0x01"
definition FLAG_RELIABLE :: u8 where "FLAG_RELIABLE = 0x02"

definition HEADER_SIZE :: nat where "HEADER_SIZE = 35"

definition SEND_BUFFER_CHUNK_SIZE :: u32 where "SEND_BUFFER_CHUNK_SIZE = 65536"

text \<open>The packed struct on a little-endian machine.\<close>

definition le_bytes :: "nat \<Rightarrow> 'a::len word \<Rightarrow> u8 list" where
  "le_bytes n w = map (\<lambda>i. ucast (drop_bit (8 * i) w)) [0..<n]"

definition of_le :: "u8 list \<Rightarrow> 'a::len word" where
  "of_le bs = foldr (\<lambda>b acc. ucast b OR push_bit 8 acc) bs 0"

definition header_bytes :: "UDPHeader \<Rightarrow> u8 list" where
  "header_bytes h = le_bytes 8 (h_signature h) @ le_bytes 2 (h_packetId h) @ le_bytes 2 (h_sessionId h) @
     le_bytes 4 (h_rSeqNum h) @ le_bytes 2 (h_uSeqNum h) @ le_bytes 1 (h_flags h) @
     le_bytes 4 (h_ackRSeqNum h) @ le_bytes 4 (h_ackBitfield h) @
     le_bytes 4 (h_timestamp h) @ le_bytes 4 (h_timestampEcho h)"

definition field :: "nat \<Rightarrow> nat \<Rightarrow> u8 list \<Rightarrow> 'a::len word" where
  "field off n bs = of_le (take n (drop off bs))"

definition parse_header :: "u8 list \<Rightarrow> UDPHeader" where
  "parse_header bs = \<lparr>h_signature = field 0 8 bs, h_packetId = field 8 2 bs, h_sessionId = field 10 2 bs,
     h_rSeqNum = field 12 4 bs, h_uSeqNum = field 16 2 bs, h_flags = field 18 1 bs,
     h_ackRSeqNum = field 19 4 bs, h_ackBitfield = field 23 4 bs,
     h_timestamp = field 27 4 bs, h_timestampEcho = field 31 4 bs\<rparr>"

section \<open>Environment\<close>

text \<open>
  What a run of the dedicated process takes from outside: the \<open>n\<close>-th reading of the
  steady clock in nanoseconds, the protocol-buffer encoder and parsers, XXH64 with seed 0
  over the concatenation of the updates, and the libc address parser.
\<close>

record env =
  e_clock :: "nat \<Rightarrow> int"
  e_enc :: "D2CMsg \<Rightarrow> u8 list"
  e_obj_size :: "PbUnityGameObject \<Rightarrow> nat"
  e_parse :: "u16 \<Rightarrow> u8 list \<Rightarrow> C2DMsg option"
  e_xxh64 :: "u8 list \<Rightarrow> u64"
  e_inet_pton :: "string \<Rightarrow> u32 option"

text \<open>\<open>duration_cast<milliseconds>(t.time_since_epoch()).count()\<close> cast to \<open>uint32_t\<close>.\<close>

definition ms_of :: "int \<Rightarrow> u32" where
  "ms_of t = word_of_int (t sdiv 1000000)"

text \<open>A send buffer: its header and the message its payload encodes.\<close>

record SendBuffer =
  sb_header :: UDPHeader
  sb_msg :: D2CMsg

definition sb_bytes :: "env \<Rightarrow> SendBuffer \<Rightarrow> u8 list" where
  "sb_bytes e b = header_bytes (sb_header b) @ e_enc e (sb_msg b)"

definition packet_signature :: "env \<Rightarrow> u8 list \<Rightarrow> u32 \<Rightarrow> u64" where
  "packet_signature e bytes key = e_xxh64 e (bytes @ le_bytes 4 key)"

section \<open>Header layout\<close>

lemma length_le_bytes [simp]: "length (le_bytes n w) = n"
  by (simp add: le_bytes_def)

lemma of_le_bit:
  "bit (of_le bs :: 'a::len word) k \<longleftrightarrow> k < LENGTH('a) \<and> k div 8 < length bs \<and> bit (bs ! (k div 8)) (k mod 8)"
proof (induction bs arbitrary: k)
  case Nil
  then show ?case by (simp add: of_le_def)
next
  case (Cons b bs)
  have eq: "of_le (b # bs) = (ucast b OR push_bit 8 (of_le bs) :: 'a word)"
    by (simp add: of_le_def)
  show ?case
  proof (cases "k < 8")
    case True
    then show ?thesis by (auto simp: eq bit_or_iff bit_push_bit_iff bit_ucast_iff)
  next
    case False
    then have "k div 8 = Suc ((k - 8) div 8)" "k mod 8 = (k - 8) mod 8" "8 \<le> k"
      by (auto simp: div_if [of k 8] le_mod_geq)
    moreover have "\<not> bit b k" using False bit_imp_le_length [of b k] by auto
    ultimately show ?thesis
      using Cons.IH [of "k - 8"] by (auto simp: eq bit_or_iff bit_push_bit_iff bit_ucast_iff)
  qed
qed

lemma of_le_le_bytes:
  assumes "LENGTH('a::len) = 8 * n"
  shows "of_le (le_bytes n (w :: 'a word)) = w"
proof (rule bit_eqI)
  fix k
  have "bit (ucast (drop_bit (8 * (k div 8)) w) :: u8) (k mod 8) \<longleftrightarrow> bit w k"
    by (simp add: bit_ucast_iff bit_drop_bit_eq)
  moreover have "k < LENGTH('a) \<Longrightarrow> k div 8 < n" using assms by auto
  ultimately show "bit (of_le (le_bytes n w) :: 'a word) k \<longleftrightarrow> bit w k"
    using bit_imp_le_length [of w k] by (auto simp: of_le_bit le_bytes_def)
qed

lemma header_bytes_length: "length (header_bytes h) = HEADER_SIZE"
  by (simp add: header_bytes_def HEADER_SIZE_def)

lemma field_at:
  assumes "bs = xs @ le_bytes n (w :: 'a::len word) @ ys" "length xs = off" "LENGTH('a) = 8 * n"
  shows "field off n bs = w"
  using assms by (simp add: field_def of_le_le_bytes)

lemma parse_header_bytes: "parse_header (header_bytes h @ rest) = h"
proof -
  let ?b = "header_bytes h @ rest"
  have "field 0 8 ?b = h_signature h"
    by (rule field_at [where xs = "[]"]) (simp_all add: header_bytes_def)
  moreover have "field 8 2 ?b = h_packetId h"
    by (rule field_at [where xs = "le_bytes 8 (h_signature h)"]) (simp_all add: header_bytes_def)
  moreover have "field 10 2 ?b = h_sessionId h"
    by (rule field_at [where xs = "take 10 (header_bytes h)"]) (simp_all add: header_bytes_def)
  moreover have "field 12 4 ?b = h_rSeqNum h"
    by (rule field_at [where xs = "take 12 (header_bytes h)"]) (simp_all add: header_bytes_def)
  moreover have "field 16 2 ?b = h_uSeqNum h"
    by (rule field_at [where xs = "take 16 (header_bytes h)"]) (simp_all add: header_bytes_def)
  moreover have "field 18 1 ?b = h_flags h"
    by (rule field_at [where xs = "take 18 (header_bytes h)"]) (simp_all add: header_bytes_def)
  moreover have "field 19 4 ?b = h_ackRSeqNum h"
    by (rule field_at [where xs = "take 19 (header_bytes h)"]) (simp_all add: header_bytes_def)
  moreover have "field 23 4 ?b = h_ackBitfield h"
    by (rule field_at [where xs = "take 23 (header_bytes h)"]) (simp_all add: header_bytes_def)
  moreover have "field 27 4 ?b = h_timestamp h"
    by (rule field_at [where xs = "take 27 (header_bytes h)"]) (simp_all add: header_bytes_def)
  moreover have "field 31 4 ?b = h_timestampEcho h"
    by (rule field_at [where xs = "take 31 (header_bytes h)"]) (simp_all add: header_bytes_def)
  ultimately show ?thesis by (simp add: parse_header_def)
qed

end
