(* ===== verification/Session.thy ===== *)
theory Session
  imports Packets
begin

text \<open>
  \<open>src/DedicateProcess/PlayerSession.h\<close>, \<open>PlayerSession.cpp\<close> and \<open>Player.h\<close>: one
  player's session. It keeps the player and the inventory, the reliable-UDP state in both
  directions (receive windows, sequence counters, pending packets, round-trip time) and the
  state machine of leaving a room and of recalling. Results: the receive window reports only
  what it accepted and never accepts a packet twice unless the sequence jumps by exactly 32;
  an acknowledgement removes exactly the packets it names; the retransmission timeout stays in
  its range; leaving only moves forward, its reason is final, and the main process is notified
  at most once.
\<close>

section \<open>State\<close>

record Player =
  p_uid :: i32
  p_userId :: string
  p_rating :: i32
  p_characterType :: i32
  p_objectId :: i32
  p_interactingContainerId :: i32
  p_fireSequence :: u32
  p_inventory :: PlayerInventory

definition MakePlayer :: "i32 \<Rightarrow> string \<Rightarrow> i32 \<Rightarrow> Slot list \<Rightarrow> Slot list \<Rightarrow> i32 \<Rightarrow> Player" where
  "MakePlayer uid userId rating ivs eqs characterType =
     \<lparr>p_uid = uid, p_userId = userId, p_rating = rating, p_characterType = characterType,
      p_objectId = - 1, p_interactingContainerId = - 1, p_fireSequence = 0,
      p_inventory = MakePlayerInventory ivs eqs\<rparr>"

record sockaddr_in =
  sin_family :: u16
  sin_port :: u16
  sin_addr :: u32

datatype pool_class = Pool256 | Pool512 | Pool1024 | Unlimited

record PendingPacket =
  pp_class :: pool_class
  pp_seqNum :: u32
  pp_allocSize :: u32
  pp_data :: SendBuffer
  pp_destAddr :: sockaddr_in
  pp_sentAtMs :: u32

datatype SessionState = SS_INIT | SS_CONNECTED | SS_INPLAY | SS_SPECTATING | SS_LEFT

datatype LeaveReason = LR_NONE | LR_RECALLED | LR_DEAD | LR_DISCONNECTED

datatype LeaveState = LS_NONE | LS_PENDING | LS_DETACHED | LS_FINALIZED

record PlayerSession =
  ps_player :: Player
  ps_ticket :: string
  ps_entryToken :: string
  ps_sessionId :: i32
  ps_securityKey :: u32
  ps_room :: i32
  ps_sessionState :: SessionState
  ps_clientAddr :: sockaddr_in
  ps_sendRSeq :: u32
  ps_sendUSeq :: u16
  ps_rRecvHighestSeq :: u32
  ps_rRecvBitfield :: u32
  ps_hasRRecv :: bool
  ps_uRecvHighestSeq :: u16
  ps_hasURecv :: bool
  ps_rttMs :: u32
  ps_lastEchoTs :: u32
  ps_lastRecvTimestamp :: u32
  ps_leaveState :: LeaveState
  ps_leaveReason :: LeaveReason
  ps_leaveMarkedAt :: int
  ps_leaveNotifyRSeq :: u32
  ps_leftNotified :: bool
  ps_isRecalling :: bool
  ps_recallGeneration :: u32
  ps_recallPassCount :: u32
  ps_recallSpotIndex :: u32
  ps_pendingReliable :: "(u32, PendingPacket) hmap"

text \<open>The random security key drawn by the constructor is an argument.\<close>

definition MakePlayerSession ::
  "string \<Rightarrow> string \<Rightarrow> i32 \<Rightarrow> i32 \<Rightarrow> i32 \<Rightarrow> string \<Rightarrow> i32 \<Rightarrow> Slot list \<Rightarrow> Slot list \<Rightarrow> i32 \<Rightarrow> u32 \<Rightarrow> PlayerSession" where
  "MakePlayerSession ticket tok sessionId room uid userId rating ivs eqs characterType key =
     \<lparr>ps_player = MakePlayer uid userId rating ivs eqs characterType, ps_ticket = ticket,
      ps_entryToken = tok, ps_sessionId = sessionId, ps_securityKey = key, ps_room = room,
      ps_sessionState = SS_INIT, ps_clientAddr = \<lparr>sin_family = 0, sin_port = 0, sin_addr = 0\<rparr>,
      ps_sendRSeq = 0, ps_sendUSeq = 0, ps_rRecvHighestSeq = 0, ps_rRecvBitfield = 0,
      ps_hasRRecv = False, ps_uRecvHighestSeq = 0, ps_hasURecv = False, ps_rttMs = 100,
      ps_lastEchoTs = 0, ps_lastRecvTimestamp = 0, ps_leaveState = LS_NONE,
      ps_leaveReason = LR_NONE, ps_leaveMarkedAt = 0, ps_leaveNotifyRSeq = 0,
      ps_leftNotified = False, ps_isRecalling = False, ps_recallGeneration = 0,
      ps_recallPassCount = 0, ps_recallSpotIndex = 0, ps_pendingReliable = []\<rparr>"

abbreviation ps_objectId :: "PlayerSession \<Rightarrow> i32" where
  "ps_objectId s \<equiv> p_objectId (ps_player s)"

abbreviation ps_inventory :: "PlayerSession \<Rightarrow> PlayerInventory" where
  "ps_inventory s \<equiv> p_inventory (ps_player s)"

abbreviation ps_uid :: "PlayerSession \<Rightarrow> i32" where
  "ps_uid s \<equiv> p_uid (ps_player s)"

definition SetObjectId :: "i32 \<Rightarrow> PlayerSession \<Rightarrow> PlayerSession" where
  "SetObjectId i s = s\<lparr>ps_player := (ps_player s)\<lparr>p_objectId := i\<rparr>\<rparr>"

definition SetInteractingContainerId :: "i32 \<Rightarrow> PlayerSession \<Rightarrow> PlayerSession" where
  "SetInteractingContainerId i s = s\<lparr>ps_player := (ps_player s)\<lparr>p_interactingContainerId := i\<rparr>\<rparr>"

definition SetNextFireSequence :: "u32 \<Rightarrow> PlayerSession \<Rightarrow> PlayerSession" where
  "SetNextFireSequence q s = s\<lparr>ps_player := (ps_player s)\<lparr>p_fireSequence := q\<rparr>\<rparr>"

definition set_inventory :: "PlayerInventory \<Rightarrow> PlayerSession \<Rightarrow> PlayerSession" where
  "set_inventory iv s = s\<lparr>ps_player := (ps_player s)\<lparr>p_inventory := iv\<rparr>\<rparr>"

definition IsActiveState :: "PlayerSession \<Rightarrow> bool" where
  "IsActiveState s \<longleftrightarrow> ps_sessionState s = SS_CONNECTED \<or> ps_sessionState s = SS_INPLAY"

definition IsInplay :: "PlayerSession \<Rightarrow> bool" where
  "IsInplay s \<longleftrightarrow> ps_sessionState s = SS_INPLAY"

definition IsSpectating :: "PlayerSession \<Rightarrow> bool" where
  "IsSpectating s \<longleftrightarrow> ps_sessionState s = SS_SPECTATING"

definition CanReceiveBroadcast :: "PlayerSession \<Rightarrow> bool" where
  "CanReceiveBroadcast s \<longleftrightarrow> ps_sessionState s = SS_INPLAY \<or> ps_sessionState s = SS_SPECTATING"

definition IsLeaving :: "PlayerSession \<Rightarrow> bool" where
  "IsLeaving s \<longleftrightarrow> ps_leaveState s \<noteq> LS_NONE"

section \<open>Transport\<close>

definition NextSendRSeq :: "PlayerSession \<Rightarrow> u32 \<times> PlayerSession" where
  "NextSendRSeq s = (ps_sendRSeq s + 1, s\<lparr>ps_sendRSeq := ps_sendRSeq s + 1\<rparr>)"

definition NextSendUSeq :: "PlayerSession \<Rightarrow> u16 \<times> PlayerSession" where
  "NextSendUSeq s = (ps_sendUSeq s + 1, s\<lparr>ps_sendUSeq := ps_sendUSeq s + 1\<rparr>)"

definition GetAckState :: "PlayerSession \<Rightarrow> u32 \<times> u32" where
  "GetAckState s = (ps_rRecvHighestSeq s, ps_rRecvBitfield s)"

definition UpdateRRecvState :: "u32 \<Rightarrow> PlayerSession \<Rightarrow> PlayerSession \<times> bool" where
  "UpdateRRecvState r s =
     (if \<not> ps_hasRRecv s then
        (s\<lparr>ps_rRecvHighestSeq := r, ps_rRecvBitfield := 0, ps_hasRRecv := True\<rparr>, True)
      else if ps_rRecvHighestSeq s < r then
        let diff = r - ps_rRecvHighestSeq s;
            bf = (if 32 \<le> diff then 0
                  else push_bit (unat diff) (ps_rRecvBitfield s) OR push_bit (unat (diff - 1)) 1)
        in (s\<lparr>ps_rRecvBitfield := bf, ps_rRecvHighestSeq := r\<rparr>, True)
      else if r = ps_rRecvHighestSeq s then (s, False)
      else
        let diff = ps_rRecvHighestSeq s - r in
        if 32 < diff then (s, False)
        else
          let b = push_bit (unat (diff - 1)) 1 in
          if ps_rRecvBitfield s AND b \<noteq> 0 then (s, False)
          else (s\<lparr>ps_rRecvBitfield := ps_rRecvBitfield s OR b\<rparr>, True))"

definition UpdateURecvState :: "u16 \<Rightarrow> PlayerSession \<Rightarrow> PlayerSession \<times> bool" where
  "UpdateURecvState u s =
     (if \<not> ps_hasURecv s then (s\<lparr>ps_uRecvHighestSeq := u, ps_hasURecv := True\<rparr>, True)
      else if sint (u - ps_uRecvHighestSeq s) \<le> 0 then (s, False)
      else (s\<lparr>ps_uRecvHighestSeq := u\<rparr>, True))"

text \<open>The loop over the acknowledgement bits, with both of its early exits.\<close>

fun ack_loop :: "nat \<Rightarrow> nat \<Rightarrow> u32 \<Rightarrow> u32 \<Rightarrow> (u32, PendingPacket) hmap \<Rightarrow> (u32, PendingPacket) hmap" where
  "ack_loop 0 i ack bf m = m"
| "ack_loop (Suc n) i ack bf m =
     (if bf = 0 then m
      else if bf AND 1 \<noteq> 0 then
        let m' = hm_erase (ack - of_nat (Suc i)) m in
        if m' = [] then m' else ack_loop n (Suc i) ack (drop_bit 1 bf) m'
      else ack_loop n (Suc i) ack (drop_bit 1 bf) m)"

definition ProcessIncomingAck :: "u32 \<Rightarrow> u32 \<Rightarrow> PlayerSession \<Rightarrow> PlayerSession" where
  "ProcessIncomingAck ack bf s =
     (let m = hm_erase ack (ps_pendingReliable s) in
      s\<lparr>ps_pendingReliable := (if m = [] \<or> bf = 0 then m else ack_loop 32 0 ack bf m)\<rparr>)"

definition pool_class_of :: "u32 \<Rightarrow> pool_class" where
  "pool_class_of sz = (if sz \<le> 256 then Pool256 else if sz \<le> 512 then Pool512
     else if sz \<le> 1024 then Pool1024 else Unlimited)"

definition RegisterReliable :: "u32 \<Rightarrow> SendBuffer \<Rightarrow> u32 \<Rightarrow> sockaddr_in \<Rightarrow> u32 \<Rightarrow> PlayerSession \<Rightarrow> PlayerSession" where
  "RegisterReliable seqNum buf sz dest nowMs s =
     s\<lparr>ps_pendingReliable := hm_insert seqNum
        \<lparr>pp_class = pool_class_of sz, pp_seqNum = seqNum, pp_allocSize = sz, pp_data = buf,
         pp_destAddr = dest, pp_sentAtMs = nowMs\<rparr> (ps_pendingReliable s)\<rparr>"

definition retransmit_timeout :: "PlayerSession \<Rightarrow> u32" where
  "retransmit_timeout s = min (max (ps_rttMs s * 3 div 2) 50) 1000"

definition GetRetransmitCandidates :: "u32 \<Rightarrow> PlayerSession \<Rightarrow> PendingPacket list" where
  "GetRetransmitCandidates nowMs s =
     map snd (filter (\<lambda>(seqNum, p). retransmit_timeout s \<le> nowMs - pp_sentAtMs p) (ps_pendingReliable s))"

definition ClearPendingReliableExcept :: "u32 \<Rightarrow> PlayerSession \<Rightarrow> PlayerSession" where
  "ClearPendingReliableExcept keepSeq s =
     s\<lparr>ps_pendingReliable := filter (\<lambda>(seqNum, p). seqNum = keepSeq \<and> keepSeq \<noteq> 0) (ps_pendingReliable s)\<rparr>"

definition IsReliablePending :: "u32 \<Rightarrow> PlayerSession \<Rightarrow> bool" where
  "IsReliablePending seqNum s \<longleftrightarrow> hm_find (ps_pendingReliable s) seqNum \<noteq> None"

definition UpdateRtt :: "u32 \<Rightarrow> u32 \<Rightarrow> PlayerSession \<Rightarrow> PlayerSession" where
  "UpdateRtt echoTs nowMs s =
     (if echoTs = 0 then s
      else if ps_lastEchoTs s \<noteq> 0 \<and> sint (echoTs - ps_lastEchoTs s) \<le> 0 then s
      else
        let rtt = nowMs - echoTs;
            r = (ps_rttMs s * 7 + rtt) div 8
        in s\<lparr>ps_lastEchoTs := echoTs, ps_rttMs := (if r < 20 then 20 else r)\<rparr>)"

definition SetLastRecvTimestamp :: "u32 \<Rightarrow> PlayerSession \<Rightarrow> PlayerSession" where
  "SetLastRecvTimestamp ts s =
     (if ps_lastRecvTimestamp s \<noteq> 0 \<and> sint (ts - ps_lastRecvTimestamp s) \<le> 0 then s
      else s\<lparr>ps_lastRecvTimestamp := ts\<rparr>)"

definition htons :: "u16 \<Rightarrow> u16" where
  "htons w = push_bit 8 w OR drop_bit 8 w"

text \<open>An address that does not parse leaves \<open>sin_addr\<close> as it was; the family is set first.\<close>

definition SetIp :: "env \<Rightarrow> string \<Rightarrow> PlayerSession \<Rightarrow> PlayerSession" where
  "SetIp e ip s =
     (let a = (ps_clientAddr s)\<lparr>sin_family := 2\<rparr> in
      s\<lparr>ps_clientAddr := (case e_inet_pton e ip of None \<Rightarrow> a | Some x \<Rightarrow> a\<lparr>sin_addr := x\<rparr>)\<rparr>)"

definition SetPort :: "u16 \<Rightarrow> PlayerSession \<Rightarrow> PlayerSession" where
  "SetPort port s = s\<lparr>ps_clientAddr := (ps_clientAddr s)\<lparr>sin_port := htons port\<rparr>\<rparr>"

section \<open>Leaving and recalling\<close>

definition RECALL_REQUIRED_PASS_COUNT :: u32 where "RECALL_REQUIRED_PASS_COUNT = 5"
definition RECALL_TICK_INTERVAL_MS :: u32 where "RECALL_TICK_INTERVAL_MS = 1000"
definition DISCONNECT_TIMEOUT_MS :: u32 where "DISCONNECT_TIMEOUT_MS = 6000"
definition LEAVE_FINALIZE_TIMEOUT_MS :: u32 where "LEAVE_FINALIZE_TIMEOUT_MS = 3000"
definition DEATH_GRACE_MS :: u32 where "DEATH_GRACE_MS = 5000"

definition BeginRecall :: "u32 \<Rightarrow> PlayerSession \<Rightarrow> PlayerSession \<times> bool" where
  "BeginRecall spotIndex s =
     (if ps_isRecalling s then (s, False)
      else (s\<lparr>ps_recallGeneration := ps_recallGeneration s + 1, ps_isRecalling := True,
              ps_recallPassCount := 0, ps_recallSpotIndex := spotIndex\<rparr>, True))"

definition AddRecallPass :: "PlayerSession \<Rightarrow> u32 \<times> PlayerSession" where
  "AddRecallPass s = (ps_recallPassCount s + 1, s\<lparr>ps_recallPassCount := ps_recallPassCount s + 1\<rparr>)"

definition EndRecall :: "PlayerSession \<Rightarrow> PlayerSession" where
  "EndRecall s = s\<lparr>ps_isRecalling := False, ps_recallGeneration := ps_recallGeneration s + 1\<rparr>"

text \<open>The clock reading taken by \<open>MarkLeaving\<close> is its last argument but one.\<close>

definition MarkLeaving :: "LeaveReason \<Rightarrow> u32 \<Rightarrow> int \<Rightarrow> PlayerSession \<Rightarrow> PlayerSession" where
  "MarkLeaving reason notifyRSeq now s =
     (if reason = LR_NONE then s
      else if ps_leaveState s = LS_DETACHED \<or> ps_leaveState s = LS_FINALIZED then s
      else if ps_leaveState s = LS_PENDING \<and> (ps_leaveReason s \<noteq> LR_DISCONNECTED \<or> reason = LR_DISCONNECTED) then s
      else s\<lparr>ps_leaveState := LS_PENDING, ps_leaveReason := reason, ps_leaveMarkedAt := now,
             ps_leaveNotifyRSeq := (if notifyRSeq \<noteq> 0 then notifyRSeq else ps_leaveNotifyRSeq s),
             ps_sessionState := (if reason = LR_DEAD then SS_SPECTATING
               else if reason \<noteq> LR_DISCONNECTED then SS_LEFT else ps_sessionState s)\<rparr>)"

text \<open>The messages to the main process and the other effects of a room.\<close>

record IpcItemSlot =
  is_item_id :: u32
  is_slot_index :: i32
  is_quantity :: i32

record D2MNotifyPlayerLeft =
  nl_uid :: i32
  nl_reason :: LeaveReason
  nl_inventory :: "IpcItemSlot list"
  nl_equipment :: "IpcItemSlot list"

datatype Effect =
  EffUdp SendBuffer sockaddr_in
| EffNotifyLeft D2MNotifyPlayerLeft
| EffReserveRoomDestroy i32
| EffTimer u32 i32 i32 u32

fun ipc_slots :: "i32 \<Rightarrow> Slot list \<Rightarrow> IpcItemSlot list" where
  "ipc_slots i [] = []"
| "ipc_slots i (s # ss) =
     (if IsEmpty s then ipc_slots (i + 1) ss
      else \<lparr>is_item_id = bp s, is_slot_index = i, is_quantity = quantity s\<rparr> # ipc_slots (i + 1) ss)"

definition SerializeInventoryForIPC :: "PlayerSession \<Rightarrow> D2MNotifyPlayerLeft \<Rightarrow> D2MNotifyPlayerLeft" where
  "SerializeInventoryForIPC s m =
     (let iv = ps_inventory s in
      m\<lparr>nl_inventory := nl_inventory m @ ipc_slots 0 (inventorySlots iv),
        nl_equipment := nl_equipment m @ ipc_slots 0 [primaryWeaponSlot iv, secondaryWeaponSlot iv, armorSlot iv]\<rparr>)"

text \<open>\<open>DediServerService::NotifyPlayerLeftToMain\<close>: only a recalled player's items are reported.\<close>

definition NotifyPlayerLeftToMain :: "PlayerSession \<Rightarrow> D2MNotifyPlayerLeft" where
  "NotifyPlayerLeftToMain s =
     (let m = \<lparr>nl_uid = ps_uid s, nl_reason = ps_leaveReason s, nl_inventory = [], nl_equipment = []\<rparr> in
      if ps_leaveReason s = LR_RECALLED then SerializeInventoryForIPC s m else m)"

definition NotifyLeftOnce :: "PlayerSession \<Rightarrow> PlayerSession \<times> Effect list" where
  "NotifyLeftOnce s =
     (if ps_leftNotified s then (s, [])
      else let s' = s\<lparr>ps_leftNotified := True\<rparr> in (s', [EffNotifyLeft (NotifyPlayerLeftToMain s')]))"

definition FinalizeLeave :: "PlayerSession \<Rightarrow> PlayerSession \<times> Effect list" where
  "FinalizeLeave s =
     NotifyLeftOnce ((ClearPendingReliableExcept 0 s)\<lparr>ps_leaveState := LS_FINALIZED, ps_sessionState := SS_LEFT\<rparr>)"

section \<open>Acknowledgements\<close>

text \<open>The reference: the sequence numbers an acknowledgement names.\<close>

definition acked :: "u32 \<Rightarrow> u32 \<Rightarrow> u32 set" where
  "acked ack bf = insert ack {ack - of_nat (Suc i) |i. i < 32 \<and> bit bf i}"

lemma hm_erase_conv: "hm_erase k m = filter (\<lambda>(q, p). q \<noteq> k) m"
  by (simp add: hm_erase_def case_prod_beta')

lemma bit0_and: "(w AND 1 \<noteq> 0) = bit (w :: 'a::len word) 0"
  by (simp only: and_one_eq bit_0 even_iff_mod_2_eq_zero not_False_eq_True)

lemma ack_loop_filter:
  "i + n = 32 \<Longrightarrow>
   ack_loop n i ack bf m = filter (\<lambda>(q, p). \<not> (\<exists>j<n. bit bf j \<and> q = ack - of_nat (Suc (i + j)))) m"
proof (induction n arbitrary: i bf m)
  case 0
  then show ?case by simp
next
  case (Suc n)
  have split: "(\<exists>j<Suc n. bit bf j \<and> q = ack - of_nat (Suc (i + j))) \<longleftrightarrow>
      (bit bf 0 \<and> q = ack - of_nat (Suc i)) \<or>
      (\<exists>j<n. bit (drop_bit 1 bf) j \<and> q = ack - of_nat (Suc (Suc i + j)))" for q
    by (auto simp: Ex_less_Suc2 bit_drop_bit_eq)
  have IH: "ack_loop n (Suc i) ack (drop_bit 1 bf) m =
      filter (\<lambda>(q, p). \<not> (\<exists>j<n. bit (drop_bit 1 bf) j \<and> q = ack - of_nat (Suc (Suc i + j)))) m" for m
    using Suc.prems by (intro Suc.IH) simp
  show ?case
    by (auto simp: IH [unfolded One_nat_def] split [unfolded One_nat_def] Let_def hm_erase_conv bit0_and case_prod_beta' filter_empty_conv
        intro!: filter_cong simp del: of_nat_Suc)
qed

lemma ProcessIncomingAck_reference:
  "ps_pendingReliable (ProcessIncomingAck ack bf s) =
     filter (\<lambda>(q, p). q \<notin> acked ack bf) (ps_pendingReliable s)"
proof -
  have "ack_loop 32 0 ack bf m = filter (\<lambda>(q, p). \<not> (\<exists>j<32. bit bf j \<and> q = ack - of_nat (Suc j))) m" for m
    using ack_loop_filter [of 0 32 ack bf m] by simp
  then show ?thesis
    by (auto simp: ProcessIncomingAck_def Let_def hm_erase_conv acked_def case_prod_beta' filter_empty_conv
        intro!: filter_cong simp del: of_nat_Suc)
qed

section \<open>The receive window\<close>

text \<open>
  The history \<open>N\<close> is the set of accepted sequence numbers. Bit \<open>d - 1\<close> of the window
  stands for the number \<open>d\<close> below the highest. \<open>window_sound\<close>: a set bit stands for an
  accepted number. \<open>window_full\<close>: and a clear bit for one that was not accepted.
\<close>

definition window_base :: "PlayerSession \<Rightarrow> nat set \<Rightarrow> bool" where
  "window_base s N \<longleftrightarrow> (if ps_hasRRecv s then N \<subseteq> {..unat (ps_rRecvHighestSeq s)} \<and> unat (ps_rRecvHighestSeq s) \<in> N
     else N = {})"

definition window_sound :: "PlayerSession \<Rightarrow> nat set \<Rightarrow> bool" where
  "window_sound s N \<longleftrightarrow> window_base s N \<and> (ps_hasRRecv s \<longrightarrow>
     (\<forall>d\<in>{1..32}. bit (ps_rRecvBitfield s) (d - 1) \<longrightarrow>
        d \<le> unat (ps_rRecvHighestSeq s) \<and> unat (ps_rRecvHighestSeq s) - d \<in> N))"

definition window_full :: "PlayerSession \<Rightarrow> nat set \<Rightarrow> bool" where
  "window_full s N \<longleftrightarrow> window_sound s N \<and> (ps_hasRRecv s \<longrightarrow>
     (\<forall>d\<in>{1..32}. d \<le> unat (ps_rRecvHighestSeq s) \<and> unat (ps_rRecvHighestSeq s) - d \<in> N \<longrightarrow>
        bit (ps_rRecvBitfield s) (d - 1)))"

definition record_accept :: "u32 \<Rightarrow> bool \<Rightarrow> nat set \<Rightarrow> nat set" where
  "record_accept r ok N = (if ok then insert (unat r) N else N)"

definition jump32 :: "u32 \<Rightarrow> PlayerSession \<Rightarrow> bool" where
  "jump32 r s \<longleftrightarrow> ps_hasRRecv s \<and> unat r = unat (ps_rRecvHighestSeq s) + 32"

lemma unat_below:
  fixes a b :: "'a::len word"
  assumes "b < a"
  shows "unat (a - b) = unat a - unat b" "unat (a - b - 1) = unat a - unat b - 1" "unat b < unat a"
proof -
  show lt: "unat b < unat a" using assms by (simp add: word_less_nat_alt)
  show d: "unat (a - b) = unat a - unat b" using assms by (intro unat_sub) simp
  have "1 \<le> a - b" using d lt by (metis linorder_not_less unat_0 word_less_1 zero_less_diff less_irrefl)
  from unat_sub [OF this] show "unat (a - b - 1) = unat a - unat b - 1" by (simp add: d)
qed

text \<open>The outcomes of \<open>UpdateRRecvState\<close> at the level of natural numbers.\<close>

lemma RRecv_cases:
  obtains (first) "\<not> ps_hasRRecv s"
      "UpdateRRecvState r s = (s\<lparr>ps_rRecvHighestSeq := r, ps_rRecvBitfield := 0, ps_hasRRecv := True\<rparr>, True)"
  | (far) "ps_hasRRecv s" "unat (ps_rRecvHighestSeq s) + 32 \<le> unat r"
      "UpdateRRecvState r s = (s\<lparr>ps_rRecvBitfield := 0, ps_rRecvHighestSeq := r\<rparr>, True)"
  | (near) d where "ps_hasRRecv s" "unat r = unat (ps_rRecvHighestSeq s) + d" "0 < d" "d < 32"
      "UpdateRRecvState r s = (s\<lparr>ps_rRecvBitfield := push_bit d (ps_rRecvBitfield s) OR push_bit (d - 1) 1,
         ps_rRecvHighestSeq := r\<rparr>, True)"
  | (same) "ps_hasRRecv s" "r = ps_rRecvHighestSeq s" "UpdateRRecvState r s = (s, False)"
  | (old) "ps_hasRRecv s" "unat r + 32 < unat (ps_rRecvHighestSeq s)" "UpdateRRecvState r s = (s, False)"
  | (behind) d where "ps_hasRRecv s" "unat (ps_rRecvHighestSeq s) = unat r + d" "0 < d" "d \<le> 32"
      "UpdateRRecvState r s =
         (if bit (ps_rRecvBitfield s) (d - 1) then (s, False)
          else (s\<lparr>ps_rRecvBitfield := ps_rRecvBitfield s OR push_bit (d - 1) 1\<rparr>, True))"
proof (cases "ps_hasRRecv s")
  case False
  then show thesis by (intro first) (auto simp: UpdateRRecvState_def)
next
  case True
  let ?h = "ps_rRecvHighestSeq s"
  consider "?h < r" | "r = ?h" | "r < ?h" by fastforce
  then show thesis
  proof cases
    case 1
    note u = unat_below [OF 1]
    show thesis
    proof (cases "32 \<le> r - ?h")
      case far': True
      then show thesis using True 1 u
        by (intro far) (auto simp: UpdateRRecvState_def Let_def word_le_nat_alt)
    next
      case near': False
      then have "unat r - unat ?h < 32" using u by (simp add: word_le_nat_alt)
      then show thesis using near' True 1 u
        by (intro near [of "unat r - unat ?h"]) (auto simp: UpdateRRecvState_def Let_def)
    qed
  next
    case 2
    then show thesis using True by (intro same) (auto simp: UpdateRRecvState_def)
  next
    case 3
    note u = unat_below [OF 3]
    have ne: "\<not> ?h < r" "r \<noteq> ?h" using 3 by auto
    show thesis
    proof (cases "32 < ?h - r")
      case old': True
      then show thesis using True ne u
        by (intro old) (auto simp: UpdateRRecvState_def Let_def word_less_nat_alt)
    next
      case behind': False
      then have d: "unat ?h - unat r \<le> 32" using u by (simp add: word_less_nat_alt)
      have "(ps_rRecvBitfield s AND push_bit n 1 \<noteq> 0) = bit (ps_rRecvBitfield s) n" for n
        by (metis and_exp_eq_0_iff_not_bit push_bit_of_1)
      then show thesis using behind' True ne u d
        by (intro behind [of "unat ?h - unat r"]) (auto simp: UpdateRRecvState_def Let_def)
    qed
  qed
qed

lemma window_step_sound:
  assumes "window_sound s N" "UpdateRRecvState r s = (s', ok)"
  shows "window_sound s' (record_accept r ok N)"
proof (cases rule: RRecv_cases [of s r, case_names first far near same old behind])
  case first
  with assms show ?thesis by (auto simp: window_sound_def window_base_def record_accept_def)
next
  case far
  with assms show ?thesis by (auto simp: window_sound_def window_base_def record_accept_def)
next
  case (near d)
  have "unat r - x \<in> N \<and> x \<le> unat r"
    if "x \<in> {1..32}" "bit (push_bit d (ps_rRecvBitfield s) OR push_bit (d - 1) 1) (x - 1)" for x
  proof -
    have "d \<le> x - 1 \<and> bit (ps_rRecvBitfield s) (x - 1 - d) \<or> x = d"
      using that near(3) by (auto simp: bit_or_iff bit_push_bit_iff bit_exp_iff)
    then show ?thesis
    proof
      assume a: "d \<le> x - 1 \<and> bit (ps_rRecvBitfield s) (x - 1 - d)"
      have "x - 1 - d = x - d - 1" by simp
      with a have "bit (ps_rRecvBitfield s) (x - d - 1)" by simp
      moreover have x: "x - d \<in> {1..32}" using a that(1) by auto
      ultimately have n: "unat (ps_rRecvHighestSeq s) - (x - d) \<in> N" "x - d \<le> unat (ps_rRecvHighestSeq s)"
        using assms(1) near(1) unfolding window_sound_def by blast+
      have e: "unat r - x = unat (ps_rRecvHighestSeq s) - (x - d)" "x \<le> unat r"
        using near(2) x n(2) unfolding atLeastAtMost_iff by linarith+
      show ?thesis unfolding e(1) using n(1) e(2) by blast
    next
      assume "x = d"
      then show ?thesis using assms(1) near(1,2) by (auto simp: window_sound_def window_base_def)
    qed
  qed
  with near assms show ?thesis by (auto simp: window_sound_def window_base_def record_accept_def)
next
  case (behind d)
  show ?thesis
  proof (cases "bit (ps_rRecvBitfield s) (d - 1)")
    case True
    with behind assms show ?thesis by (auto simp: record_accept_def)
  next
    case False
    then have "s' = s\<lparr>ps_rRecvBitfield := ps_rRecvBitfield s OR push_bit (d - 1) 1\<rparr>" "ok"
      using behind(5) assms(2) by auto
    then show ?thesis using assms(1) behind(1-4)
      by (auto simp: window_sound_def window_base_def record_accept_def bit_or_iff bit_push_bit_iff bit_exp_iff)
  qed
qed (use assms in \<open>auto simp: record_accept_def\<close>)

lemma window_step_full:
  assumes "window_full s N" "UpdateRRecvState r s = (s', ok)" "\<not> jump32 r s"
  shows "window_full s' (record_accept r ok N) \<and> (ok \<longrightarrow> unat r \<notin> N)"
proof -
  have snd': "window_sound s N" and base: "window_base s N"
    using assms(1) unfolding window_full_def window_sound_def by blast+
  have sound: "window_sound s' (record_accept r ok N)" using window_step_sound [OF snd' assms(2)] .
  let ?h = "unat (ps_rRecvHighestSeq s)"
  have le: "n \<le> ?h" if "ps_hasRRecv s" "n \<in> N" for n using base that by (auto simp: window_base_def)
  have bits: "bit (ps_rRecvBitfield s) (d - 1)" if "ps_hasRRecv s" "d \<in> {1..32}" "d \<le> ?h" "?h - d \<in> N" for d
    using assms(1) that unfolding window_full_def by blast
  show ?thesis
  proof (cases rule: RRecv_cases [of s r, case_names first far near same old behind])
    case first
    with assms(2) base sound show ?thesis by (auto simp: window_full_def window_base_def record_accept_def)
  next
    case far
    then have gt: "?h + 32 < unat r" using assms(3) by (auto simp: jump32_def)
    have "x \<notin> N" if "x + 32 \<ge> unat r" for x using le [OF far(1), of x] gt that by auto
    with far assms(2) sound gt show ?thesis by (auto simp: window_full_def record_accept_def)
  next
    case (near d)
    have "bit (push_bit d (ps_rRecvBitfield s) OR push_bit (d - 1) 1) (x - 1)"
      if "x \<in> {1..32}" "x \<le> unat r" "unat r - x \<in> N" for x
    proof -
      have "unat r - x \<le> ?h" using le [OF near(1)] that by blast
      then have dx: "d \<le> x" using near(2) that(1,2) by auto
      have "x - 1 - d = x - d - 1" by simp
      moreover have "bit (ps_rRecvBitfield s) (x - d - 1)" if "x \<noteq> d"
        using \<open>x \<in> {1..32}\<close> \<open>unat r - x \<in> N\<close> \<open>x \<le> unat r\<close> near(2) dx that
        by (intro bits [OF near(1)]) (auto simp: add.commute)
      ultimately show ?thesis using that(1) dx near(3,4)
        by (auto simp: bit_or_iff bit_push_bit_iff bit_exp_iff)
    qed
    moreover have "unat r \<notin> N" using le [OF near(1), of "unat r"] near(2,3) by auto
    ultimately show ?thesis using near assms(2) sound by (auto simp: window_full_def record_accept_def)
  next
    case (behind d)
    show ?thesis
    proof (cases "bit (ps_rRecvBitfield s) (d - 1)")
      case True
      with behind assms show ?thesis by (auto simp: record_accept_def)
    next
      case False
      then have s': "s' = s\<lparr>ps_rRecvBitfield := ps_rRecvBitfield s OR push_bit (d - 1) 1\<rparr>" "ok"
        using behind(5) assms(2) by auto
      have "unat r \<notin> N" using bits [OF behind(1), of d] behind(2-4) False by auto
      moreover have "bit (ps_rRecvBitfield s OR push_bit (d - 1) 1) (x - 1)"
        if "x \<in> {1..32}" "x \<le> ?h" "?h - x \<in> insert (unat r) N" for x
        using that bits [OF behind(1), of x] behind(2-4) by (cases "x = d") (auto simp: bit_or_iff bit_push_bit_iff bit_exp_iff)
      ultimately show ?thesis using s' sound by (auto simp: window_full_def record_accept_def)
    qed
  qed (use assms in \<open>auto simp: record_accept_def\<close>)
qed

text \<open>A run of the receiver: the list of accepted numbers, in order.\<close>

fun rrecv_run :: "PlayerSession \<Rightarrow> u32 list \<Rightarrow> PlayerSession \<times> u32 list" where
  "rrecv_run s [] = (s, [])"
| "rrecv_run s (r # rs) =
     (let (s', ok) = UpdateRRecvState r s; (s'', acc) = rrecv_run s' rs
      in (s'', if ok then r # acc else acc))"

fun no_jump32 :: "PlayerSession \<Rightarrow> u32 list \<Rightarrow> bool" where
  "no_jump32 s [] = True"
| "no_jump32 s (r # rs) = (\<not> jump32 r s \<and> no_jump32 (fst (UpdateRRecvState r s)) rs)"

lemma rrecv_run_sound:
  "window_sound s N \<Longrightarrow> rrecv_run s rs = (s', acc) \<Longrightarrow> window_sound s' (N \<union> unat ` set acc)"
proof (induction rs arbitrary: s N acc)
  case (Cons r rs)
  obtain s1 ok where st: "UpdateRRecvState r s = (s1, ok)" by fastforce
  obtain s2 acc2 where rr: "rrecv_run s1 rs = (s2, acc2)" by fastforce
  have "window_sound s2 (record_accept r ok N \<union> unat ` set acc2)"
    using Cons.IH [OF window_step_sound [OF Cons.prems(1) st] ] rr Cons.prems(2) st by auto
  with Cons.prems(2) st rr show ?case by (auto simp: record_accept_def split: if_splits)
qed simp

lemma rrecv_run_full:
  "window_full s N \<Longrightarrow> no_jump32 s rs \<Longrightarrow> rrecv_run s rs = (s', acc) \<Longrightarrow>
   distinct acc \<and> unat ` set acc \<inter> N = {}"
proof (induction rs arbitrary: s N acc)
  case (Cons r rs)
  obtain s1 ok where st: "UpdateRRecvState r s = (s1, ok)" by fastforce
  obtain s2 acc2 where rr: "rrecv_run s1 rs = (s2, acc2)" by fastforce
  have step: "window_full s1 (record_accept r ok N)" "ok \<Longrightarrow> unat r \<notin> N"
    using window_step_full [OF Cons.prems(1) st] Cons.prems(2) by auto
  have "distinct acc2 \<and> unat ` set acc2 \<inter> record_accept r ok N = {}"
    using Cons.IH [OF step(1)] Cons.prems(2,3) st rr by auto
  with Cons.prems(3) st rr step(2) show ?case by (cases ok) (fastforce simp: record_accept_def)+
qed simp

section \<open>The leave protocol\<close>

text \<open>
  The abstract protocol: the view of a session that matters for leaving (state, reason,
  whether the main process has been told) and its steps, each with the number of
  notifications it sends. The operations of a session and, in the theory of the game room, a
  whole \<open>ProcessLeaves\<close> refine it.
\<close>

type_synonym leave_view = "LeaveState \<times> LeaveReason \<times> bool"

definition leave_view_of :: "PlayerSession \<Rightarrow> leave_view" where
  "leave_view_of s = (ps_leaveState s, ps_leaveReason s, ps_leftNotified s)"

inductive leave_step :: "leave_view \<Rightarrow> nat \<Rightarrow> leave_view \<Rightarrow> bool" where
  idle: "leave_step v 0 v"
| mark: "r \<noteq> LR_NONE \<Longrightarrow> st = LS_NONE \<or> (st = LS_PENDING \<and> r0 = LR_DISCONNECTED \<and> r \<noteq> LR_DISCONNECTED) \<Longrightarrow>
    leave_step (st, r0, n) 0 (LS_PENDING, r, n)"
| detach: "leave_step (LS_PENDING, r, n) (if n then 0 else 1) (LS_DETACHED, r, True)"
| final: "leave_step (LS_DETACHED, r, n) (if n then 0 else 1) (LS_FINALIZED, r, True)"

inductive_cases leave_stepE: "leave_step v k v'"

inductive leave_run :: "leave_view \<Rightarrow> nat \<Rightarrow> leave_view \<Rightarrow> bool" where
  done_run: "leave_run v 0 v"
| more: "leave_run v k w \<Longrightarrow> leave_step w j u \<Longrightarrow> leave_run v (k + j) u"

fun leave_rank :: "LeaveState \<Rightarrow> nat" where
  "leave_rank LS_NONE = 0"
| "leave_rank LS_PENDING = 1"
| "leave_rank LS_DETACHED = 2"
| "leave_rank LS_FINALIZED = 3"

lemma leave_step_rank: "leave_step v k v' \<Longrightarrow> leave_rank (fst v) \<le> leave_rank (fst v')"
  by (erule leave_stepE) (auto)

lemma leave_step_notify:
  "leave_step v k v' \<Longrightarrow> k + (if snd (snd v) then 1 else 0) = (if snd (snd v') then 1 else 0)"
  by (erule leave_stepE) auto

lemma leave_step_reason:
  "leave_step v k v' \<Longrightarrow> fst v \<noteq> LS_NONE \<Longrightarrow> fst (snd v) \<in> {LR_RECALLED, LR_DEAD} \<Longrightarrow>
   fst (snd v') = fst (snd v)"
  by (erule leave_stepE) auto

lemma leave_run_one: "leave_step v k w \<Longrightarrow> leave_run v k w"
  using leave_run.more [OF leave_run.done_run, of v k w] by simp

lemma leave_run_trans: "leave_run v k w \<Longrightarrow> leave_run u j v \<Longrightarrow> leave_run u (j + k) w"
  by (induction arbitrary: j rule: leave_run.induct)
    (auto intro: leave_run.intros simp flip: add.assoc)

lemma leave_run_rank: "leave_run v k v' \<Longrightarrow> leave_rank (fst v) \<le> leave_rank (fst v')"
  by (induction rule: leave_run.induct) (auto dest: leave_step_rank)

lemma leave_run_notify:
  "leave_run v k v' \<Longrightarrow> k + (if snd (snd v) then 1 else 0) = (if snd (snd v') then 1 else 0)"
  by (induction rule: leave_run.induct) (auto dest!: leave_step_notify split: if_splits)

lemma leave_run_reason:
  "leave_run v k v' \<Longrightarrow> fst v \<noteq> LS_NONE \<Longrightarrow> fst (snd v) \<in> {LR_RECALLED, LR_DEAD} \<Longrightarrow>
   fst v' \<noteq> LS_NONE \<and> fst (snd v') = fst (snd v)"
proof (induction rule: leave_run.induct)
  case (more v k w j u)
  then have w: "fst w \<noteq> LS_NONE" "fst (snd w) = fst (snd v)" by auto
  have "leave_rank (fst w) \<le> leave_rank (fst u)" by (rule leave_step_rank [OF more.hyps(2)])
  then have "fst u \<noteq> LS_NONE" using w(1) by (cases "fst w") auto
  with leave_step_reason [OF more.hyps(2)] w more.prems show ?case by auto
qed auto

text \<open>The number of leave notifications among the effects.\<close>

fun is_notify :: "Effect \<Rightarrow> bool" where
  "is_notify (EffNotifyLeft m) = True"
| "is_notify _ = False"

definition notify_count :: "Effect list \<Rightarrow> nat" where
  "notify_count es = length (filter is_notify es)"

lemma notify_count_simps [simp]:
  "notify_count [] = 0" "notify_count (es @ fs) = notify_count es + notify_count fs"
  "notify_count (EffNotifyLeft m # es) = Suc (notify_count es)" "notify_count (EffUdp b a # es) = notify_count es"
  "notify_count (EffTimer t i u g # es) = notify_count es"
  "notify_count (EffReserveRoomDestroy r # es) = notify_count es"
  by (simp_all add: notify_count_def)

lemma MarkLeaving_refines: "leave_step (leave_view_of s) 0 (leave_view_of (MarkLeaving reason q now s))"
  by (cases "ps_leaveState s") (auto simp: MarkLeaving_def leave_view_of_def intro: leave_step.intros)

lemma NotifyLeftOnce_view:
  "NotifyLeftOnce s = (s', es) \<Longrightarrow>
     ps_leaveState s' = ps_leaveState s \<and> ps_leaveReason s' = ps_leaveReason s \<and> ps_leftNotified s' \<and>
     notify_count es = (if ps_leftNotified s then 0 else 1)"
  by (auto simp: NotifyLeftOnce_def Let_def split: if_splits)

lemma FinalizeLeave_refines:
  assumes "ps_leaveState s = LS_DETACHED" "FinalizeLeave s = (s', es)"
  shows "leave_step (leave_view_of s) (notify_count es) (leave_view_of s')"
proof -
  have "leave_view_of s' = (LS_FINALIZED, ps_leaveReason s, True)"
    "notify_count es = (if ps_leftNotified s then 0 else 1)"
    using NotifyLeftOnce_view [OF assms(2) [unfolded FinalizeLeave_def]]
    by (auto simp: leave_view_of_def ClearPendingReliableExcept_def)
  then show ?thesis using assms(1) leave_step.final by (simp add: leave_view_of_def)
qed

section \<open>Recall\<close>

lemma recall_frame [simp]:
  "leave_view_of (EndRecall s) = leave_view_of s" "leave_view_of (fst (BeginRecall i s)) = leave_view_of s"
  by (auto simp: leave_view_of_def EndRecall_def BeginRecall_def)

section \<open>Serialised items\<close>

text \<open>What a recalled player's report carries, by blueprint.\<close>

definition ipc_qty :: "u32 \<Rightarrow> IpcItemSlot list \<Rightarrow> int" where
  "ipc_qty b xs = (\<Sum>x\<leftarrow>xs. if is_item_id x = b then is_quantity x else 0)"

lemma ipc_slots_qty: "b \<noteq> 0 \<Longrightarrow> ipc_qty b (ipc_slots i ss) = qty_list b ss"
  by (induction i ss rule: ipc_slots.induct) (auto simp: ipc_qty_def qty_of_def IsEmpty_def)

section \<open>Properties\<close>

definition fresh_window :: "PlayerSession \<Rightarrow> bool" where
  "fresh_window s \<longleftrightarrow> \<not> ps_hasRRecv s"

lemma fresh_full: "fresh_window s \<Longrightarrow> window_full s {}"
  by (simp add: fresh_window_def window_full_def window_sound_def window_base_def)

lemma acked_highest:
  assumes "window_sound s N" "ps_hasRRecv s" "q \<in> acked (ps_rRecvHighestSeq s) (ps_rRecvBitfield s)"
  shows "unat q \<in> N"
proof -
  consider "q = ps_rRecvHighestSeq s"
    | i where "i < 32" "bit (ps_rRecvBitfield s) i" "q = ps_rRecvHighestSeq s - of_nat (Suc i)"
    using assms(3) by (auto simp: acked_def)
  then show ?thesis
  proof cases
    case 1
    then show ?thesis using assms(1,2) unfolding window_sound_def window_base_def by simp
  next
    case 2
    then have "Suc i \<in> {1..32}" "bit (ps_rRecvBitfield s) (Suc i - 1)" by auto
    then have n: "Suc i \<le> unat (ps_rRecvHighestSeq s)" "unat (ps_rRecvHighestSeq s) - Suc i \<in> N"
      using assms(1,2) unfolding window_sound_def by blast+
    have w: "unat (of_nat (Suc i) :: u32) = Suc i" using 2(1) by (simp only: unat_of_nat) simp
    then have "unat q = unat (ps_rRecvHighestSeq s) - Suc i"
      using n(1) unfolding 2(3) by (subst unat_sub) (simp_all only: word_le_nat_alt)
    with n(2) show ?thesis by simp
  qed
qed

lemma rrecv_run_has: "rrecv_run s rs = (s', acc) \<Longrightarrow> rs \<noteq> [] \<Longrightarrow> ps_hasRRecv s'"
proof (induction rs arbitrary: s acc)
  case (Cons r rs)
  obtain s1 ok where st: "UpdateRRecvState r s = (s1, ok)" by fastforce
  then have "ps_hasRRecv s1" by (auto simp: UpdateRRecvState_def Let_def split: if_splits)
  with Cons st show ?case by (cases rs) (auto split: prod.splits)
qed simp

text \<open>
  The reliable channel delivers no packet twice: from a fresh session, whatever sequence
  numbers arrive in whatever order, the accepted ones are pairwise distinct, provided no packet
  runs exactly 32 ahead of the highest number seen so far.
\<close>

theorem reliable_no_duplicates:
  assumes "fresh_window s" "no_jump32 s rs"
  shows "distinct (snd (rrecv_run s rs))"
  using rrecv_run_full [OF fresh_full [OF assms(1)] assms(2)] by (metis prod.collapse)

text \<open>
  The acknowledgement the server puts into its packets names only packets it has accepted:
  the highest number and every set bit of the bitfield belong to the accepted list.
\<close>

theorem ack_reports_only_accepted:
  assumes "fresh_window s" "rs \<noteq> []" "rrecv_run s rs = (s', acc)" "GetAckState s' = (ack, bf)" "q \<in> acked ack bf"
  shows "q \<in> set acc"
proof -
  have "window_sound s {}" using fresh_full [OF assms(1)] by (simp add: window_full_def)
  from rrecv_run_sound [OF this assms(3)] have "window_sound s' (unat ` set acc)" by simp
  from acked_highest [OF this rrecv_run_has [OF assms(3,2)]] assms(4,5) have "unat q \<in> unat ` set acc"
    by (auto simp: GetAckState_def)
  then show ?thesis by (metis imageE word_unat_eq_iff)
qed

text \<open>
  C26. Processing an incoming acknowledgement, with its early exits, removes from the pending
  packets exactly those the acknowledgement names and keeps the order of the others.
\<close>

theorem ack_removes_exactly_acked:
  "ps_pendingReliable (ProcessIncomingAck ack bf s) =
     filter (\<lambda>(q, p). q \<notin> acked ack bf) (ps_pendingReliable s)"
  by (rule ProcessIncomingAck_reference)

text \<open>
  The retransmission timeout lies between 50 and 1000 ms whatever the measured round-trip
  time, and a pending packet is retransmitted exactly when it has waited that long.
\<close>

theorem retransmit_exactly_due:
  "50 \<le> retransmit_timeout s \<and> retransmit_timeout s \<le> 1000 \<and>
   set (GetRetransmitCandidates nowMs s) =
     {p. \<exists>q. (q, p) \<in> set (ps_pendingReliable s) \<and> retransmit_timeout s \<le> nowMs - pp_sentAtMs p}"
proof -
  have "50 \<le> retransmit_timeout s \<and> retransmit_timeout s \<le> 1000"
    by (auto simp: retransmit_timeout_def min_def max_def)
  then show ?thesis by (force simp: GetRetransmitCandidates_def)
qed

text \<open>
  The round-trip estimate is the weighted mean of seven parts history and one part sample,
  with a floor of 20 ms, as long as the sum stays inside 32 bits; a stale echo changes nothing.
\<close>

theorem rtt_weighted_mean:
  assumes "echo \<noteq> 0" "unat (ps_rttMs s) * 7 + unat (nowMs - echo) < 2 ^ 32"
  shows "(if ps_lastEchoTs s = 0 \<or> 0 < sint (echo - ps_lastEchoTs s)
    then unat (ps_rttMs (UpdateRtt echo nowMs s)) = max 20 ((unat (ps_rttMs s) * 7 + unat (nowMs - echo)) div 8) \<and>
         ps_lastEchoTs (UpdateRtt echo nowMs s) = echo
    else UpdateRtt echo nowMs s = s)"
proof -
  have "unat (ps_rttMs s * 7 + (nowMs - echo)) = unat (ps_rttMs s) * 7 + unat (nowMs - echo)"
    using assms(2) by (simp add: unat_word_ariths)
  then have q: "unat ((ps_rttMs s * 7 + (nowMs - echo)) div 8) = (unat (ps_rttMs s) * 7 + unat (nowMs - echo)) div 8"
    by (simp add: unat_div_distrib)
  show ?thesis using assms(1) by (auto simp: UpdateRtt_def Let_def q word_less_nat_alt max_def)
qed

text \<open>
  C31. The exception to duplicate freedom is real: a packet exactly 32 ahead of the highest number
  makes the window forget that number, although the bitfield could still hold it, and the same
  packet is then accepted a second time.
\<close>

theorem jump32_accepts_twice:
  assumes "ps_hasRRecv s" "unat r = unat (ps_rRecvHighestSeq s) + 32"
  shows "snd (rrecv_run s [r, ps_rRecvHighestSeq s]) = [r, ps_rRecvHighestSeq s]"
proof -
  let ?h = "ps_rRecvHighestSeq s" and ?s1 = "s\<lparr>ps_rRecvBitfield := 0, ps_rRecvHighestSeq := r\<rparr>"
  have lt: "?h < r" using assms(2) by (simp add: word_less_nat_alt)
  have "unat (r - ?h) = unat (32 :: u32)" using unat_below(1) [OF lt] assms(2) by simp
  then have d: "r - ?h = 32" by (simp only: word_unat_eq_iff)
  have "UpdateRRecvState r s = (?s1, True)"
    using assms(1) lt d by (simp add: UpdateRRecvState_def Let_def)
  moreover have "snd (UpdateRRecvState ?h ?s1)"
    using assms(1) lt d by (auto simp: UpdateRRecvState_def Let_def)
  ultimately show ?thesis by (simp add: split_beta Let_def)
qed

subsection \<open>Concrete sessions\<close>

definition ex_session :: PlayerSession where
  "ex_session = MakePlayerSession ''ticket'' ''token'' 3 1 42 ''user'' 1000
     (fst ex_loadout) (snd ex_loadout) 0 77"

theorem reliable_no_duplicates_witness:
  "distinct (snd (rrecv_run ex_session [5, 7, 5, 6, 7, 40, 9])) \<and>
   snd (rrecv_run ex_session [5, 7, 5, 6, 7, 40, 9]) = [5, 7, 6, 40, 9]"
proof -
  have "fresh_window ex_session" "no_jump32 ex_session [5, 7, 5, 6, 7, 40, 9]"
    by code_simp+
  from reliable_no_duplicates [OF this] show ?thesis
    by (simp add: ex_session_def MakePlayerSession_def UpdateRRecvState_def Let_def)
qed

theorem ack_reports_only_accepted_witness:
  "(5::u32) \<in> set (snd (rrecv_run ex_session [5, 7]))"
proof -
  have f: "fresh_window ex_session" by code_simp
  have a: "GetAckState (fst (rrecv_run ex_session [5, 7])) = (7, 2)" by code_simp
  have "bit (2::u32) 1" "(5::u32) = 7 - of_nat (Suc 1)" by (simp_all add: bit_numeral_rec)
  then have "(5::u32) \<in> acked 7 2" unfolding acked_def by (intro insertI2 CollectI exI [of _ 1]) simp
  from ack_reports_only_accepted [OF f _ _ a this, of "[5, 7]" "snd (rrecv_run ex_session [5, 7])"]
  show ?thesis by simp
qed

theorem rtt_weighted_mean_witness:
  "unat (ps_rttMs (UpdateRtt 1000 1060 ex_session)) = 95"
proof -
  have "unat (ps_rttMs ex_session) * 7 + unat (1060 - 1000 :: u32) < 2 ^ 32" "ps_lastEchoTs ex_session = 0"
    "unat (ps_rttMs ex_session) = 100"
    by (simp_all add: ex_session_def MakePlayerSession_def)
  from rtt_weighted_mean [OF _ this(1)] this(2,3) show ?thesis by simp
qed

theorem jump32_accepts_twice_witness:
  "snd (rrecv_run (fst (UpdateRRecvState 1 ex_session)) [33, 1]) = [33, 1]"
proof -
  have "ps_hasRRecv (fst (UpdateRRecvState 1 ex_session))" "ps_rRecvHighestSeq (fst (UpdateRRecvState 1 ex_session)) = 1"
    by code_simp+
  with jump32_accepts_twice [of "fst (UpdateRRecvState 1 ex_session)" 33] show ?thesis by simp
qed

end
