(* ===== verification/Objects.thy ===== *)
theory Objects
  imports Packets
begin

text \<open>
  \<open>src/DedicateProcess/UnityGameObjects\<close>: the objects of a room. The C++ class hierarchy
  is kept as record extension: \<open>UnityGameObject\<close>, extended by \<open>CombatObject\<close> (hit
  points and shield), extended by \<open>HostileNPC\<close> (aggro and authority) and by
  \<open>PlayerObject\<close>. Results: damage keeps hit points and shield in range and marks death
  exactly at zero; shield regeneration loses nothing to rounding; the aggro of a hostile NPC
  is minimal exactly when nobody holds the authority over it, and authority is taken only by a
  strictly higher claim.
\<close>

section \<open>UnityGameObject\<close>

datatype ObjectType = OT_None | OT_Player | OT_TestItemBox | OT_PlayerLoot | OT_TenerifeBlueCar
  | OT_TenerifeYellowCar | OT_TenerifeBrownCar | OT_TenerifeRedCar | OT_TenerifeBus | OT_Turret

fun ObjectType_num :: "ObjectType \<Rightarrow> i32" where
  "ObjectType_num OT_None = 0"
| "ObjectType_num OT_Player = 1"
| "ObjectType_num OT_TestItemBox = 2"
| "ObjectType_num OT_PlayerLoot = 3"
| "ObjectType_num OT_TenerifeBlueCar = 4"
| "ObjectType_num OT_TenerifeYellowCar = 5"
| "ObjectType_num OT_TenerifeBrownCar = 6"
| "ObjectType_num OT_TenerifeRedCar = 7"
| "ObjectType_num OT_TenerifeBus = 8"
| "ObjectType_num OT_Turret = 9"

fun ObjectTypeToName :: "ObjectType \<Rightarrow> string" where
  "ObjectTypeToName OT_Player = ''Player''"
| "ObjectTypeToName OT_TestItemBox = ''TestItemBox''"
| "ObjectTypeToName OT_PlayerLoot = ''PlayerLoot''"
| "ObjectTypeToName OT_TenerifeBlueCar = ''TenerifeBlueCar''"
| "ObjectTypeToName OT_TenerifeYellowCar = ''TenerifeYellowCar''"
| "ObjectTypeToName OT_TenerifeBrownCar = ''TenerifeBrownCar''"
| "ObjectTypeToName OT_TenerifeRedCar = ''TenerifeRedCar''"
| "ObjectTypeToName OT_TenerifeBus = ''TenerifeBus''"
| "ObjectTypeToName OT_Turret = ''Turret''"
| "ObjectTypeToName OT_None = ''None''"

record Quaternion =
  qx :: f32
  qy :: f32
  qz :: f32
  qw :: f32

definition Quaternion_default :: Quaternion where
  "Quaternion_default = \<lparr>qx = Fin 0, qy = Fin 0, qz = Fin 0, qw = Fin 1\<rparr>"

definition PackFloat :: "f32 \<Rightarrow> u32 option" where
  "PackFloat val =
     (let mapped = f_mul (f_add (f_mul val (flit (141421356 / 100000000))) (flit 1)) (flit (5115 / 10))
      in f_to_u32 (f_clamp (f_round_away mapped) (flit 0) (flit 1023)))"

definition UnpackFloat :: "u32 \<Rightarrow> f32" where
  "UnpackFloat val = f_mul (f_sub (f_div (f_of_u32 val) (flit (5115 / 10))) (flit 1)) (flit (70710678 / 100000000))"

text \<open>The index of the component of greatest absolute value; the first one wins ties.\<close>

fun max_abs_index :: "nat \<Rightarrow> nat \<Rightarrow> f32 \<Rightarrow> f32 list \<Rightarrow> nat" where
  "max_abs_index i mi mv [] = mi"
| "max_abs_index i mi mv (c # cs) =
     (if f_gt (f_abs c) mv then max_abs_index (Suc i) i (f_abs c) cs else max_abs_index (Suc i) mi mv cs)"

definition drop_nth :: "nat \<Rightarrow> 'a list \<Rightarrow> 'a list" where
  "drop_nth i xs = take i xs @ drop (Suc i) xs"

definition Quaternion_Serialize :: "Quaternion \<Rightarrow> u32 option" where
  "Quaternion_Serialize q =
     (let comp = [qx q, qy q, qz q, qw q];
          mi = max_abs_index 1 0 (f_abs (qx q)) (tl comp);
          sgn = (if f_lt (comp ! mi) (flit 0) then flit (- 1) else flit 1);
          out = map (\<lambda>c. f_mul c sgn) (drop_nth mi comp)
      in case (PackFloat (out ! 0), PackFloat (out ! 1), PackFloat (out ! 2)) of
           (Some a, Some b, Some c) \<Rightarrow>
             Some (push_bit 30 (of_nat mi) OR push_bit 20 a OR push_bit 10 b OR c)
         | _ \<Rightarrow> None)"

definition Quaternion_DeserializeFrom :: "u32 \<Rightarrow> Quaternion" where
  "Quaternion_DeserializeFrom w =
     (let mi = unat (drop_bit 30 w AND 3);
          a = UnpackFloat (drop_bit 20 w AND 0x3FF);
          b = UnpackFloat (drop_bit 10 w AND 0x3FF);
          c = UnpackFloat (w AND 0x3FF);
          d = f_sqrt (f_max (f_sub (flit 1) (f_add (f_add (f_mul a a) (f_mul b b)) (f_mul c c))) (flit 0));
          comp = take mi [a, b, c] @ [d] @ drop mi [a, b, c]
      in \<lparr>qx = comp ! 0, qy = comp ! 1, qz = comp ! 2, qw = comp ! 3\<rparr>)"

record UnityGameObject =
  objectId :: u32
  objectType :: ObjectType
  obj_state :: u16
  position :: Vector3
  IsYFixed :: bool
  quaternion :: Quaternion
  yawAngle :: f32

text \<open>
  The transform of an object. All objects of the program are built with \<open>isYFixed\<close> true;
  a quaternion outside the range of the packing is undefined in the source and gives no rotation.
\<close>

definition SerializeTransform :: "'a UnityGameObject_scheme \<Rightarrow> TransformInfo" where
  "SerializeTransform g =
     \<lparr>ti_position = Some (position g),
      ti_rotation = (if IsYFixed g then RotYaw (yawAngle g)
        else case Quaternion_Serialize (quaternion g) of Some w \<Rightarrow> RotQuat w | None \<Rightarrow> RotNone)\<rparr>"

definition Serialize :: "'a UnityGameObject_scheme \<Rightarrow> PbUnityGameObject" where
  "Serialize g = \<lparr>ugo_object_id = objectId g, ugo_object_type = ObjectType_num (objectType g),
     ugo_transform = SerializeTransform g\<rparr>"

text \<open>The part of a movement message that both players and NPCs apply.\<close>

definition ApplyTransform :: "TransformInfo \<Rightarrow> 'a UnityGameObject_scheme \<Rightarrow> 'a UnityGameObject_scheme" where
  "ApplyTransform t g =
     (let g1 = (case ti_position t of Some p \<Rightarrow> g\<lparr>position := p\<rparr> | None \<Rightarrow> g) in
      case ti_rotation t of
        RotQuat w \<Rightarrow> g1\<lparr>quaternion := Quaternion_DeserializeFrom w\<rparr>
      | RotYaw y \<Rightarrow> g1\<lparr>yawAngle := y\<rparr>
      | RotNone \<Rightarrow> g1)"

section \<open>CombatObject\<close>

definition NO_ATTACKER :: u32 where "NO_ATTACKER = 0xFFFFFFFF"

record CombatObject = UnityGameObject +
  maxHp :: i32
  currentHp :: i32
  deathPending :: bool
  lastAttackerId :: u32
  maxShield :: i32
  currentShield :: i32
  damageReductionRate :: i32
  shieldRegenPerSec :: i32
  shieldRegenAccum :: i32

definition IsAlive :: "'a CombatObject_scheme \<Rightarrow> bool" where
  "IsAlive c \<longleftrightarrow> 0 < currentHp c"

definition SetShield :: "i32 \<Rightarrow> i32 \<Rightarrow> i32 \<Rightarrow> 'a CombatObject_scheme \<Rightarrow> 'a CombatObject_scheme" where
  "SetShield mx rate regen c = c\<lparr>maxShield := mx, currentShield := 0, damageReductionRate := rate,
     shieldRegenPerSec := regen, shieldRegenAccum := 0\<rparr>"

definition ChargeShield :: "i32 \<Rightarrow> 'a CombatObject_scheme \<Rightarrow> 'a CombatObject_scheme" where
  "ChargeShield amount c =
     (let n = currentShield c + amount in c\<lparr>currentShield := (if n > maxShield c then maxShield c else n)\<rparr>)"

definition RegenShield :: "u32 \<Rightarrow> 'a CombatObject_scheme \<Rightarrow> 'a CombatObject_scheme" where
  "RegenShield elapsedMs c =
     (if shieldRegenPerSec c \<le> 0 \<or> currentShield c \<ge> maxShield c \<or> \<not> IsAlive c
      then c\<lparr>shieldRegenAccum := 0\<rparr>
      else
        let acc = shieldRegenAccum c + shieldRegenPerSec c * to_i32 elapsedMs;
            gain = acc sdiv 1000
        in if gain \<le> 0 then c\<lparr>shieldRegenAccum := acc\<rparr>
           else ChargeShield gain (c\<lparr>shieldRegenAccum := acc - gain * 1000\<rparr>))"

text \<open>
  \<open>OnDeath\<close> marks the death; \<open>OnDamageApplied\<close> and \<open>OnDeathResolved\<close> do nothing in
  every class of the program.
\<close>

definition TakeDamage :: "i32 \<Rightarrow> u32 \<Rightarrow> 'a CombatObject_scheme \<Rightarrow> 'a CombatObject_scheme" where
  "TakeDamage damage attacker c =
     (let sh = currentShield c - damage;
          penetrated = (sh \<le> 0);
          hp = (if penetrated then currentHp c - (- sh)
                else currentHp c - (damage * (10000 - damageReductionRate c)) sdiv 10000);
          c1 = c\<lparr>lastAttackerId := attacker, currentShield := (if penetrated then 0 else sh)\<rparr>
      in if hp \<le> 0 then c1\<lparr>currentHp := 0, deathPending := True\<rparr> else c1\<lparr>currentHp := hp\<rparr>)"

section \<open>HostileNPC\<close>

definition NO_TARGET :: i32 where "NO_TARGET = - 1"
definition DEFAULT_MIN_AGGRO :: i32 where "DEFAULT_MIN_AGGRO = 1"
definition DEFAULT_MAX_AGGRO :: i32 where "DEFAULT_MAX_AGGRO = 8"
definition NO_AUTHORITY_ID :: u32 where "NO_AUTHORITY_ID = 0xFFFFFFFF"

record HostileNPC = CombatObject +
  minAggro :: i32
  maxAggro :: i32
  attackDamage :: i32
  aggro :: i32
  targetId :: i32

datatype RequestResult = REJECTED | AGGRO_CHANGED | AUTHORITY_CHANGED

definition clamp :: "int \<Rightarrow> int \<Rightarrow> int \<Rightarrow> int" where
  "clamp v lo hi = (if v < lo then lo else if hi < v then hi else v)"

definition IsServerDriven :: "HostileNPC \<Rightarrow> bool" where
  "IsServerDriven n \<longleftrightarrow> targetId n = NO_TARGET"

definition IsAuthority :: "i32 \<Rightarrow> HostileNPC \<Rightarrow> bool" where
  "IsAuthority playerObjectId n \<longleftrightarrow> playerObjectId \<noteq> NO_TARGET \<and> playerObjectId = targetId n"

definition SetAggroInternal :: "i32 \<Rightarrow> i32 \<Rightarrow> HostileNPC \<Rightarrow> HostileNPC" where
  "SetAggroInternal a t n =
     (let a' = clamp a (minAggro n) (maxAggro n) in
      if a' = minAggro n \<or> t = NO_TARGET then n\<lparr>aggro := minAggro n, targetId := NO_TARGET\<rparr>
      else n\<lparr>aggro := a', targetId := t\<rparr>)"

definition ApplyAccepted :: "i32 \<Rightarrow> i32 \<Rightarrow> HostileNPC \<Rightarrow> HostileNPC \<times> RequestResult" where
  "ApplyAccepted a requester n =
     (let n' = SetAggroInternal a requester n
      in (n', if targetId n' \<noteq> targetId n then AUTHORITY_CHANGED else AGGRO_CHANGED))"

definition ApplyAggroRequest :: "i32 \<Rightarrow> i32 \<Rightarrow> HostileNPC \<Rightarrow> HostileNPC \<times> RequestResult" where
  "ApplyAggroRequest requester a n =
     (if \<not> IsAuthority requester n then (n, REJECTED) else ApplyAccepted a requester n)"

definition ApplyAuthorityRequest :: "i32 \<Rightarrow> i32 \<Rightarrow> HostileNPC \<Rightarrow> HostileNPC \<times> RequestResult" where
  "ApplyAuthorityRequest requester a n =
     (if requester = NO_TARGET then (n, REJECTED)
      else if clamp a (minAggro n) (maxAggro n) \<le> aggro n then (n, REJECTED)
      else ApplyAccepted a requester n)"

definition ApplyDamageAuthority :: "i32 \<Rightarrow> HostileNPC \<Rightarrow> HostileNPC \<times> RequestResult" where
  "ApplyDamageAuthority attacker n = ApplyAuthorityRequest attacker (maxAggro n) n"

definition ReleaseAuthority :: "HostileNPC \<Rightarrow> HostileNPC \<times> bool" where
  "ReleaseAuthority n =
     (if IsServerDriven n then (n, False) else (SetAggroInternal (minAggro n) NO_TARGET n, True))"

definition FillMovementInfo :: "HostileNPC \<Rightarrow> GameObjectMovementInfo" where
  "FillMovementInfo n = \<lparr>mi_object_id = objectId n, mi_transform = Some (SerializeTransform n),
     mi_state = ucast (obj_state n)\<rparr>"

definition transform_of :: "GameObjectMovementInfo \<Rightarrow> TransformInfo" where
  "transform_of m = (case mi_transform m of Some t \<Rightarrow> t | None \<Rightarrow> TransformInfo_default)"

definition ApplyMovementInfo :: "GameObjectMovementInfo \<Rightarrow> HostileNPC \<Rightarrow> HostileNPC" where
  "ApplyMovementInfo m n = (ApplyTransform (transform_of m) n)\<lparr>obj_state := ucast (mi_state m)\<rparr>"

definition MakeTurret :: "u32 \<Rightarrow> Vector3 \<Rightarrow> f32 \<Rightarrow> HostileNPC" where
  "MakeTurret oid pos yaw =
     \<lparr>objectId = oid, objectType = OT_Turret, obj_state = 0, position = pos, IsYFixed = True,
      quaternion = Quaternion_default, yawAngle = yaw,
      maxHp = 30000, currentHp = 30000, deathPending = False, lastAttackerId = NO_ATTACKER,
      maxShield = 0, currentShield = 0, damageReductionRate = 0, shieldRegenPerSec = 0, shieldRegenAccum = 0,
      minAggro = DEFAULT_MIN_AGGRO, maxAggro = DEFAULT_MAX_AGGRO, attackDamage = 1200,
      aggro = DEFAULT_MIN_AGGRO, targetId = NO_TARGET\<rparr>"

section \<open>PlayerObject\<close>

record PlayerObject = CombatObject +
  po_pitch :: f32
  po_velocity :: Vector3
  po_actionState :: u32
  po_characterType :: i32
  po_objectName :: string
  primaryWeaponId :: u32
  secondaryWeaponId :: u32
  isUsingPrimary :: bool

definition PLAYER_DEFAULT_MAX_HP :: i32 where "PLAYER_DEFAULT_MAX_HP = 20000"

definition MakePlayerObject :: "u32 \<Rightarrow> Vector3 \<Rightarrow> i32 \<Rightarrow> string \<Rightarrow> PlayerObject" where
  "MakePlayerObject oid pos characterType name =
     \<lparr>objectId = oid, objectType = OT_Player, obj_state = 0, position = pos, IsYFixed = True,
      quaternion = Quaternion_default, yawAngle = Fin 0,
      maxHp = PLAYER_DEFAULT_MAX_HP, currentHp = PLAYER_DEFAULT_MAX_HP, deathPending = False,
      lastAttackerId = NO_ATTACKER,
      maxShield = 0, currentShield = 0, damageReductionRate = 0, shieldRegenPerSec = 0, shieldRegenAccum = 0,
      po_pitch = Fin 0, po_velocity = Vector3_zero, po_actionState = 0,
      po_characterType = characterType, po_objectName = name,
      primaryWeaponId = 0, secondaryWeaponId = 0, isUsingPrimary = True\<rparr>"

definition ApplyState :: "PlayerState \<Rightarrow> PlayerObject \<Rightarrow> PlayerObject" where
  "ApplyState st p =
     (case st_movement_info st of None \<Rightarrow> p
      | Some m \<Rightarrow>
          (ApplyTransform (transform_of m) p)
            \<lparr>obj_state := ucast (mi_state m), po_pitch := st_pitch st,
             po_velocity := (case st_velocity st of Some v \<Rightarrow> v | None \<Rightarrow> Vector3_zero),
             po_actionState := st_action_state st\<rparr>)"

definition FillState :: "PlayerObject \<Rightarrow> PlayerState" where
  "FillState p =
     \<lparr>st_movement_info = Some \<lparr>mi_object_id = objectId p, mi_transform = Some (SerializeTransform p),
                               mi_state = ucast (obj_state p)\<rparr>,
      st_pitch = po_pitch p, st_velocity = Some (po_velocity p), st_action_state = po_actionState p\<rparr>"

definition SetWeapons :: "u32 \<Rightarrow> u32 \<Rightarrow> PlayerObject \<Rightarrow> PlayerObject" where
  "SetWeapons primaryId secondaryId p =
     p\<lparr>primaryWeaponId := primaryId, secondaryWeaponId := secondaryId,
       isUsingPrimary :=
         (if isUsingPrimary p \<and> primaryId = 0 then secondaryId = 0
          else if \<not> isUsingPrimary p \<and> secondaryId = 0 then True
          else isUsingPrimary p)\<rparr>"

definition GetCurrentWeaponId :: "PlayerObject \<Rightarrow> u32" where
  "GetCurrentWeaponId p = (if isUsingPrimary p then primaryWeaponId p else secondaryWeaponId p)"

definition SetArmor :: "u32 \<Rightarrow> PlayerObject \<Rightarrow> PlayerObject" where
  "SetArmor armorId p =
     (case GetArmorSpec armorId of
        Some spec \<Rightarrow> SetShield (maxShieldPoint spec) (DamageReductionRate spec) (regenerationPerSecond spec) p
      | None \<Rightarrow> SetShield 0 0 0 p)"

section \<open>Combat\<close>

text \<open>Range invariant of a combat object: death is pending exactly when no hit points are left.\<close>

definition combat_ok :: "'a CombatObject_scheme \<Rightarrow> bool" where
  "combat_ok c \<longleftrightarrow> 0 \<le> currentHp c \<and> currentHp c \<le> maxHp c \<and> 0 < maxHp c \<and>
     0 \<le> currentShield c \<and> currentShield c \<le> maxShield c \<and>
     0 \<le> damageReductionRate c \<and> damageReductionRate c \<le> 10000 \<and>
     0 \<le> shieldRegenAccum c \<and> 0 \<le> shieldRegenPerSec c \<and>
     (deathPending c \<longleftrightarrow> currentHp c = 0)"

text \<open>The damage that reaches the hit points.\<close>

definition hp_loss :: "i32 \<Rightarrow> 'a CombatObject_scheme \<Rightarrow> int" where
  "hp_loss damage c =
     (if currentShield c \<le> damage then damage - currentShield c
      else (damage * (10000 - damageReductionRate c)) div 10000)"

lemma sdiv_nonneg: "0 \<le> (a::int) \<Longrightarrow> 0 \<le> b \<Longrightarrow> a sdiv b = a div b"
  by (simp add: signed_divide_int_def sgn_if)

lemma hp_loss_bounds:
  assumes "combat_ok c" "0 \<le> damage"
  shows "0 \<le> hp_loss damage c \<and> hp_loss damage c \<le> damage"
proof -
  have "damage * (10000 - damageReductionRate c) \<le> damage * 10000"
    using assms by (intro mult_left_mono) (auto simp: combat_ok_def)
  then have "damage * (10000 - damageReductionRate c) div 10000 \<le> damage * 10000 div 10000"
    by (intro zdiv_mono1) auto
  then have "damage * (10000 - damageReductionRate c) div 10000 \<le> damage" by simp
  moreover have "0 \<le> damage * (10000 - damageReductionRate c)"
    using assms by (auto simp: combat_ok_def)
  ultimately show ?thesis using assms by (auto simp: hp_loss_def combat_ok_def pos_imp_zdiv_nonneg_iff)
qed

lemma TakeDamage_fields:
  assumes "combat_ok c" "0 \<le> damage"
  shows "currentHp (TakeDamage damage a c) = max 0 (currentHp c - hp_loss damage c)"
    "currentShield (TakeDamage damage a c) = max 0 (currentShield c - damage)"
    "deathPending (TakeDamage damage a c) = (deathPending c \<or> currentHp c \<le> hp_loss damage c)"
    "lastAttackerId (TakeDamage damage a c) = a" "maxHp (TakeDamage damage a c) = maxHp c"
    "maxShield (TakeDamage damage a c) = maxShield c"
    "damageReductionRate (TakeDamage damage a c) = damageReductionRate c"
    "shieldRegenAccum (TakeDamage damage a c) = shieldRegenAccum c"
    "shieldRegenPerSec (TakeDamage damage a c) = shieldRegenPerSec c"
proof -
  have "0 \<le> damage * (10000 - damageReductionRate c)" using assms by (auto simp: combat_ok_def)
  then have q: "(damage * (10000 - damageReductionRate c)) sdiv 10000 = damage * (10000 - damageReductionRate c) div 10000"
    by (simp add: sdiv_nonneg)
  show "currentHp (TakeDamage damage a c) = max 0 (currentHp c - hp_loss damage c)"
    "currentShield (TakeDamage damage a c) = max 0 (currentShield c - damage)"
    "deathPending (TakeDamage damage a c) = (deathPending c \<or> currentHp c \<le> hp_loss damage c)"
    "lastAttackerId (TakeDamage damage a c) = a" "maxHp (TakeDamage damage a c) = maxHp c"
    "maxShield (TakeDamage damage a c) = maxShield c"
    "damageReductionRate (TakeDamage damage a c) = damageReductionRate c"
    "shieldRegenAccum (TakeDamage damage a c) = shieldRegenAccum c"
    "shieldRegenPerSec (TakeDamage damage a c) = shieldRegenPerSec c"
    by (auto simp: TakeDamage_def Let_def hp_loss_def q max_def)
qed

lemma TakeDamage_ok: "combat_ok c \<Longrightarrow> 0 \<le> damage \<Longrightarrow> combat_ok (TakeDamage damage a c)"
  using TakeDamage_fields [of c damage a] hp_loss_bounds [of c damage]
  by (auto simp: combat_ok_def max_def)

lemma SetShield_ok:
  "combat_ok c \<Longrightarrow> 0 \<le> mx \<Longrightarrow> 0 \<le> rate \<Longrightarrow> rate \<le> 10000 \<Longrightarrow> 0 \<le> regen \<Longrightarrow> combat_ok (SetShield mx rate regen c)"
  by (auto simp: combat_ok_def SetShield_def)

lemma ChargeShield_ok: "combat_ok c \<Longrightarrow> 0 \<le> amount \<Longrightarrow> combat_ok (ChargeShield amount c)"
  by (auto simp: combat_ok_def ChargeShield_def Let_def)

lemma SetArmor_ok: "combat_ok p \<Longrightarrow> combat_ok (SetArmor a p)"
  by (auto simp: SetArmor_def dest!: armor_spec_cases intro!: SetShield_ok split: option.splits)

lemma RegenShield_ok:
  assumes "combat_ok c" "0 \<le> to_i32 e"
  shows "combat_ok (RegenShield e c)"
proof -
  define acc where "acc = shieldRegenAccum c + shieldRegenPerSec c * to_i32 e"
  have "0 \<le> acc" using assms by (simp add: acc_def combat_ok_def)
  then have "acc sdiv 1000 = acc div 1000" "acc - acc div 1000 * 1000 = acc mod 1000"
    by (simp_all add: sdiv_nonneg minus_div_mult_eq_mod)
  with \<open>0 \<le> acc\<close> assms(1) show ?thesis
    by (auto simp: RegenShield_def Let_def acc_def [symmetric] combat_ok_def ChargeShield_def)
qed

text \<open>
  Regeneration over several ticks: the credit is what has been granted plus what waits in the
  accumulator, in shield-milliseconds.
\<close>

definition regen_credit :: "'a CombatObject_scheme \<Rightarrow> int" where
  "regen_credit c = currentShield c * 1000 + shieldRegenAccum c"

definition regen_ticks :: "u32 list \<Rightarrow> 'a CombatObject_scheme \<Rightarrow> 'a CombatObject_scheme" where
  "regen_ticks es c = fold RegenShield es c"

text \<open>The shield stays below its maximum for the whole sequence of ticks.\<close>

fun below_max :: "u32 list \<Rightarrow> 'a CombatObject_scheme \<Rightarrow> bool" where
  "below_max [] c = True"
| "below_max (e # es) c \<longleftrightarrow> currentShield (RegenShield e c) < maxShield c \<and> below_max es (RegenShield e c)"

lemma RegenShield_credit:
  assumes "combat_ok c" "0 \<le> to_i32 e" "0 < shieldRegenPerSec c" "IsAlive c" "currentShield c < maxShield c"
    "currentShield (RegenShield e c) < maxShield c"
  shows "regen_credit (RegenShield e c) = regen_credit c + shieldRegenPerSec c * to_i32 e \<and>
    shieldRegenPerSec (RegenShield e c) = shieldRegenPerSec c \<and> IsAlive (RegenShield e c) \<and>
    maxShield (RegenShield e c) = maxShield c \<and> 0 \<le> shieldRegenAccum (RegenShield e c) \<and>
    (shieldRegenAccum c < 1000 \<longrightarrow> shieldRegenAccum (RegenShield e c) < 1000)"
proof -
  define acc where "acc = shieldRegenAccum c + shieldRegenPerSec c * to_i32 e"
  have a: "0 \<le> acc" using assms by (simp add: acc_def combat_ok_def)
  then have q: "acc sdiv 1000 = acc div 1000" "acc - acc div 1000 * 1000 = acc mod 1000"
    by (simp_all add: sdiv_nonneg minus_div_mult_eq_mod)
  have eq: "RegenShield e c = (if acc div 1000 \<le> 0 then c\<lparr>shieldRegenAccum := acc\<rparr>
      else ChargeShield (acc div 1000) (c\<lparr>shieldRegenAccum := acc mod 1000\<rparr>))"
    using assms(3-5) by (simp add: RegenShield_def Let_def acc_def [symmetric] q)
  show ?thesis
  proof (cases "acc div 1000 \<le> 0")
    case True
    then have "acc < 1000" by simp
    then show ?thesis using True a assms(4) by (simp add: eq regen_credit_def acc_def IsAlive_def)
  next
    case False
    have "acc div 1000 * 1000 + acc mod 1000 = acc" by simp
    then show ?thesis using False assms(4,6)
      by (auto simp: eq regen_credit_def ChargeShield_def Let_def IsAlive_def acc_def algebra_simps split: if_splits)
  qed
qed

lemma regen_ticks_credit:
  assumes "combat_ok c" "\<forall>e\<in>set es. 0 \<le> to_i32 e" "0 < shieldRegenPerSec c" "IsAlive c"
    "currentShield c < maxShield c" "below_max es c"
  shows "regen_credit (regen_ticks es c) = regen_credit c + shieldRegenPerSec c * (\<Sum>e\<leftarrow>es. to_i32 e) \<and>
    0 \<le> shieldRegenAccum (regen_ticks es c) \<and>
    (shieldRegenAccum c < 1000 \<longrightarrow> shieldRegenAccum (regen_ticks es c) < 1000)"
  using assms
proof (induction es arbitrary: c)
  case Nil
  then show ?case by (simp add: regen_ticks_def combat_ok_def)
next
  case (Cons e es)
  have e: "0 \<le> to_i32 e" and b: "currentShield (RegenShield e c) < maxShield c" "below_max es (RegenShield e c)"
    using Cons.prems by auto
  note st = RegenShield_credit [OF Cons.prems(1) e Cons.prems(3-5) b(1)]
  have IH: "regen_credit (regen_ticks es (RegenShield e c)) =
      regen_credit (RegenShield e c) + shieldRegenPerSec (RegenShield e c) * (\<Sum>e\<leftarrow>es. to_i32 e) \<and>
      0 \<le> shieldRegenAccum (regen_ticks es (RegenShield e c)) \<and>
      (shieldRegenAccum (RegenShield e c) < 1000 \<longrightarrow> shieldRegenAccum (regen_ticks es (RegenShield e c)) < 1000)"
    using st b Cons.prems(2,3) RegenShield_ok [OF Cons.prems(1) e] by (intro Cons.IH) auto
  have "regen_ticks (e # es) c = regen_ticks es (RegenShield e c)" by (simp add: regen_ticks_def)
  with IH st show ?case by (simp add: distrib_left)
qed

section \<open>Authority over hostile NPCs\<close>

text \<open>
  The requests an NPC receives, as one step function, and its invariant: the aggro is in
  range, and it is minimal exactly when nobody holds the authority.
\<close>

datatype npc_request = AggroRequest i32 i32 | AuthorityRequest i32 i32 | DamageBy i32 | Release
  | Move GameObjectMovementInfo | Hit i32 u32

fun npc_step :: "HostileNPC \<Rightarrow> npc_request \<Rightarrow> HostileNPC" where
  "npc_step n (AggroRequest r a) = fst (ApplyAggroRequest r a n)"
| "npc_step n (AuthorityRequest r a) = fst (ApplyAuthorityRequest r a n)"
| "npc_step n (DamageBy r) = fst (ApplyDamageAuthority r n)"
| "npc_step n Release = fst (ReleaseAuthority n)"
| "npc_step n (Move m) = ApplyMovementInfo m n"
| "npc_step n (Hit d a) = TakeDamage d a n"

definition npc_ok :: "HostileNPC \<Rightarrow> bool" where
  "npc_ok n \<longleftrightarrow> minAggro n < maxAggro n \<and> minAggro n \<le> aggro n \<and> aggro n \<le> maxAggro n \<and>
     (aggro n = minAggro n \<longleftrightarrow> targetId n = NO_TARGET)"

lemmas npc_defs = ApplyAggroRequest_def ApplyAuthorityRequest_def ApplyDamageAuthority_def
  ReleaseAuthority_def ApplyAccepted_def SetAggroInternal_def Let_def clamp_def

lemma npc_frame [simp]:
  "minAggro (ApplyMovementInfo m n) = minAggro n" "maxAggro (ApplyMovementInfo m n) = maxAggro n"
  "aggro (ApplyMovementInfo m n) = aggro n" "targetId (ApplyMovementInfo m n) = targetId n"
  "minAggro (TakeDamage d a n) = minAggro n" "maxAggro (TakeDamage d a n) = maxAggro n"
  "aggro (TakeDamage d a n) = aggro n" "targetId (TakeDamage d a n) = targetId n"
  by (auto simp: ApplyMovementInfo_def ApplyTransform_def TakeDamage_def Let_def split: option.splits Rotation.splits)

lemma npc_step_ok: "npc_ok n \<Longrightarrow> npc_ok (npc_step n q)"
  by (cases q) (auto simp: npc_ok_def npc_defs)

interpretation npc: step_system npc_step npc_ok
  by unfold_locales (rule npc_step_ok)

lemma MakeTurret_ok: "npc_ok (MakeTurret oid pos yaw)"
  by (simp add: npc_ok_def MakeTurret_def DEFAULT_MIN_AGGRO_def DEFAULT_MAX_AGGRO_def)

section \<open>Properties\<close>

text \<open>
  C30. A hit keeps every value of a combat object in range, never raises hit points or shield,
  takes from the hit points exactly the overflow of a broken shield or the reduced share behind
  an unbroken one, and death is pending afterwards exactly when no hit points are left.
\<close>

theorem take_damage_bounds:
  assumes "combat_ok c" "0 \<le> damage"
  shows "combat_ok (TakeDamage damage a c) \<and>
    currentHp (TakeDamage damage a c) = max 0 (currentHp c - hp_loss damage c) \<and>
    currentShield (TakeDamage damage a c) = max 0 (currentShield c - damage) \<and>
    0 \<le> hp_loss damage c \<and> hp_loss damage c \<le> damage \<and>
    (deathPending (TakeDamage damage a c) \<longleftrightarrow> currentHp (TakeDamage damage a c) = 0)"
proof -
  have ok: "combat_ok (TakeDamage damage a c)" by (rule TakeDamage_ok [OF assms])
  then have "deathPending (TakeDamage damage a c) \<longleftrightarrow> currentHp (TakeDamage damage a c) = 0"
    unfolding combat_ok_def by blast
  with ok TakeDamage_fields(1,2) [OF assms, of a] hp_loss_bounds [OF assms] show ?thesis by blast
qed

text \<open>
  Shield regeneration loses nothing to rounding: over any sequence of ticks during which
  the shield stays below its maximum, the shield gained is the regeneration rate times the
  total time, and the part not yet granted is less than one point.
\<close>

theorem shield_regen_no_drift:
  assumes "combat_ok c" "\<forall>e\<in>set es. 0 \<le> to_i32 e" "0 < shieldRegenPerSec c" "IsAlive c"
    "currentShield c < maxShield c" "below_max es c" "shieldRegenAccum c < 1000"
  shows "currentShield (regen_ticks es c) =
    currentShield c + (shieldRegenAccum c + shieldRegenPerSec c * (\<Sum>e\<leftarrow>es. to_i32 e)) div 1000"
proof -
  let ?c' = "regen_ticks es c" and ?x = "shieldRegenPerSec c * (\<Sum>e\<leftarrow>es. to_i32 e)"
  have cr: "currentShield ?c' * 1000 + shieldRegenAccum ?c' = (shieldRegenAccum c + ?x) + currentShield c * 1000"
    and rng: "0 \<le> shieldRegenAccum ?c'" "shieldRegenAccum ?c' < 1000"
    using regen_ticks_credit [OF assms(1-6)] assms(7) unfolding regen_credit_def by auto
  have "currentShield ?c' = (currentShield ?c' * 1000 + shieldRegenAccum ?c') div 1000"
    using rng by simp
  also have "\<dots> = currentShield c + (shieldRegenAccum c + ?x) div 1000" unfolding cr by simp
  finally show ?thesis .
qed

text \<open>
  Whatever requests, hits and movements a hostile NPC receives, its aggro is minimal exactly
  when it has no authority holder and never leaves its range, so it can never become ownerless
  at high aggro.
\<close>

theorem npc_aggro_authority_invariant:
  "npc_ok (run npc_step (MakeTurret oid pos yaw) qs)"
  by (rule npc.run_inv [OF MakeTurret_ok])

text \<open>
  Authority over an NPC changes hands only to a requester whose clamped claim is strictly
  above the current aggro, and any real claim above the minimum on an unheld NPC is granted; the
  holder is dropped only by its own request for the minimum or by a release.
\<close>

theorem npc_authority_transfer:
  assumes "npc_ok n" "r \<noteq> NO_TARGET"
  shows "(snd (ApplyAuthorityRequest r a n) \<noteq> REJECTED \<longleftrightarrow> aggro n < clamp a (minAggro n) (maxAggro n)) \<and>
    (aggro n < clamp a (minAggro n) (maxAggro n) \<longrightarrow>
       targetId (fst (ApplyAuthorityRequest r a n)) = r \<and>
       aggro (fst (ApplyAuthorityRequest r a n)) = clamp a (minAggro n) (maxAggro n)) \<and>
    (targetId (fst (ApplyAggroRequest r a n)) \<noteq> targetId n \<longrightarrow>
       r = targetId n \<and> a \<le> minAggro n \<and> IsServerDriven (fst (ApplyAggroRequest r a n)))"
  using assms by (auto simp: npc_ok_def npc_defs IsAuthority_def IsServerDriven_def split: if_splits)

subsection \<open>Concrete objects\<close>

definition ex_player_object :: PlayerObject where
  "ex_player_object = SetArmor 4 (MakePlayerObject 9 Vector3_zero 0 ''user'')"

lemma ex_player_object_ok: "combat_ok ex_player_object"
  unfolding ex_player_object_def
  by (rule SetArmor_ok) (simp add: combat_ok_def MakePlayerObject_def PLAYER_DEFAULT_MAX_HP_def)

theorem take_damage_bounds_witness:
  "combat_ok (TakeDamage 4800 7 (ChargeShield 5000 ex_player_object)) \<and>
   currentHp (TakeDamage 4800 7 (ChargeShield 5000 ex_player_object)) = 17600"
proof -
  have c: "combat_ok (ChargeShield 5000 ex_player_object)" by (intro ChargeShield_ok ex_player_object_ok) simp
  have "currentHp (ChargeShield 5000 ex_player_object) = 20000" "hp_loss 4800 (ChargeShield 5000 ex_player_object) = 2400"
    by code_simp+
  with take_damage_bounds [OF c, of 4800 7] show ?thesis by simp
qed

theorem shield_regen_no_drift_witness:
  "currentShield (regen_ticks [100, 101, 99] ex_player_object) = 240"
proof -
  have p: "\<forall>e\<in>set [100, 101, 99]. 0 \<le> to_i32 e" "(\<Sum>e\<leftarrow>[100, 101, 99]. to_i32 e) = 300"
    by (simp_all add: to_i32_def)
  have q: "0 < shieldRegenPerSec ex_player_object" "IsAlive ex_player_object"
    "currentShield ex_player_object < maxShield ex_player_object"
    "shieldRegenAccum ex_player_object < 1000" "below_max [100, 101, 99] ex_player_object"
    "shieldRegenPerSec ex_player_object = 800" "currentShield ex_player_object = 0" "shieldRegenAccum ex_player_object = 0"
    by code_simp+
  show ?thesis
    using shield_regen_no_drift [OF ex_player_object_ok p(1) q(1-3,5,4)] p(2) q(6-8) by simp
qed

theorem npc_authority_transfer_witness:
  "targetId (fst (ApplyAuthorityRequest 4 5 (MakeTurret 1 Vector3_zero (Fin 0)))) = 4"
proof -
  let ?n = "MakeTurret 1 Vector3_zero (Fin 0)"
  have "aggro ?n < clamp 5 (minAggro ?n) (maxAggro ?n)"
    by (simp add: MakeTurret_def clamp_def DEFAULT_MIN_AGGRO_def DEFAULT_MAX_AGGRO_def)
  with npc_authority_transfer [of ?n 4 5] MakeTurret_ok show ?thesis
    by (simp add: NO_TARGET_def)
qed

end
