(* ===== verification/Container.thy ===== *)
theory Container
  imports Objects
begin

text \<open>
  \<open>UnityGameObjects/Container.h\<close>, \<open>Container.cpp\<close>, \<open>PlayerLootContainer.h\<close>,
  \<open>TenerifeContainers.h\<close> and \<open>TestGameObjects.h\<close>: containers and how they are filled.
  Results: every constructor gives a well-formed container with 30 slots, initial loot goes to
  consecutive slots and is counted, and the loot of a dead player holds everything the player
  carried.
\<close>

record Container = UnityGameObject +
  c_slots :: "Slot list"
  c_nextLootSlot :: u32
  c_volume :: u32
  c_version :: u32
  c_interactingPlayerId :: u32

definition DEFAULT_CONTAINER_VOLUME :: u32 where "DEFAULT_CONTAINER_VOLUME = 30"
definition NO_INTERACTING_PLAYER :: u32 where "NO_INTERACTING_PLAYER = 0xFFFFFFFF"

definition ContGetSlotMutable :: "u32 \<Rightarrow> Container \<Rightarrow> nat option" where
  "ContGetSlotMutable i c = (if length (c_slots c) \<le> unat i then None else Some (unat i))"

definition IncrementContainerVersion :: "Container \<Rightarrow> Container" where
  "IncrementContainerVersion c = c\<lparr>c_version := c_version c + 1\<rparr>"

definition SetInteractingPlayerId :: "u32 \<Rightarrow> Container \<Rightarrow> Container" where
  "SetInteractingPlayerId i c = c\<lparr>c_interactingPlayerId := i\<rparr>"

definition MakeContainer :: "u32 \<Rightarrow> ObjectType \<Rightarrow> bool \<Rightarrow> Vector3 \<Rightarrow> Container" where
  "MakeContainer oid ty yfixed pos =
     \<lparr>objectId = oid, objectType = ty, obj_state = 0, position = pos, IsYFixed = yfixed,
      quaternion = Quaternion_default, yawAngle = Fin 0,
      c_slots = [], c_nextLootSlot = 0, c_volume = DEFAULT_CONTAINER_VOLUME, c_version = 0,
      c_interactingPlayerId = NO_INTERACTING_PLAYER\<rparr>"

text \<open>\<open>InitializeSlots\<close> runs in constructors, on a container without slots.\<close>

definition InitializeSlots :: "u32 \<Rightarrow> Container \<Rightarrow> Container" where
  "InitializeSlots n c =
     c\<lparr>c_slots := map (\<lambda>i. Slot_default\<lparr>slotIndex := int i\<rparr>) [0..<unat n], c_volume := n\<rparr>"

definition PlaceItem :: "u32 \<Rightarrow> u32 \<Rightarrow> i32 \<Rightarrow> u64 \<Rightarrow> Container \<Rightarrow> Container \<times> bool" where
  "PlaceItem i b q uid c =
     (if length (c_slots c) \<le> unat i \<or> q \<le> 0 then (c, False)
      else (c\<lparr>c_slots := (c_slots c)[unat i := (c_slots c ! unat i)
               \<lparr>slot_item := \<lparr>instanceUid = uid, blueprintId = b\<rparr>, quantity := q\<rparr>]\<rparr>, True))"

definition PlaceInitialLoot :: "u32 \<Rightarrow> i32 \<Rightarrow> u64 \<Rightarrow> Container \<Rightarrow> Container \<times> bool" where
  "PlaceInitialLoot b q uid c =
     (if length (c_slots c) \<le> unat (c_nextLootSlot c) then (c, False)
      else
        let (c', ok) = PlaceItem (c_nextLootSlot c) b q uid c in
        if \<not> ok then (c', False) else (c'\<lparr>c_nextLootSlot := c_nextLootSlot c' + 1\<rparr>, True))"

definition container_proto_slots :: "Container \<Rightarrow> PbInventorySlot list" where
  "container_proto_slots c = map FillSlotProto (filter (\<lambda>s. \<not> IsEmpty s) (c_slots c))"

definition SerializeOpenContainer :: "Container \<Rightarrow> D2CMsg" where
  "SerializeOpenContainer c = D_OpenContainer (objectId c) (c_version c) (c_volume c) (container_proto_slots c)"

definition SerializeRecentContainerInfo :: "Container \<Rightarrow> D2CMsg" where
  "SerializeRecentContainerInfo c =
     D_RecentContainerInfo (objectId c) (c_version c) (c_volume c) (container_proto_slots c)"

section \<open>Kinds of containers\<close>

definition MakeVehicleContainer :: "u32 \<Rightarrow> ObjectType \<Rightarrow> Vector3 \<Rightarrow> f32 \<Rightarrow> Container" where
  "MakeVehicleContainer oid ty pos yaw =
     InitializeSlots DEFAULT_CONTAINER_VOLUME ((MakeContainer oid ty True pos)\<lparr>yawAngle := yaw\<rparr>)"

definition MakeTestItemBox :: "u32 \<Rightarrow> Vector3 \<Rightarrow> Container" where
  "MakeTestItemBox oid pos =
     (let c0 = InitializeSlots DEFAULT_CONTAINER_VOLUME (MakeContainer oid OT_TestItemBox True pos);
          c1 = fst (PlaceItem 0 5 60 (WORLD_ITEM_UID_BASE + 1) c0);
          c2 = fst (PlaceItem 1 6 30 (WORLD_ITEM_UID_BASE + 2) c1)
      in fst (PlaceItem 2 4 1 (WORLD_ITEM_UID_BASE + 3) c2))"

text \<open>The lambda \<open>place\<close> of \<open>FillFrom\<close>: the index advances for every non-empty slot.\<close>

definition loot_place :: "Slot \<Rightarrow> Container \<times> u32 \<Rightarrow> Container \<times> u32" where
  "loot_place s cn =
     (if IsEmpty s then cn
      else (fst (PlaceItem (snd cn) (bp s) (quantity s) (instanceUid (slot_item s)) (fst cn)), snd cn + 1))"

definition loot_order :: "PlayerInventory \<Rightarrow> Slot list" where
  "loot_order iv = [primaryWeaponSlot iv, primaryWeaponMagazineSlot iv, secondaryWeaponSlot iv,
     secondaryWeaponMagazineSlot iv, armorSlot iv] @ inventorySlots iv"

definition FillFrom :: "PlayerInventory \<Rightarrow> Container \<Rightarrow> Container" where
  "FillFrom iv c = fst (fold loot_place (loot_order iv) (c, 0))"

definition MakePlayerLootContainer :: "u32 \<Rightarrow> Vector3 \<Rightarrow> f32 \<Rightarrow> PlayerInventory \<Rightarrow> Container" where
  "MakePlayerLootContainer oid pos yaw iv =
     FillFrom iv (InitializeSlots DEFAULT_CONTAINER_VOLUME ((MakeContainer oid OT_PlayerLoot True pos)\<lparr>yawAngle := yaw\<rparr>))"

section \<open>Well-formedness and contents\<close>

definition container_ok :: "Container \<Rightarrow> bool" where
  "container_ok c \<longleftrightarrow> slots_ok (c_slots c) \<and> length (c_slots c) = 30"

definition contents :: "u32 \<Rightarrow> Container \<Rightarrow> int" where
  "contents b c = qty_list b (c_slots c)"

lemma InitializeSlots_ok: "container_ok (InitializeSlots DEFAULT_CONTAINER_VOLUME c)"
  using base_slots(1) [of 30]
  by (simp add: container_ok_def InitializeSlots_def DEFAULT_CONTAINER_VOLUME_def)

lemma InitializeSlots_empty: "b \<noteq> 0 \<Longrightarrow> contents b (InitializeSlots n c) = 0"
  by (simp add: contents_def InitializeSlots_def base_slots(2))

lemma PlaceItem_ok:
  assumes "container_ok c" "b \<noteq> 0" "PlaceItem i b q uid c = (c', ok)"
  shows "container_ok c'"
proof (cases "length (c_slots c) \<le> unat i \<or> q \<le> 0")
  case True
  then show ?thesis using assms by (auto simp: PlaceItem_def)
next
  case False
  let ?s = "(c_slots c ! unat i)\<lparr>slot_item := \<lparr>instanceUid = uid, blueprintId = b\<rparr>, quantity := q\<rparr>"
  have "slots_ok ((c_slots c)[unat i := ?s])"
    using assms(1,2) False slots_ok_nth [of "c_slots c" "unat i"]
    by (intro slots_ok_update) (auto simp: container_ok_def slot_ok_def)
  then show ?thesis using assms(1,3) False by (auto simp: PlaceItem_def container_ok_def)
qed

lemma PlaceItem_contents:
  assumes "unat i < length (c_slots c)" "0 < q" "IsEmpty (c_slots c ! unat i)" "b \<noteq> 0"
  shows "contents b (fst (PlaceItem i b' q uid c)) = contents b c + (if b = b' then q else 0)"
proof -
  let ?s = "(c_slots c ! unat i)\<lparr>slot_item := \<lparr>instanceUid = uid, blueprintId = b'\<rparr>, quantity := q\<rparr>"
  have "qty_of b (c_slots c ! unat i) = 0" using assms(3,4) by (rule qty_of_empty)
  moreover have "qty_of b ?s = (if b = b' then q else 0)" by (auto simp: qty_of_def)
  moreover have "c_slots (fst (PlaceItem i b' q uid c)) = (c_slots c)[unat i := ?s]"
    using assms(1,2) by (simp add: PlaceItem_def)
  ultimately show ?thesis using assms(1) by (simp add: contents_def qty_list_update)
qed

lemma fold_loot_place:
  assumes "container_ok c" "list_all slot_ok ss" "unat n + length ss \<le> 30" "b \<noteq> 0"
    "\<forall>j. unat n \<le> j \<and> j < 30 \<longrightarrow> IsEmpty (c_slots c ! j)"
  shows "container_ok (fst (fold loot_place ss (c, n))) \<and>
    contents b (fst (fold loot_place ss (c, n))) = contents b c + qty_list b ss"
  using assms
proof (induction ss arbitrary: c n)
  case (Cons s ss)
  show ?case
  proof (cases "IsEmpty s")
    case True
    then have "qty_of b s = 0" using Cons.prems(4) by (simp add: qty_of_empty)
    then show ?thesis using Cons.IH [of c n] Cons.prems True by (simp add: loot_place_def)
  next
    case False
    let ?c = "fst (PlaceItem n (bp s) (quantity s) (instanceUid (slot_item s)) c)"
    have s: "slot_ok s" "bp s \<noteq> 0" "0 < quantity s"
      using Cons.prems(2) False slot_ok_pos slot_ok_empty by auto
    have n: "unat n < length (c_slots c)" "IsEmpty (c_slots c ! unat n)"
      using Cons.prems(1,3,5) by (auto simp: container_ok_def)
    have n1: "unat (n + 1) = unat n + 1"
      using Cons.prems(3) by (simp add: unat_word_ariths)
    have ok: "container_ok ?c" using PlaceItem_ok [OF Cons.prems(1) s(2)] by (metis prod.collapse)
    have e: "\<forall>j. unat (n + 1) \<le> j \<and> j < 30 \<longrightarrow> IsEmpty (c_slots ?c ! j)"
      using Cons.prems(5) n1 by (auto simp: PlaceItem_def)
    have "contents b ?c = contents b c + qty_of b s"
      using PlaceItem_contents [OF n(1) s(3) n(2) Cons.prems(4)] by (simp add: qty_of_def)
    then show ?thesis
      using Cons.IH [OF ok _ _ Cons.prems(4) e] Cons.prems(2,3) n1 False by (simp add: loot_place_def)
  qed
qed simp

lemma loot_order_qty: "qty_list b (loot_order iv) = carried b iv"
  by (simp add: loot_order_def carried_def)

lemma loot_order_ok:
  assumes "inv_core iv"
  shows "list_all slot_ok (loot_order iv)" "length (loot_order iv) = 30"
proof -
  have "slot_ok (weapon_of p iv)" "slot_ok (magazine_of p iv)" for p
    using assms by (auto simp: inv_core_def typed_ok_def mag_ok_def)
  from this [of True] this [of False] show "list_all slot_ok (loot_order iv)"
    using assms by (auto simp: loot_order_def weapon_of_def magazine_of_def inv_core_def typed_ok_def
        list_all_iff slots_ok_in)
  show "length (loot_order iv) = 30" using assms by (simp add: loot_order_def inv_core_def INVENTORY_SLOT_COUNT_def)
qed

lemma PlayerLoot_contents:
  assumes "inv_core iv" "b \<noteq> 0"
  shows "container_ok (MakePlayerLootContainer oid pos yaw iv) \<and>
    contents b (MakePlayerLootContainer oid pos yaw iv) = carried b iv"
proof -
  let ?c = "InitializeSlots DEFAULT_CONTAINER_VOLUME ((MakeContainer oid OT_PlayerLoot True pos)\<lparr>yawAngle := yaw\<rparr>)"
  have "IsEmpty (c_slots ?c ! j)" if "j < 30" for j
    using that by (simp add: InitializeSlots_def DEFAULT_CONTAINER_VOLUME_def IsEmpty_def Slot_default_def Item_default_def)
  then have "container_ok (fst (fold loot_place (loot_order iv) (?c, 0))) \<and>
      contents b (fst (fold loot_place (loot_order iv) (?c, 0))) = contents b ?c + qty_list b (loot_order iv)"
    using loot_order_ok [OF assms(1)] assms(2)
    by (intro fold_loot_place InitializeSlots_ok) auto
  then show ?thesis
    using InitializeSlots_empty [OF assms(2)] by (simp add: MakePlayerLootContainer_def FillFrom_def loot_order_qty)
qed

section \<open>Properties\<close>

text \<open>
  The loot container left by a dead player holds exactly what the player carried, in the
  inventory, as equipment and in both magazines: the 30 slots always suffice.
\<close>

theorem player_loot_holds_everything:
  assumes "inv_core iv" "b \<noteq> 0"
  shows "container_ok (MakePlayerLootContainer oid pos yaw iv) \<and>
    contents b (MakePlayerLootContainer oid pos yaw iv) = carried b iv"
  by (rule PlayerLoot_contents [OF assms])

theorem player_loot_holds_everything_witness:
  "contents 6 (MakePlayerLootContainer 3 Vector3_zero (Fin 0) (fst ex_store)) = carried 6 (fst ex_store)"
proof -
  have "inv_core (fst ex_store)" using ex_store_ok by (simp add: store_ok_def inv_ok_def)
  from player_loot_holds_everything [OF this, of 6 3 Vector3_zero "Fin 0"] show ?thesis by simp
qed

end
