(* ===== verification/MapData.thy ===== *)
theory MapData
  imports Container
begin

text \<open>
  \<open>src/DedicateProcess/MapDataManager.h\<close>: the static tables of the maps, and the recall
  zone test. A table the source returns as pointer and count is the list of its entries; a
  null pointer is \<open>None\<close>.
\<close>

record RecallZone =
  rz_centerX :: f32
  rz_centerZ :: f32
  rz_radiusSq :: f32
  rz_minY :: f32
  rz_maxY :: f32

definition RecallZone_Contains :: "RecallZone \<Rightarrow> Vector3 \<Rightarrow> bool" where
  "RecallZone_Contains z p =
     (let dx = f_sub (vx p) (rz_centerX z); dz = f_sub (vz p) (rz_centerZ z) in
      if f_gt (f_add (f_mul dx dx) (f_mul dz dz)) (rz_radiusSq z) then False
      else f_le (rz_minY z) (vy p) \<and> f_le (vy p) (rz_maxY z))"

record MapSpawn =
  ms_type :: ObjectType
  ms_position :: Vector3
  ms_yawAngle :: f32

definition spawn :: "ObjectType \<Rightarrow> rat \<Rightarrow> rat \<Rightarrow> rat \<Rightarrow> rat \<Rightarrow> MapSpawn" where
  "spawn t x y z yaw = \<lparr>ms_type = t, ms_position = \<lparr>vx = flit x, vy = flit y, vz = flit z\<rparr>, ms_yawAngle = flit yaw\<rparr>"

record MapLootEquipQuota =
  lq_blueprintId :: u32
  lq_containerCount :: u32

definition MAP_TUTORIAL :: i32 where "MAP_TUTORIAL = 0"
definition MAP_TENERIFE :: i32 where "MAP_TENERIFE = 1"

definition zone :: "rat \<Rightarrow> rat \<Rightarrow> rat \<Rightarrow> rat \<Rightarrow> rat \<Rightarrow> RecallZone" where
  "zone x z r lo hi = \<lparr>rz_centerX = flit x, rz_centerZ = flit z, rz_radiusSq = f_mul (flit r) (flit r),
     rz_minY = flit lo, rz_maxY = flit hi\<rparr>"

definition tutorialRecallZones :: "RecallZone list" where
  "tutorialRecallZones = [zone 10 10 (11 / 2) (- 5) 5]"

definition tenerifeRecallZones :: "RecallZone list" where
  "tenerifeRecallZones =
     [zone 0 70 8 (- 2) 5, zone (4363 / 25) (- (4803 / 100)) 8 (- 2) 5, zone 165 (2939 / 50) 8 (- 2) 5]"

definition tenerifeContainerSpawns :: "MapSpawn list" where
  "tenerifeContainerSpawns =
     [spawn OT_TenerifeBlueCar (- (2112 / 25)) (1 / 100) (- (1762 / 25)) (- 90),
      spawn OT_TenerifeBlueCar (- (678 / 5)) (1 / 100) (- (1469 / 20)) 90,
      spawn OT_TenerifeBlueCar (- (201 / 2)) (1 / 100) (- (1469 / 20)) 90,
      spawn OT_TenerifeBlueCar (4181 / 100) (1 / 100) (- (7353 / 100)) 90,
      spawn OT_TenerifeBlueCar (- (9311 / 100)) (13 / 100) (- (4381 / 50)) 0,
      spawn OT_TenerifeBlueCar (3731 / 100) (1 / 100) (- (7977 / 100)) 0,
      spawn OT_TenerifeBlueCar (6403 / 100) (1 / 100) (- (1253 / 20)) 90,
      spawn OT_TenerifeBlueCar (4387 / 50) (1 / 100) (- (2667 / 100)) 90,
      spawn OT_TenerifeBlueCar (2193 / 50) (1 / 100) (- (137 / 100)) 90,
      spawn OT_TenerifeBlueCar (- (1571 / 100)) (1 / 100) (81 / 50) (- 90),
      spawn OT_TenerifeBlueCar (- (1421 / 50)) (1 / 100) (- (29 / 20)) 90,
      spawn OT_TenerifeBlueCar (2997 / 100) (1 / 100) (- (3441 / 100)) (- 90),
      spawn OT_TenerifeBlueCar (13717 / 100) (1 / 100) (- (7057 / 100)) (- 90),
      spawn OT_TenerifeBlueCar (- (7051 / 100)) (1 / 100) (- (5671 / 100)) 0,
      spawn OT_TenerifeBlueCar (- (3797 / 25)) (1 / 100) (- (1567 / 25)) (- 90),
      spawn OT_TenerifeBlueCar (- (7053 / 100)) (1 / 100) (- (893 / 100)) 0,
      spawn OT_TenerifeBlueCar (- (10223 / 100)) (1 / 100) (153 / 100) (- 90),
      spawn OT_TenerifeYellowCar (2441 / 100) (1 / 100) (- (8789 / 100)) 0,
      spawn OT_TenerifeYellowCar (6403 / 100) (1 / 100) (- (4749 / 100)) (- 90),
      spawn OT_TenerifeYellowCar (10243 / 100) (1 / 100) (- (75 / 2)) 90,
      spawn OT_TenerifeYellowCar (- (10207 / 100)) (13 / 100) (- (1996 / 25)) 90,
      spawn OT_TenerifeYellowCar (291 / 2) (1 / 100) (- (6193 / 100)) 0,
      spawn OT_TenerifeYellowCar (- (1077 / 20)) (13 / 100) (- (3673 / 50)) 90,
      spawn OT_TenerifeYellowCar (1129 / 20) (1 / 100) (- (4963 / 100)) 90,
      spawn OT_TenerifeYellowCar (14261 / 100) (1 / 100) (- (551 / 25)) 180,
      spawn OT_TenerifeYellowCar (1157 / 20) (1 / 100) (169 / 100) (- 90),
      spawn OT_TenerifeYellowCar (753 / 25) (1 / 100) (83 / 50) (- 90),
      spawn OT_TenerifeYellowCar (586 / 25) (1 / 100) (- (139 / 100)) 90,
      spawn OT_TenerifeYellowCar (- (5181 / 100)) (1 / 100) (163 / 100) (- 90),
      spawn OT_TenerifeYellowCar (- (14539 / 100)) (1 / 100) (- (221 / 25)) 180,
      spawn OT_TenerifeYellowCar (- (797 / 100)) (1 / 100) (- (1879 / 50)) 90,
      spawn OT_TenerifeYellowCar (8759 / 100) (1 / 100) (- (3517 / 50)) (- 90),
      spawn OT_TenerifeYellowCar (- (7333 / 100)) (1 / 100) (- (2677 / 100)) 180,
      spawn OT_TenerifeBrownCar (- (8629 / 100)) (13 / 100) (- (7987 / 100)) 0,
      spawn OT_TenerifeBrownCar (6399 / 50) (1 / 100) (31 / 20) (- 90),
      spawn OT_TenerifeBrownCar (531 / 20) (1 / 100) (- 80) 0,
      spawn OT_TenerifeBrownCar (6701 / 50) (1 / 100) (- (3733 / 100)) 90,
      spawn OT_TenerifeBrownCar (- (14243 / 100)) (1 / 100) (- (969 / 20)) 0,
      spawn OT_TenerifeBrownCar (- (14263 / 100)) (1 / 100) (- (241 / 10)) 0,
      spawn OT_TenerifeBrownCar (- (3059 / 100)) (1 / 100) (- (3447 / 100)) (- 90),
      spawn OT_TenerifeBrownCar (55 / 4) (1 / 100) (- (3753 / 100)) 90,
      spawn OT_TenerifeBrownCar (- (12333 / 100)) (1 / 100) (- (141 / 2)) (- 90),
      spawn OT_TenerifeBrownCar (- (5703 / 100)) (1 / 100) (- (1869 / 50)) 90,
      spawn OT_TenerifeBrownCar (1993 / 25) (1 / 100) (- (1229 / 50)) 90,
      spawn OT_TenerifeBrownCar (- (539 / 4)) (1 / 100) (- (34 / 25)) 90,
      spawn OT_TenerifeRedCar (- (13139 / 100)) (1 / 100) (- (937 / 25)) 90,
      spawn OT_TenerifeRedCar (8771 / 100) (1 / 100) (- (157 / 10)) (- 90),
      spawn OT_TenerifeRedCar (7 / 5) (1 / 100) (- (1169 / 25)) 0,
      spawn OT_TenerifeRedCar (6077 / 100) 0 (- (1871 / 50)) 90,
      spawn OT_TenerifeRedCar (- (2919 / 100)) (1 / 100) (- (7047 / 100)) (- 90),
      spawn OT_TenerifeRedCar (5989 / 50) (1 / 100) (- (33 / 25)) 90,
      spawn OT_TenerifeRedCar (2831 / 50) (1 / 100) (- (1457 / 25)) 90,
      spawn OT_TenerifeRedCar (3104 / 25) (1 / 100) (- (862 / 25)) (- 90),
      spawn OT_TenerifeRedCar (3071 / 50) (- (3 / 100)) (- (131 / 100)) 90,
      spawn OT_TenerifeRedCar (- (349 / 4)) (1 / 100) (- (131 / 100)) 90,
      spawn OT_TenerifeRedCar (4947 / 50) (1 / 100) (- (6 / 5)) 90,
      spawn OT_TenerifeRedCar (10499 / 100) (1 / 100) (- (7347 / 100)) 90,
      spawn OT_TenerifeRedCar (8761 / 100) (1 / 100) (- (1119 / 50)) (- 90),
      spawn OT_TenerifeRedCar (3537 / 50) (1 / 100) (- (33 / 4)) 180,
      spawn OT_TenerifeBus (- (1069 / 100)) (1 / 100) (- (3671 / 50)) 90,
      spawn OT_TenerifeBus (1433 / 25) (1 / 100) (- (551 / 10)) 90,
      spawn OT_TenerifeBus (14553 / 100) (1 / 100) (- (901 / 100)) 0,
      spawn OT_TenerifeBus (183 / 20) (1 / 100) (38 / 25) 90,
      spawn OT_TenerifeBus (- (9621 / 100)) (1 / 100) (- (3437 / 100)) 90]"

definition tenerifeNpcSpawns :: "MapSpawn list" where
  "tenerifeNpcSpawns =
     [spawn OT_Turret (- 72) 0 (- 36) 0,
      spawn OT_Turret 0 0 0 0,
      spawn OT_Turret (- 144) 0 0 0,
      spawn OT_Turret 144 0 (- 36) 0]"

definition tenerifeAmmoPool :: "u32 list" where
  "tenerifeAmmoPool = [5, 6]"

definition tenerifeEquipQuotas :: "MapLootEquipQuota list" where
  "tenerifeEquipQuotas = map (\<lambda>(b, n). \<lparr>lq_blueprintId = b, lq_containerCount = n\<rparr>)
     [(1, 4), (2, 4), (3, 8), (4, 4)]"

definition TENERIFE_BASE_AMMO_MIN :: i32 where "TENERIFE_BASE_AMMO_MIN = 8"
definition TENERIFE_BASE_AMMO_MAX :: i32 where "TENERIFE_BASE_AMMO_MAX = 16"
definition TENERIFE_EXTRA_AMMO_CONTAINERS :: u32 where "TENERIFE_EXTRA_AMMO_CONTAINERS = 20"
definition TENERIFE_EXTRA_AMMO_MIN :: i32 where "TENERIFE_EXTRA_AMMO_MIN = 10"
definition TENERIFE_EXTRA_AMMO_MAX :: i32 where "TENERIFE_EXTRA_AMMO_MAX = 20"

definition GetRecallZones :: "i32 \<Rightarrow> RecallZone list option" where
  "GetRecallZones mapId =
     (if mapId = MAP_TUTORIAL then Some tutorialRecallZones
      else if mapId = MAP_TENERIFE then Some tenerifeRecallZones else None)"

definition GetContainerSpawns :: "i32 \<Rightarrow> MapSpawn list option" where
  "GetContainerSpawns mapId = (if mapId = MAP_TENERIFE then Some tenerifeContainerSpawns else None)"

definition GetHostileNpcSpawns :: "i32 \<Rightarrow> MapSpawn list option" where
  "GetHostileNpcSpawns mapId = (if mapId = MAP_TENERIFE then Some tenerifeNpcSpawns else None)"

definition GetLootAmmoPool :: "i32 \<Rightarrow> u32 list option" where
  "GetLootAmmoPool mapId = (if mapId = MAP_TENERIFE then Some tenerifeAmmoPool else None)"

definition GetLootEquipQuotas :: "i32 \<Rightarrow> MapLootEquipQuota list option" where
  "GetLootEquipQuotas mapId = (if mapId = MAP_TENERIFE then Some tenerifeEquipQuotas else None)"

section \<open>Properties\<close>

text \<open>
  C29. A position with a NaN coordinate in the horizontal plane passes the radius test of every
  recall zone: the zone then only checks the height. The comparison \<open>>\<close> is false on NaN.
\<close>

theorem recall_zone_nan_bypass:
  assumes "vx p = NaN \<or> vz p = NaN" "f_le (rz_minY z) (vy p)" "f_le (vy p) (rz_maxY z)"
  shows "RecallZone_Contains z p"
  using assms by (auto simp: RecallZone_Contains_def Let_def)

theorem recall_zone_nan_bypass_witness:
  "RecallZone_Contains \<lparr>rz_centerX = Fin 0, rz_centerZ = Fin 70, rz_radiusSq = Fin 64, rz_minY = Fin (- 2), rz_maxY = Fin 5\<rparr>
     \<lparr>vx = NaN, vy = Fin 0, vz = Fin 1000\<rparr>"
  by (rule recall_zone_nan_bypass) simp_all

end
