(* ===== verification/GameRoom.thy ===== *)
theory GameRoom
  imports Session MapData
begin

text \<open>
  \<open>src/DedicateProcess/GameRoom.h\<close> and \<open>GameRoom.cpp\<close>: a room with its sessions and
  objects. The C++ program keeps pointers to sessions and objects; here the room owns them as
  values in its hash maps and every operation names them by session id or object id. What a
  room sends (UDP packets, notifications to the main process, timers, the request to destroy
  it) is appended to \<open>gr_outbox\<close>. \<open>gr_reads\<close> counts the readings of the steady clock.
  \<open>gr_thrown\<close> records that \<open>OpenSendBuffer\<close> threw because a packet exceeds the chunk
  size; nothing in the process catches it.
\<close>

section \<open>State\<close>

datatype NonplayerObject = ContainerObj Container | NpcObj HostileNPC

fun np_objectId :: "NonplayerObject \<Rightarrow> u32" where
  "np_objectId (ContainerObj c) = objectId c"
| "np_objectId (NpcObj n) = objectId n"

fun np_position :: "NonplayerObject \<Rightarrow> Vector3" where
  "np_position (ContainerObj c) = position c"
| "np_position (NpcObj n) = position n"

fun np_GetObjectName :: "NonplayerObject \<Rightarrow> string" where
  "np_GetObjectName (ContainerObj c) = ObjectTypeToName (objectType c)"
| "np_GetObjectName (NpcObj n) = ObjectTypeToName (objectType n)"

fun np_Serialize :: "NonplayerObject \<Rightarrow> PbUnityGameObject" where
  "np_Serialize (ContainerObj c) = Serialize c"
| "np_Serialize (NpcObj n) = Serialize n"

record GameRoom =
  gr_roomId :: i32
  gr_mapId :: i32
  gr_allLeftReported :: bool
  gr_createdAt :: int
  gr_lifetimeExpired :: bool
  gr_playerSessions :: "(i32, PlayerSession) hmap"
  gr_spawnSpots :: "Vector3 list"
  gr_spawnSpotIndex :: u32
  gr_recallZones :: "RecallZone list option"
  gr_nxtObjectId :: u32
  gr_nextWorldItemUid :: u64
  gr_lastRegenMs :: u32
  gr_staticObjects :: "(u32, NonplayerObject) hmap"
  gr_dynamicObjects :: "(u32, NonplayerObject) hmap"
  gr_playerObjects :: "(u32, PlayerObject) hmap"
  gr_outbox :: "Effect list"
  gr_reads :: nat
  gr_thrown :: bool

definition ROOM_LIFETIME_MS :: u32 where "ROOM_LIFETIME_MS = 600000"
definition MAX_REGEN_STEP_MS :: u32 where "MAX_REGEN_STEP_MS = 1000"
definition INVALID_SESSION_ID :: i32 where "INVALID_SESSION_ID = - 1"
definition CONTAINER_INTERACT_RANGE_SQ :: f32 where "CONTAINER_INTERACT_RANGE_SQ = flit 9"

definition MakeGameRoom :: "i32 \<Rightarrow> i32 \<Rightarrow> Vector3 list \<Rightarrow> int \<Rightarrow> GameRoom" where
  "MakeGameRoom roomId mapId spots now =
     \<lparr>gr_roomId = roomId, gr_mapId = mapId, gr_allLeftReported = False, gr_createdAt = now,
      gr_lifetimeExpired = False, gr_playerSessions = [], gr_spawnSpots = spots, gr_spawnSpotIndex = 0,
      gr_recallZones = GetRecallZones mapId, gr_nxtObjectId = 0, gr_nextWorldItemUid = WORLD_ITEM_UID_BASE,
      gr_lastRegenMs = 0, gr_staticObjects = [], gr_dynamicObjects = [], gr_playerObjects = [],
      gr_outbox = [], gr_reads = 0, gr_thrown = False\<rparr>"

text \<open>Writes through a stored pointer.\<close>

definition mod_session :: "i32 \<Rightarrow> (PlayerSession \<Rightarrow> PlayerSession) \<Rightarrow> GameRoom \<Rightarrow> GameRoom" where
  "mod_session sid f r = r\<lparr>gr_playerSessions := hm_mod sid f (gr_playerSessions r)\<rparr>"

definition mod_player :: "u32 \<Rightarrow> (PlayerObject \<Rightarrow> PlayerObject) \<Rightarrow> GameRoom \<Rightarrow> GameRoom" where
  "mod_player oid f r = r\<lparr>gr_playerObjects := hm_mod oid f (gr_playerObjects r)\<rparr>"

definition emit :: "Effect list \<Rightarrow> GameRoom \<Rightarrow> GameRoom" where
  "emit es r = r\<lparr>gr_outbox := gr_outbox r @ es\<rparr>"

definition GetPlayerSession :: "GameRoom \<Rightarrow> i32 \<Rightarrow> PlayerSession option" where
  "GetPlayerSession r sid = hm_find (gr_playerSessions r) sid"

definition FindPlayerObject :: "GameRoom \<Rightarrow> u32 \<Rightarrow> PlayerObject option" where
  "FindPlayerObject r oid = hm_find (gr_playerObjects r) oid"

definition FindNonplayerObject :: "GameRoom \<Rightarrow> u32 \<Rightarrow> NonplayerObject option" where
  "FindNonplayerObject r oid =
     (case hm_find (gr_staticObjects r) oid of Some x \<Rightarrow> Some x
      | None \<Rightarrow> hm_find (gr_dynamicObjects r) oid)"

text \<open>A write through the pointer \<open>FindNonplayerObject\<close> returns.\<close>

definition mod_nonplayer :: "u32 \<Rightarrow> (NonplayerObject \<Rightarrow> NonplayerObject) \<Rightarrow> GameRoom \<Rightarrow> GameRoom" where
  "mod_nonplayer oid f r =
     (if hm_find (gr_staticObjects r) oid \<noteq> None
      then r\<lparr>gr_staticObjects := hm_mod oid f (gr_staticObjects r)\<rparr>
      else r\<lparr>gr_dynamicObjects := hm_mod oid f (gr_dynamicObjects r)\<rparr>)"

fun as_container :: "NonplayerObject option \<Rightarrow> Container option" where
  "as_container (Some (ContainerObj c)) = Some c"
| "as_container _ = None"

fun as_npc :: "NonplayerObject option \<Rightarrow> HostileNPC option" where
  "as_npc (Some (NpcObj n)) = Some n"
| "as_npc _ = None"

definition mod_container :: "u32 \<Rightarrow> (Container \<Rightarrow> Container) \<Rightarrow> GameRoom \<Rightarrow> GameRoom" where
  "mod_container oid f r = mod_nonplayer oid (\<lambda>x. case x of ContainerObj c \<Rightarrow> ContainerObj (f c) | NpcObj n \<Rightarrow> NpcObj n) r"

definition mod_npc :: "u32 \<Rightarrow> (HostileNPC \<Rightarrow> HostileNPC) \<Rightarrow> GameRoom \<Rightarrow> GameRoom" where
  "mod_npc oid f r = mod_nonplayer oid (\<lambda>x. case x of NpcObj n \<Rightarrow> NpcObj (f n) | ContainerObj c \<Rightarrow> ContainerObj c) r"

definition FindHostileNpc :: "GameRoom \<Rightarrow> u32 \<Rightarrow> HostileNPC option" where
  "FindHostileNpc r oid = as_npc (FindNonplayerObject r oid)"

definition FindContainer :: "GameRoom \<Rightarrow> u32 \<Rightarrow> Container option" where
  "FindContainer r oid = as_container (FindNonplayerObject r oid)"

definition FindSessionByObjectId :: "GameRoom \<Rightarrow> i32 \<Rightarrow> i32 option" where
  "FindSessionByObjectId r oid =
     (if oid = - 1 then None
      else map_option fst (find (\<lambda>(sid, s). ps_objectId s = oid) (gr_playerSessions r)))"

definition FindObjectName :: "GameRoom \<Rightarrow> u32 \<Rightarrow> string" where
  "FindObjectName r oid =
     (case FindPlayerObject r oid of Some p \<Rightarrow> po_objectName p
      | None \<Rightarrow> (case FindNonplayerObject r oid of Some x \<Rightarrow> np_GetObjectName x | None \<Rightarrow> []))"

definition GetNewObjectId :: "GameRoom \<Rightarrow> u32 \<times> GameRoom" where
  "GetNewObjectId r = (gr_nxtObjectId r, r\<lparr>gr_nxtObjectId := gr_nxtObjectId r + 1\<rparr>)"

section \<open>Sending\<close>

definition read_clock :: "env \<Rightarrow> GameRoom \<Rightarrow> int \<times> GameRoom" where
  "read_clock e r = (e_clock e (gr_reads r), r\<lparr>gr_reads := Suc (gr_reads r)\<rparr>)"

text \<open>
  \<open>MakeD2CPacketImpl\<close> for a session: the sequence number of the packet's class is drawn, the
  acknowledgement state and the timestamps are filled in, the signature is computed over the
  bytes with a zero signature field, and a reliable packet is registered for retransmission.
\<close>

definition MakeD2CPacketImpl :: "env \<Rightarrow> int \<Rightarrow> D2CMsg \<Rightarrow> PlayerSession \<Rightarrow> PlayerSession \<times> SendBuffer" where
  "MakeD2CPacketImpl e now msg s =
     (let (pktId, reliable) = d2c_class msg;
          totalSize = of_nat HEADER_SIZE + of_nat (length (e_enc e msg));
          nowMs = ms_of now;
          (rSeqNum, s1) = (if reliable then NextSendRSeq s else (0, s));
          (uSeqNum, s2) = (if reliable then (0, s1) else NextSendUSeq s1);
          (ackRSeq, ackBf) = GetAckState s2;
          h = \<lparr>h_signature = 0, h_packetId = pktId, h_sessionId = word_of_int (ps_sessionId s),
               h_rSeqNum = rSeqNum, h_uSeqNum = uSeqNum,
               h_flags = (if reliable then FLAG_RELIABLE else 0) OR FLAG_HAS_ACK,
               h_ackRSeqNum = ackRSeq, h_ackBitfield = ackBf, h_timestamp = nowMs,
               h_timestampEcho = ps_lastRecvTimestamp s2\<rparr>;
          sig = packet_signature e (header_bytes h @ e_enc e msg) (ps_securityKey s2);
          buf = \<lparr>sb_header = h\<lparr>h_signature := sig\<rparr>, sb_msg = msg\<rparr>;
          s3 = (if reliable then RegisterReliable rSeqNum buf totalSize (ps_clientAddr s2) nowMs s2 else s2)
      in (s3, buf))"

text \<open>
  \<open>pSession->Send(ClientPacketHandler::MakeD2C...(pkt, pSession))\<close>. \<open>OpenSendBuffer\<close>
  gives a buffer for every size up to the chunk size and throws above it.
\<close>

definition oversized :: "env \<Rightarrow> D2CMsg \<Rightarrow> bool" where
  "oversized e msg \<longleftrightarrow> SEND_BUFFER_CHUNK_SIZE < of_nat HEADER_SIZE + of_nat (length (e_enc e msg))"

definition send_to :: "env \<Rightarrow> i32 \<Rightarrow> D2CMsg \<Rightarrow> GameRoom \<Rightarrow> GameRoom" where
  "send_to e sid msg r =
     (case GetPlayerSession r sid of None \<Rightarrow> r
      | Some s \<Rightarrow>
          if oversized e msg then r\<lparr>gr_thrown := True\<rparr>
          else
            let (now, r1) = read_clock e r
            in emit [EffUdp (snd (MakeD2CPacketImpl e now msg s)) (ps_clientAddr s)]
                 (mod_session sid (\<lambda>x. fst (MakeD2CPacketImpl e now msg x)) r1))"

definition BroadcastExcept :: "env \<Rightarrow> D2CMsg \<Rightarrow> i32 \<Rightarrow> GameRoom \<Rightarrow> GameRoom" where
  "BroadcastExcept e msg exceptId r =
     fold (\<lambda>sid r'. case GetPlayerSession r' sid of
                      Some s \<Rightarrow> if CanReceiveBroadcast s \<and> sid \<noteq> exceptId then send_to e sid msg r' else r'
                    | None \<Rightarrow> r')
       (hm_keys (gr_playerSessions r)) r"

definition Broadcast :: "env \<Rightarrow> D2CMsg \<Rightarrow> GameRoom \<Rightarrow> GameRoom" where
  "Broadcast e msg r = BroadcastExcept e msg INVALID_SESSION_ID r"

section \<open>Recall zones and containers\<close>

definition GetRecallZone :: "GameRoom \<Rightarrow> u32 \<Rightarrow> RecallZone option" where
  "GetRecallZone r i =
     (case gr_recallZones r of None \<Rightarrow> None
      | Some zs \<Rightarrow> if length zs \<le> unat i then None else Some (zs ! unat i))"

definition IsInRecallZone :: "GameRoom \<Rightarrow> u32 \<Rightarrow> Vector3 \<Rightarrow> bool" where
  "IsInRecallZone r i p = (case GetRecallZone r i of None \<Rightarrow> False | Some z \<Rightarrow> RecallZone_Contains z p)"

definition ReleaseInteractingContainer :: "i32 \<Rightarrow> GameRoom \<Rightarrow> GameRoom" where
  "ReleaseInteractingContainer sid r =
     (case GetPlayerSession r sid of None \<Rightarrow> r
      | Some s \<Rightarrow>
          let containerId = p_interactingContainerId (ps_player s);
              r1 = mod_session sid (SetInteractingContainerId (- 1)) r
          in if containerId = - 1 then r1
             else case FindContainer r1 (to_u32 containerId) of None \<Rightarrow> r1
               | Some c \<Rightarrow>
                   if c_interactingPlayerId c \<noteq> to_u32 (ps_objectId s) then r1
                   else mod_container (to_u32 containerId) (SetInteractingPlayerId NO_INTERACTING_PLAYER) r1)"

definition IsPlayerNearContainer :: "GameRoom \<Rightarrow> u32 \<Rightarrow> u32 \<Rightarrow> bool" where
  "IsPlayerNearContainer r playerObjectId containerObjectId =
     (case FindPlayerObject r playerObjectId of None \<Rightarrow> False
      | Some p \<Rightarrow>
          (case FindNonplayerObject r containerObjectId of None \<Rightarrow> False
           | Some t \<Rightarrow>
               let dx = f_sub (vx (position p)) (vx (np_position t));
                   dy = f_sub (vy (position p)) (vy (np_position t));
                   dz = f_sub (vz (position p)) (vz (np_position t))
               in f_le (f_add (f_add (f_mul dx dx) (f_mul dy dy)) (f_mul dz dz)) CONTAINER_INTERACT_RANGE_SQ))"

definition RegisterPlayerSession :: "PlayerSession \<Rightarrow> GameRoom \<Rightarrow> GameRoom" where
  "RegisterPlayerSession s r = r\<lparr>gr_playerSessions := hm_insert (ps_sessionId s) s (gr_playerSessions r)\<rparr>"

section \<open>Object lists\<close>

text \<open>
  The chunking loop shared by \<open>FillStaticObjects\<close> and \<open>FillDynamicObjects\<close>: a chunk is
  (index, is\_last, objects); \<open>sz\<close> is the encoded size of an object.
\<close>

definition SAFE_PAYLOAD_LIMIT :: int where "SAFE_PAYLOAD_LIMIT = 1024 - 45"

fun chunk_loop :: "(PbUnityGameObject \<Rightarrow> nat) \<Rightarrow> PbUnityGameObject list \<Rightarrow> PbUnityGameObject list \<Rightarrow> int \<Rightarrow> u32 \<Rightarrow>
    (u32 \<times> bool \<times> PbUnityGameObject list) list \<Rightarrow> (u32 \<times> bool \<times> PbUnityGameObject list) list" where
  "chunk_loop sz [] current currentSize index out =
     (if currentSize > 0 then out @ [(index, True, current)]
      else if out = [] then [(0, True, current)] else out)"
| "chunk_loop sz (o1 # os) current currentSize index out =
     (let itemSize = int (sz o1) + 5 in
      if currentSize + itemSize > SAFE_PAYLOAD_LIMIT
      then chunk_loop sz os [o1] itemSize (index + 1) (out @ [(index, False, current)])
      else chunk_loop sz os (current @ [o1]) (currentSize + itemSize) index out)"

definition fill_chunks :: "(PbUnityGameObject \<Rightarrow> nat) \<Rightarrow> PbUnityGameObject list \<Rightarrow> (u32 \<times> bool \<times> PbUnityGameObject list) list" where
  "fill_chunks sz os = (if os = [] then [(0, True, [])] else chunk_loop sz os [] 0 0 [])"

definition FillStaticObjects :: "env \<Rightarrow> GameRoom \<Rightarrow> D2CMsg list" where
  "FillStaticObjects e r =
     map (\<lambda>(i, l, os). D_BlueprintStaticObjects i l os)
       (fill_chunks (e_obj_size e) (map (np_Serialize \<circ> snd) (gr_staticObjects r)))"

definition FillDynamicObjects :: "env \<Rightarrow> GameRoom \<Rightarrow> D2CMsg list" where
  "FillDynamicObjects e r =
     map (\<lambda>(i, l, os). D_SpawnMeDynamicObjects i l os)
       (fill_chunks (e_obj_size e) (map (np_Serialize \<circ> snd) (gr_dynamicObjects r)))"

definition FillPlayerObjects :: "GameRoom \<Rightarrow> D2CMsg" where
  "FillPlayerObjects r =
     D_SpawnPlayerObjects (map (\<lambda>(oid, p). (po_characterType p, Serialize p, to_i32 (GetCurrentWeaponId p))) (gr_playerObjects r))"

definition FillPlayerStates :: "GameRoom \<Rightarrow> D2CMsg" where
  "FillPlayerStates r = D_UpdatePlayerStates (map (FillState \<circ> snd) (gr_playerObjects r))"

section \<open>Periodic update\<close>

definition BroadcastPlayerStates :: "env \<Rightarrow> GameRoom \<Rightarrow> GameRoom" where
  "BroadcastPlayerStates e r = (if gr_playerObjects r = [] then r else Broadcast e (FillPlayerStates r) r)"

definition RegenPlayerShields :: "env \<Rightarrow> GameRoom \<Rightarrow> GameRoom" where
  "RegenPlayerShields e r =
     (let (now, r1) = read_clock e r; nowMs = ms_of now in
      if gr_lastRegenMs r1 = 0 then r1\<lparr>gr_lastRegenMs := nowMs\<rparr>
      else
        let d = nowMs - gr_lastRegenMs r1;
            elapsed = (if MAX_REGEN_STEP_MS < d then MAX_REGEN_STEP_MS else d)
        in r1\<lparr>gr_lastRegenMs := nowMs,
              gr_playerObjects := map (\<lambda>(oid, p). (oid, RegenShield elapsed p)) (gr_playerObjects r1)\<rparr>)"

definition Update :: "env \<Rightarrow> GameRoom \<Rightarrow> GameRoom" where
  "Update e r = BroadcastPlayerStates e (RegenPlayerShields e r)"

definition driven_npcs :: "GameRoom \<Rightarrow> HostileNPC list" where
  "driven_npcs r = concat (map (\<lambda>(oid, x). case x of NpcObj n \<Rightarrow> if IsServerDriven n then [] else [n] | _ \<Rightarrow> []) (gr_dynamicObjects r))"

definition UpdateNpcStates :: "env \<Rightarrow> GameRoom \<Rightarrow> GameRoom" where
  "UpdateNpcStates e r =
     (let st = map FillMovementInfo (driven_npcs r)
      in if st = [] then r else Broadcast e (D_UpdateNpcStates st) r)"

definition NotifyNpcAuthority :: "env \<Rightarrow> HostileNPC \<Rightarrow> GameRoom \<Rightarrow> GameRoom" where
  "NotifyNpcAuthority e n r =
     Broadcast e (D_NpcAuthority (objectId n)
       (if IsServerDriven n then NO_AUTHORITY_ID else to_u32 (targetId n)) (aggro n)) r"

definition ReleaseNpcAuthority :: "env \<Rightarrow> i32 \<Rightarrow> GameRoom \<Rightarrow> GameRoom" where
  "ReleaseNpcAuthority e playerObjectId r =
     (if playerObjectId = NO_TARGET then r
      else fold (\<lambda>oid r'.
          case as_npc (hm_find (gr_dynamicObjects r') oid) of None \<Rightarrow> r'
          | Some n \<Rightarrow>
              if \<not> IsAuthority playerObjectId n then r'
              else let (n', released) = ReleaseAuthority n in
                   if \<not> released then r'
                   else NotifyNpcAuthority e n' (r'\<lparr>gr_dynamicObjects := hm_mod oid (\<lambda>_. NpcObj n') (gr_dynamicObjects r')\<rparr>))
        (hm_keys (gr_dynamicObjects r)) r)"

section \<open>Spawning and removing objects\<close>

definition NotifySpawnObject :: "env \<Rightarrow> NonplayerObject \<Rightarrow> GameRoom \<Rightarrow> GameRoom" where
  "NotifySpawnObject e x r = Broadcast e (D_NotifySpawnObject (np_Serialize x)) r"

definition CanBeStaticObject :: "NonplayerObject \<Rightarrow> bool" where
  "CanBeStaticObject x = (case x of ContainerObj _ \<Rightarrow> True | NpcObj _ \<Rightarrow> False)"

definition SpawnStaticObject :: "env \<Rightarrow> NonplayerObject \<Rightarrow> GameRoom \<Rightarrow> GameRoom" where
  "SpawnStaticObject e x r =
     (if \<not> CanBeStaticObject x then r
      else if hm_find (gr_staticObjects r) (np_objectId x) \<noteq> None then r
      else NotifySpawnObject e x (r\<lparr>gr_staticObjects := hm_insert (np_objectId x) x (gr_staticObjects r)\<rparr>))"

definition SpawnDynamicObject :: "env \<Rightarrow> NonplayerObject \<Rightarrow> GameRoom \<Rightarrow> GameRoom" where
  "SpawnDynamicObject e x r =
     (if hm_find (gr_dynamicObjects r) (np_objectId x) \<noteq> None then r
      else NotifySpawnObject e x (r\<lparr>gr_dynamicObjects := hm_insert (np_objectId x) x (gr_dynamicObjects r)\<rparr>))"

definition NotifySpawnPlayerObject :: "env \<Rightarrow> PlayerObject \<Rightarrow> i32 \<Rightarrow> GameRoom \<Rightarrow> GameRoom" where
  "NotifySpawnPlayerObject e p owner r =
     BroadcastExcept e (D_SpawnPlayerObject (po_characterType p) (Serialize p) (to_i32 (GetCurrentWeaponId p))) owner r"

definition SpawnPlayerObject :: "env \<Rightarrow> PlayerObject \<Rightarrow> i32 \<Rightarrow> GameRoom \<Rightarrow> GameRoom" where
  "SpawnPlayerObject e p owner r =
     (if hm_find (gr_playerObjects r) (objectId p) \<noteq> None then r
      else NotifySpawnPlayerObject e p owner (r\<lparr>gr_playerObjects := hm_insert (objectId p) p (gr_playerObjects r)\<rparr>))"

definition SpawnPlayerLootContainer :: "env \<Rightarrow> PlayerObject \<Rightarrow> PlayerInventory \<Rightarrow> GameRoom \<Rightarrow> GameRoom" where
  "SpawnPlayerLootContainer e p iv r =
     (let (oid, r1) = GetNewObjectId r
      in SpawnDynamicObject e (ContainerObj (MakePlayerLootContainer oid (position p) (yawAngle p) iv)) r1)"

definition DestroyDeadObject :: "env \<Rightarrow> u32 \<Rightarrow> GameRoom \<Rightarrow> GameRoom" where
  "DestroyDeadObject e oid r =
     (case hm_find (gr_dynamicObjects r) oid of None \<Rightarrow> r
      | Some x \<Rightarrow>
          let r1 = r\<lparr>gr_dynamicObjects := hm_erase oid (gr_dynamicObjects r)\<rparr>;
              killer = (case x of NpcObj n \<Rightarrow> lastAttackerId n | ContainerObj _ \<Rightarrow> NO_ATTACKER)
          in Broadcast e (D_ObjectKilled oid killer (FindObjectName r1 killer)) r1)"

definition RemovePlayerObject :: "u32 \<Rightarrow> GameRoom \<Rightarrow> GameRoom" where
  "RemovePlayerObject oid r = r\<lparr>gr_playerObjects := hm_erase oid (gr_playerObjects r)\<rparr>"

section \<open>Leaving\<close>

definition ElapsedMs :: "int \<Rightarrow> int \<Rightarrow> u32" where
  "ElapsedMs from_t to_t = word_of_int ((to_t - from_t) sdiv 1000000)"

fun ToDespawnReason :: "LeaveReason \<Rightarrow> DespawnReason" where
  "ToDespawnReason LR_RECALLED = DESPAWN_RECALLED"
| "ToDespawnReason LR_DEAD = DESPAWN_DEAD"
| "ToDespawnReason LR_DISCONNECTED = DESPAWN_DISCONNECTED"
| "ToDespawnReason LR_NONE = DESPAWN_UNKNOWN"

definition IsFinalizeReady :: "PlayerSession \<Rightarrow> int \<Rightarrow> bool" where
  "IsFinalizeReady s now =
     (if ps_leaveReason s = LR_DEAD then DEATH_GRACE_MS \<le> ElapsedMs (ps_leaveMarkedAt s) now
      else if ps_leaveNotifyRSeq s = 0 then True
      else if \<not> IsReliablePending (ps_leaveNotifyRSeq s) s then True
      else LEAVE_FINALIZE_TIMEOUT_MS \<le> ElapsedMs (ps_leaveMarkedAt s) now)"

text \<open>\<open>MarkLeaving\<close> on a session of the room, with its own clock reading.\<close>

definition mark_session :: "env \<Rightarrow> LeaveReason \<Rightarrow> u32 \<Rightarrow> i32 \<Rightarrow> GameRoom \<Rightarrow> GameRoom" where
  "mark_session e reason q sid r =
     (let (now, r1) = read_clock e r in mod_session sid (MarkLeaving reason q now) r1)"

definition disconnected :: "u32 \<Rightarrow> PlayerSession \<Rightarrow> bool" where
  "disconnected nowMs s \<longleftrightarrow> IsInplay s \<and> \<not> IsLeaving s \<and> ps_lastEchoTs s \<noteq> 0 \<and>
     \<not> nowMs - ps_lastEchoTs s < DISCONNECT_TIMEOUT_MS"

definition DetectDisconnectedSessions :: "env \<Rightarrow> GameRoom \<Rightarrow> GameRoom" where
  "DetectDisconnectedSessions e r =
     (let (now, r1) = read_clock e r in
      fold (\<lambda>sid r'. case GetPlayerSession r' sid of
                       Some s \<Rightarrow> if disconnected (ms_of now) s then mark_session e LR_DISCONNECTED 0 sid r' else r'
                     | None \<Rightarrow> r')
        (hm_keys (gr_playerSessions r1)) r1)"

definition GetRemainingLifetimeMs :: "env \<Rightarrow> GameRoom \<Rightarrow> u32 \<times> GameRoom" where
  "GetRemainingLifetimeMs e r =
     (let (now, r1) = read_clock e r; elapsed = ElapsedMs (gr_createdAt r1) now
      in (if ROOM_LIFETIME_MS \<le> elapsed then 0 else ROOM_LIFETIME_MS - elapsed, r1))"

definition AllKill :: "env \<Rightarrow> GameRoom \<Rightarrow> GameRoom" where
  "AllKill e r = fold (mark_session e LR_DEAD 0) (hm_keys (gr_playerSessions r)) r"

text \<open>\<open>NotifyLeftOnce\<close> and \<open>FinalizeLeave\<close> on a session of the room.\<close>

definition notify_session :: "i32 \<Rightarrow> GameRoom \<Rightarrow> GameRoom" where
  "notify_session sid r =
     (case GetPlayerSession r sid of None \<Rightarrow> r
      | Some s \<Rightarrow> emit (snd (NotifyLeftOnce s)) (mod_session sid (\<lambda>x. fst (NotifyLeftOnce x)) r))"

definition finalize_session :: "i32 \<Rightarrow> GameRoom \<Rightarrow> GameRoom" where
  "finalize_session sid r =
     (case GetPlayerSession r sid of None \<Rightarrow> r
      | Some s \<Rightarrow> emit (snd (FinalizeLeave s)) (mod_session sid (\<lambda>x. fst (FinalizeLeave x)) r))"

text \<open>The part of \<open>DetachPlayer\<close> that removes the player's object from the room.\<close>

definition detach_object :: "env \<Rightarrow> i32 \<Rightarrow> PlayerSession \<Rightarrow> PlayerObject \<Rightarrow> GameRoom \<Rightarrow> GameRoom" where
  "detach_object e sid s p r =
     (let oid = to_u32 (ps_objectId s);
          reason = ps_leaveReason s;
          r1 = (if reason = LR_DEAD then
                  let ra = SpawnPlayerLootContainer e p (ps_inventory s) r;
                      killer = lastAttackerId p
                  in Broadcast e (D_PlayerKilled oid killer (po_objectName p) (FindObjectName ra killer)) ra
                else r);
          r2 = (if reason = LR_DEAD \<or> reason = LR_DISCONNECTED
                then mod_session sid (\<lambda>x. set_inventory (InvClear (ps_inventory x)) x) r1 else r1);
          r3 = RemovePlayerObject oid r2
      in BroadcastExcept e (D_DespawnPlayerObject oid (ToDespawnReason reason)) sid r3)"

definition DetachPlayer :: "env \<Rightarrow> i32 \<Rightarrow> GameRoom \<Rightarrow> GameRoom" where
  "DetachPlayer e sid r =
     (case GetPlayerSession r sid of None \<Rightarrow> r
      | Some s \<Rightarrow>
          let r1 = mod_session sid (\<lambda>x. (EndRecall x)\<lparr>ps_sessionState :=
                     (if ps_leaveReason s = LR_DEAD then SS_SPECTATING else SS_LEFT)\<rparr>) r;
              r2 = ReleaseInteractingContainer sid r1;
              r3 = ReleaseNpcAuthority e (ps_objectId s) r2;
              r4 = (case (if ps_objectId s \<noteq> - 1 then FindPlayerObject r3 (to_u32 (ps_objectId s)) else None) of
                      None \<Rightarrow> r3 | Some p \<Rightarrow> detach_object e sid s p r3);
              r5 = mod_session sid (\<lambda>x. (SetObjectId (- 1) x)\<lparr>ps_leaveState := LS_DETACHED\<rparr>) r4
          in notify_session sid r5)"

definition dead_object_ids :: "GameRoom \<Rightarrow> u32 list" where
  "dead_object_ids r = map fst (filter (\<lambda>(oid, p). deathPending p) (gr_playerObjects r))"

definition mark_dead :: "env \<Rightarrow> u32 \<Rightarrow> GameRoom \<Rightarrow> GameRoom" where
  "mark_dead e oid r =
     (case FindSessionByObjectId r (to_i32 oid) of None \<Rightarrow> r | Some sid \<Rightarrow> mark_session e LR_DEAD 0 sid r)"

definition clear_pending :: "GameRoom \<Rightarrow> GameRoom" where
  "clear_pending r = r\<lparr>gr_playerSessions :=
     map (\<lambda>(sid, s). (sid, if ps_leaveState s = LS_PENDING
                            then ClearPendingReliableExcept (ps_leaveNotifyRSeq s) s else s)) (gr_playerSessions r)\<rparr>"

text \<open>One iteration of the last loop of \<open>ProcessLeaves\<close>.\<close>

definition leave_session :: "env \<Rightarrow> int \<Rightarrow> i32 \<Rightarrow> GameRoom \<Rightarrow> GameRoom" where
  "leave_session e now sid r =
     (let r1 = (case GetPlayerSession r sid of
                  Some s \<Rightarrow> if ps_leaveState s = LS_PENDING then DetachPlayer e sid r else r
                | None \<Rightarrow> r)
      in case GetPlayerSession r1 sid of
           Some s \<Rightarrow> if ps_leaveState s = LS_DETACHED \<and> IsFinalizeReady s now then finalize_session sid r1 else r1
         | None \<Rightarrow> r1)"

definition CheckAllLeft :: "GameRoom \<Rightarrow> GameRoom" where
  "CheckAllLeft r =
     (if gr_allLeftReported r then r
      else if \<exists>x\<in>set (gr_playerSessions r). ps_leaveState (snd x) \<noteq> LS_FINALIZED then r
      else emit [EffReserveRoomDestroy (gr_roomId r)] (r\<lparr>gr_allLeftReported := True\<rparr>))"

definition ProcessLeaves :: "env \<Rightarrow> GameRoom \<Rightarrow> GameRoom" where
  "ProcessLeaves e r =
     (let (now, r0) = read_clock e r;
          r1 = (if \<not> gr_lifetimeExpired r0 \<and> ROOM_LIFETIME_MS \<le> ElapsedMs (gr_createdAt r0) now
                then AllKill e (r0\<lparr>gr_lifetimeExpired := True\<rparr>) else r0);
          r2 = fold (mark_dead e) (dead_object_ids r1) r1;
          r3 = DetectDisconnectedSessions e r2;
          r4 = clear_pending r3;
          r5 = fold (leave_session e now) (hm_keys (gr_playerSessions r4)) r4
      in CheckAllLeft r5)"

section \<open>What sending leaves unchanged\<close>

text \<open>
  The core of a session leaves out what sending a packet changes; the core of a room has the
  cores of its sessions and nothing of the outbox and the clock. \<open>quiet\<close> relates two rooms
  with the same core where only UDP packets have been sent in between.
\<close>

definition core :: "PlayerSession \<Rightarrow> PlayerSession" where
  "core s = s\<lparr>ps_sendRSeq := 0, ps_sendUSeq := 0, ps_pendingReliable := []\<rparr>"

definition core_sessions :: "(i32, PlayerSession) hmap \<Rightarrow> (i32, PlayerSession) hmap" where
  "core_sessions m = map (\<lambda>(k, s). (k, core s)) m"

definition room_core :: "GameRoom \<Rightarrow> GameRoom" where
  "room_core r = r\<lparr>gr_playerSessions := core_sessions (gr_playerSessions r), gr_outbox := [], gr_reads := 0,
     gr_thrown := False\<rparr>"

fun is_udp :: "Effect \<Rightarrow> bool" where
  "is_udp (EffUdp b a) = True"
| "is_udp _ = False"

definition quiet :: "GameRoom \<Rightarrow> GameRoom \<Rightarrow> bool" where
  "quiet r r' \<longleftrightarrow> room_core r' = room_core r \<and> (\<exists>es. gr_outbox r' = gr_outbox r @ es \<and> list_all is_udp es)"

lemma quiet_refl [simp]: "quiet r r"
  by (simp add: quiet_def)

lemma quiet_trans: "quiet r r' \<Longrightarrow> quiet r' r'' \<Longrightarrow> quiet r r''"
  by (auto simp: quiet_def)

lemma quiet_fold: "(\<And>x r. quiet r (f x r)) \<Longrightarrow> quiet r (fold f xs r)"
  by (induction xs arbitrary: r) (auto intro: quiet_trans)

lemma core_core [simp]: "core (core s) = core s"
  by (simp add: core_def)

lemma core_Make [simp]: "core (fst (MakeD2CPacketImpl e now msg s)) = core s"
  by (auto simp: MakeD2CPacketImpl_def core_def NextSendRSeq_def NextSendUSeq_def GetAckState_def
      RegisterReliable_def Let_def split: prod.splits)

lemma core_sessions_mod:
  "(\<And>s. core (f s) = core s) \<Longrightarrow> core_sessions (hm_mod k f m) = core_sessions m"
  by (simp add: core_sessions_def hm_mod_def case_prod_beta' o_def)

lemma room_core_mod_session: "(\<And>s. core (f s) = core s) \<Longrightarrow> room_core (mod_session sid f r) = room_core r"
  by (simp add: room_core_def mod_session_def core_sessions_mod)

lemma room_core_frame [simp]:
  "room_core (emit es r) = room_core r" "room_core (r\<lparr>gr_reads := n\<rparr>) = room_core r"
  "room_core (r\<lparr>gr_thrown := b\<rparr>) = room_core r" "room_core (r\<lparr>gr_outbox := x\<rparr>) = room_core r"
  by (simp_all add: room_core_def emit_def)

lemma send_to_quiet: "quiet r (send_to e sid msg r)"
proof (cases "GetPlayerSession r sid")
  case (Some s)
  then show ?thesis
    by (auto simp: send_to_def quiet_def read_clock_def room_core_mod_session)
      (simp_all add: emit_def mod_session_def)
qed (simp add: send_to_def)

lemma BroadcastExcept_quiet: "quiet r (BroadcastExcept e msg x r)"
  unfolding BroadcastExcept_def by (rule quiet_fold) (simp add: send_to_quiet split: option.split)

lemma Broadcast_quiet: "quiet r (Broadcast e msg r)"
  by (simp add: Broadcast_def BroadcastExcept_quiet)

lemma NotifyNpcAuthority_quiet: "quiet r (NotifyNpcAuthority e n r)"
  by (simp add: NotifyNpcAuthority_def Broadcast_quiet)

lemma quiet_objects:
  assumes "quiet r r'"
  shows "gr_staticObjects r' = gr_staticObjects r" "gr_dynamicObjects r' = gr_dynamicObjects r"
    "gr_playerObjects r' = gr_playerObjects r" "gr_nxtObjectId r' = gr_nxtObjectId r"
    "gr_roomId r' = gr_roomId r" "gr_allLeftReported r' = gr_allLeftReported r"
    "gr_recallZones r' = gr_recallZones r"
    "core_sessions (gr_playerSessions r') = core_sessions (gr_playerSessions r)"
proof -
  have c: "room_core r' = room_core r" using assms by (simp add: quiet_def)
  show "gr_staticObjects r' = gr_staticObjects r" "gr_dynamicObjects r' = gr_dynamicObjects r"
    "gr_playerObjects r' = gr_playerObjects r" "gr_nxtObjectId r' = gr_nxtObjectId r"
    "gr_roomId r' = gr_roomId r" "gr_allLeftReported r' = gr_allLeftReported r"
    "gr_recallZones r' = gr_recallZones r"
    "core_sessions (gr_playerSessions r') = core_sessions (gr_playerSessions r)"
    using arg_cong [OF c, of gr_staticObjects] arg_cong [OF c, of gr_dynamicObjects]
      arg_cong [OF c, of gr_playerObjects] arg_cong [OF c, of gr_nxtObjectId] arg_cong [OF c, of gr_roomId]
      arg_cong [OF c, of gr_allLeftReported] arg_cong [OF c, of gr_recallZones] arg_cong [OF c, of gr_playerSessions]
    by (simp_all add: room_core_def)
qed

section \<open>Relating sessions before and after\<close>

text \<open>
  \<open>sess_rel R\<close>: the same session ids in the same order, and \<open>R\<close> between the two states of
  each session.
\<close>

definition sess_rel :: "(PlayerSession \<Rightarrow> PlayerSession \<Rightarrow> bool) \<Rightarrow> GameRoom \<Rightarrow> GameRoom \<Rightarrow> bool" where
  "sess_rel R r r' \<longleftrightarrow>
     list_all2 (\<lambda>a b. fst a = fst b \<and> R (snd a) (snd b)) (gr_playerSessions r) (gr_playerSessions r')"

definition room_hm_ok :: "GameRoom \<Rightarrow> bool" where
  "room_hm_ok r \<longleftrightarrow> hm_ok (gr_playerSessions r)"

lemma sess_rel_refl: "(\<And>s. R s s) \<Longrightarrow> gr_playerSessions r' = gr_playerSessions r \<Longrightarrow> sess_rel R r r'"
  by (simp add: sess_rel_def list_all2_refl)

lemma sess_rel_trans:
  assumes "\<And>a b c. R a b \<Longrightarrow> R b c \<Longrightarrow> R a c" "sess_rel R r r'" "sess_rel R r' r''"
  shows "sess_rel R r r''"
  using assms(2,3) unfolding sess_rel_def by (rule list_all2_trans [rotated 1]) (use assms(1) in auto)

lemma sess_rel_keys: "sess_rel R r r' \<Longrightarrow> hm_keys (gr_playerSessions r') = hm_keys (gr_playerSessions r)"
  unfolding sess_rel_def hm_keys_def
  by (induction rule: list_all2_induct) auto

lemma sess_rel_ok: "sess_rel R r r' \<Longrightarrow> room_hm_ok r' = room_hm_ok r"
  by (simp add: room_hm_ok_def hm_ok_def sess_rel_keys)

lemma sess_rel_find:
  assumes "sess_rel R r r'" "GetPlayerSession r sid = Some s"
  obtains s' where "GetPlayerSession r' sid = Some s'" "R s s'"
proof -
  have "list_all2 (\<lambda>a b. fst a = fst b \<and> R (snd a) (snd b)) m m' \<Longrightarrow> map_of m sid = Some s \<Longrightarrow>
      \<exists>s'. map_of m' sid = Some s' \<and> R s s'" for m m'
    by (induction rule: list_all2_induct) (auto split: if_splits)
  then show thesis using assms that by (auto simp: sess_rel_def GetPlayerSession_def hm_find_def)
qed

lemma quiet_sess_rel:
  assumes "quiet r r'" "\<And>s s'. core s' = core s \<Longrightarrow> R s s'"
  shows "sess_rel R r r'"
proof -
  have "map (\<lambda>(k, s). (k, core s)) m' = map (\<lambda>(k, s). (k, core s)) m \<Longrightarrow>
      list_all2 (\<lambda>a b. fst a = fst b \<and> R (snd a) (snd b)) m m'" for m m' :: "(i32, PlayerSession) hmap"
  proof (induction m arbitrary: m')
    case (Cons a m)
    then show ?case using assms(2) by (cases m') (auto split: prod.splits)
  qed simp
  then show ?thesis using quiet_objects(8) [OF assms(1)] by (simp add: sess_rel_def core_sessions_def)
qed

lemma mod_session_rel:
  assumes "room_hm_ok r" "\<And>s. R s s" "\<And>s. GetPlayerSession r sid = Some s \<Longrightarrow> R s (f s)"
  shows "sess_rel R r (mod_session sid f r)"
proof -
  have "list_all2 (\<lambda>a b. fst a = fst b \<and> R (snd a) (snd b)) m (hm_mod sid f m)"
    if "\<And>s. (sid, s) \<in> set m \<Longrightarrow> R s (f s)" for m
    using that assms(2) by (induction m) (auto simp: hm_mod_def)
  moreover have "R s (f s)" if "(sid, s) \<in> set (gr_playerSessions r)" for s
    using that assms(1,3) by (auto simp: room_hm_ok_def GetPlayerSession_def hm_find_iff)
  ultimately show ?thesis by (simp add: sess_rel_def mod_session_def)
qed

section \<open>The leave protocol of a room\<close>

text \<open>
  The abstraction of a room for its leave protocol: the leave view of every session and the
  number of notifications sent to the main process. \<open>room_leave\<close> moves one session by one
  step of the protocol.
\<close>

definition lv :: "GameRoom \<Rightarrow> (i32, leave_view) hmap" where
  "lv r = map (\<lambda>(k, s). (k, leave_view_of s)) (gr_playerSessions r)"

definition nc :: "GameRoom \<Rightarrow> nat" where
  "nc r = notify_count (gr_outbox r)"

definition abs_leave :: "GameRoom \<Rightarrow> (i32, leave_view) hmap \<times> nat" where
  "abs_leave r = (lv r, nc r)"

inductive room_leave :: "(i32, leave_view) hmap \<times> nat \<Rightarrow> (i32, leave_view) hmap \<times> nat \<Rightarrow> bool" where
  "hm_find m sid = Some v \<Longrightarrow> leave_step v k v' \<Longrightarrow> room_leave (m, c) (hm_mod sid (\<lambda>_. v') m, c + k)"

inductive_cases room_leaveE: "room_leave a b"

lemma map_of_lv: "map_of (map (\<lambda>(k, s). (k, f s)) m) sid = map_option f (map_of m sid)"
  by (induction m) auto

lemma find_lv: "hm_find (lv r) sid = map_option leave_view_of (GetPlayerSession r sid)"
  by (simp add: lv_def hm_find_def GetPlayerSession_def map_of_lv)

lemma keys_lv [simp]: "hm_keys (lv r) = hm_keys (gr_playerSessions r)"
  by (simp add: lv_def hm_keys_def case_prod_beta' o_def)

lemma core_view: "core s' = core s \<Longrightarrow> leave_view_of s' = leave_view_of s"
proof -
  assume c: "core s' = core s"
  show ?thesis
    using arg_cong [OF c, of ps_leaveState] arg_cong [OF c, of ps_leaveReason] arg_cong [OF c, of ps_leftNotified]
    by (simp add: core_def leave_view_of_def)
qed

lemma lv_core_sessions: "lv r = map (\<lambda>(k, s). (k, leave_view_of s)) (core_sessions (gr_playerSessions r))"
  by (simp add: lv_def core_sessions_def case_prod_beta' o_def leave_view_of_def core_def)

lemma notify_count_udp: "list_all is_udp es \<Longrightarrow> notify_count es = 0"
  unfolding notify_count_def length_0_conv filter_empty_conv list_all_iff
  by (metis is_notify.elims(2) is_udp.simps(2))

lemma quiet_abs: "quiet r r' \<Longrightarrow> abs_leave r' = abs_leave r"
  using quiet_objects(8) [of r r']
  by (auto simp: abs_leave_def lv_core_sessions nc_def quiet_def notify_count_udp)

lemma lv_mod:
  assumes "room_hm_ok r" "\<And>s. GetPlayerSession r sid = Some s \<Longrightarrow> leave_view_of (f s) = g (leave_view_of s)"
  shows "lv (mod_session sid f r) = hm_mod sid g (lv r)"
proof -
  have "leave_view_of (f s) = g (leave_view_of s)" if "(sid, s) \<in> set (gr_playerSessions r)" for s
    using that assms by (auto simp: room_hm_ok_def GetPlayerSession_def hm_find_iff)
  then show ?thesis by (auto simp: lv_def mod_session_def hm_mod_def)
qed

lemma lv_mod_same:
  "(\<And>s. leave_view_of (f s) = leave_view_of s) \<Longrightarrow> lv (mod_session sid f r) = lv r"
  by (auto simp: lv_def mod_session_def hm_mod_def)

lemma lv_frame [simp]:
  "lv (emit es r) = lv r" "lv (r\<lparr>gr_reads := n\<rparr>) = lv r" "lv (r\<lparr>gr_thrown := b\<rparr>) = lv r"
  "lv (r\<lparr>gr_staticObjects := x\<rparr>) = lv r" "lv (r\<lparr>gr_dynamicObjects := x\<rparr>) = lv r"
  "lv (r\<lparr>gr_playerObjects := y\<rparr>) = lv r" "lv (r\<lparr>gr_nxtObjectId := z\<rparr>) = lv r"
  "lv (r\<lparr>gr_lifetimeExpired := b\<rparr>) = lv r" "lv (r\<lparr>gr_allLeftReported := b\<rparr>) = lv r"
  "lv (mod_container oid cf r) = lv r" "lv (mod_npc oid nf r) = lv r" "lv (mod_player oid pf r) = lv r"
  "lv (RemovePlayerObject oid r) = lv r"
  by (simp_all add: lv_def emit_def mod_container_def mod_npc_def mod_nonplayer_def mod_player_def RemovePlayerObject_def)

lemma nc_frame [simp]:
  "nc (emit es r) = nc r + notify_count es" "nc (r\<lparr>gr_reads := n\<rparr>) = nc r" "nc (r\<lparr>gr_thrown := b\<rparr>) = nc r"
  "nc (r\<lparr>gr_staticObjects := x\<rparr>) = nc r" "nc (r\<lparr>gr_dynamicObjects := x\<rparr>) = nc r"
  "nc (r\<lparr>gr_playerObjects := y\<rparr>) = nc r" "nc (r\<lparr>gr_nxtObjectId := z\<rparr>) = nc r"
  "nc (r\<lparr>gr_lifetimeExpired := b\<rparr>) = nc r" "nc (r\<lparr>gr_allLeftReported := b\<rparr>) = nc r"
  "nc (mod_container oid cf r) = nc r" "nc (mod_npc oid nf r) = nc r" "nc (mod_player oid pf r) = nc r"
  "nc (mod_session sid sf r) = nc r" "nc (RemovePlayerObject oid r) = nc r"
  by (simp_all add: nc_def emit_def mod_container_def mod_npc_def mod_nonplayer_def mod_player_def
      mod_session_def RemovePlayerObject_def)

lemma quiet_lv_nc: "quiet r r' \<Longrightarrow> lv r' = lv r" "quiet r r' \<Longrightarrow> nc r' = nc r"
  using quiet_abs [of r r'] by (simp_all add: abs_leave_def)

lemma fold_keep: "(\<And>x r. P (f x r) = P r) \<Longrightarrow> P (fold f xs r) = P r"
  by (induction xs arbitrary: r) auto

lemma SetInteracting_view [simp]: "leave_view_of (SetInteractingContainerId i s) = leave_view_of s"
  by (simp add: SetInteractingContainerId_def leave_view_of_def)

lemma Release_abs [simp]:
  "lv (ReleaseInteractingContainer sid r) = lv r" "nc (ReleaseInteractingContainer sid r) = nc r"
  by (simp_all add: ReleaseInteractingContainer_def Let_def lv_mod_same split: option.split)

lemma ReleaseNpc_abs [simp]:
  "lv (ReleaseNpcAuthority e oid r) = lv r" "nc (ReleaseNpcAuthority e oid r) = nc r"
  by (auto simp: ReleaseNpcAuthority_def Let_def quiet_lv_nc [OF NotifyNpcAuthority_quiet]
      split: option.split prod.splits intro!: fold_keep)

lemma SpawnDynamic_abs [simp]:
  "lv (SpawnDynamicObject e x r) = lv r" "nc (SpawnDynamicObject e x r) = nc r"
  by (simp_all add: SpawnDynamicObject_def NotifySpawnObject_def quiet_lv_nc [OF Broadcast_quiet])

lemma Loot_abs [simp]:
  "lv (SpawnPlayerLootContainer e p iv r) = lv r" "nc (SpawnPlayerLootContainer e p iv r) = nc r"
  by (simp_all add: SpawnPlayerLootContainer_def GetNewObjectId_def)

lemma detach_object_abs [simp]:
  "lv (detach_object e sid s p r) = lv r" "nc (detach_object e sid s p r) = nc r"
  by (simp_all add: detach_object_def Let_def quiet_lv_nc [OF Broadcast_quiet] quiet_lv_nc [OF BroadcastExcept_quiet]
      lv_mod_same leave_view_of_def set_inventory_def)

lemma room_hm_ok_lv: "room_hm_ok r = hm_ok (lv r)"
  by (simp add: room_hm_ok_def hm_ok_def)

lemma hm_mod_hm_mod [simp]: "hm_mod k f (hm_mod k g m) = hm_mod k (f \<circ> g) m"
  by (simp add: hm_mod_def case_prod_beta' o_def)

lemma hm_mod_const:
  "hm_ok m \<Longrightarrow> hm_find m k = Some v \<Longrightarrow> hm_mod k g m = hm_mod k (\<lambda>_. g v) m"
  by (auto simp: hm_mod_def hm_find_iff hm_ok_def hm_keys_def dest: eq_key_imp_eq_value)

lemma hm_mod_same: "hm_ok m \<Longrightarrow> hm_find m k = Some v \<Longrightarrow> hm_mod k (\<lambda>_. v) m = m"
  unfolding hm_mod_def by (rule map_idI) (auto simp: hm_find_iff hm_ok_def hm_keys_def dest: eq_key_imp_eq_value)

lemma notify_session_abs:
  assumes "room_hm_ok r" "GetPlayerSession r sid = Some s"
  shows "lv (notify_session sid r) = hm_mod sid (\<lambda>(st, re, n). (st, re, True)) (lv r)"
    "nc (notify_session sid r) = nc r + (if ps_leftNotified s then 0 else 1)"
  using assms(2) NotifyLeftOnce_view [OF prod.collapse [symmetric]]
  by (auto simp: notify_session_def leave_view_of_def intro!: lv_mod [OF assms(1)])

definition detached_view :: "leave_view \<Rightarrow> leave_view" where
  "detached_view = (\<lambda>(st, re, n). (LS_DETACHED, re, True))"

definition finalized_view :: "leave_view \<Rightarrow> leave_view" where
  "finalized_view = (\<lambda>(st, re, n). (LS_FINALIZED, re, True))"

lemma DetachPlayer_abs:
  assumes ok: "room_hm_ok r" and s: "GetPlayerSession r sid = Some s"
  shows "lv (DetachPlayer e sid r) = hm_mod sid detached_view (lv r)"
    "nc (DetachPlayer e sid r) = nc r + (if ps_leftNotified s then 0 else 1)"
proof -
  define r1 where "r1 = mod_session sid (\<lambda>x. (EndRecall x)\<lparr>ps_sessionState :=
                     (if ps_leaveReason s = LR_DEAD then SS_SPECTATING else SS_LEFT)\<rparr>) r"
  define r3 where "r3 = ReleaseNpcAuthority e (ps_objectId s) (ReleaseInteractingContainer sid r1)"
  define r4 where "r4 = (case (if ps_objectId s \<noteq> - 1 then FindPlayerObject r3 (to_u32 (ps_objectId s)) else None) of
                      None \<Rightarrow> r3 | Some p \<Rightarrow> detach_object e sid s p r3)"
  define r5 where "r5 = mod_session sid (\<lambda>x. (SetObjectId (- 1) x)\<lparr>ps_leaveState := LS_DETACHED\<rparr>) r4"
  have D: "DetachPlayer e sid r = notify_session sid r5"
    unfolding r5_def r4_def r3_def r1_def by (simp only: DetachPlayer_def s option.case Let_def)
  have "lv r1 = lv r" "nc r1 = nc r"
    by (simp_all add: r1_def lv_mod_same leave_view_of_def EndRecall_def)
  then have a: "lv r4 = lv r" "nc r4 = nc r"
    by (auto simp: r4_def r3_def split: option.split)
  have ok4: "room_hm_ok r4" using ok a by (simp add: room_hm_ok_lv)
  have l5: "lv r5 = hm_mod sid (\<lambda>(st, re, n). (LS_DETACHED, re, n)) (lv r)" "nc r5 = nc r"
    unfolding r5_def by (subst lv_mod [OF ok4]) (auto simp: leave_view_of_def SetObjectId_def a)
  have ok5: "room_hm_ok r5" using ok l5 by (simp add: room_hm_ok_lv)
  have "hm_find (lv r5) sid = Some (LS_DETACHED, ps_leaveReason s, ps_leftNotified s)"
    using ok s by (auto simp: l5 room_hm_ok_lv hm_find_mod find_lv leave_view_of_def)
  then obtain s5 where s5: "GetPlayerSession r5 sid = Some s5" "ps_leftNotified s5 = ps_leftNotified s"
    by (auto simp: find_lv leave_view_of_def)
  show "lv (DetachPlayer e sid r) = hm_mod sid detached_view (lv r)"
    "nc (DetachPlayer e sid r) = nc r + (if ps_leftNotified s then 0 else 1)"
    using notify_session_abs [OF ok5 s5(1)]
    by (simp_all add: D l5 s5(2) detached_view_def o_def case_prod_beta')
qed

lemma finalize_session_abs:
  assumes ok: "room_hm_ok r" and s: "GetPlayerSession r sid = Some s"
  shows "lv (finalize_session sid r) = hm_mod sid finalized_view (lv r)"
    "nc (finalize_session sid r) = nc r + (if ps_leftNotified s then 0 else 1)"
proof -
  have v: "leave_view_of (fst (FinalizeLeave x)) = finalized_view (leave_view_of x)"
    "notify_count (snd (FinalizeLeave x)) = (if ps_leftNotified x then 0 else 1)" for x
    by (auto simp: FinalizeLeave_def NotifyLeftOnce_def Let_def leave_view_of_def finalized_view_def
        ClearPendingReliableExcept_def)
  show "lv (finalize_session sid r) = hm_mod sid finalized_view (lv r)"
    "nc (finalize_session sid r) = nc r + (if ps_leftNotified s then 0 else 1)"
    using s by (auto simp: finalize_session_def v intro!: lv_mod [OF ok])
qed

lemma room_leave_modI:
  assumes "hm_ok (lv r)" "GetPlayerSession r sid = Some s" "leave_step (leave_view_of s) k (g (leave_view_of s))"
    "lv r' = hm_mod sid g (lv r)" "nc r' = nc r + k"
  shows "room_leave (abs_leave r) (abs_leave r')"
proof -
  have "hm_find (lv r) sid = Some (leave_view_of s)" using assms(2) by (simp add: find_lv)
  from room_leave.intros [OF this assms(3), of "nc r"] show ?thesis
    using hm_mod_const [OF assms(1), of sid "leave_view_of s" g] assms(2,4,5)
    by (simp add: abs_leave_def find_lv)
qed

lemma mark_session_refines:
  assumes ok: "room_hm_ok r"
  shows "room_leave\<^sup>*\<^sup>* (abs_leave r) (abs_leave (mark_session e reason q sid r))"
proof (cases "GetPlayerSession r sid")
  case None
  then have "hm_mod sid g (gr_playerSessions r) = gr_playerSessions r" for g
    unfolding hm_mod_def
    by (intro map_idI) (auto simp: GetPlayerSession_def hm_find_None hm_keys_def rev_image_eqI)
  then show ?thesis by (simp add: mark_session_def read_clock_def abs_leave_def mod_session_def lv_def nc_def)
next
  case (Some s)
  have s: "GetPlayerSession (snd (read_clock e r)) sid = Some s"
    using Some by (simp add: read_clock_def GetPlayerSession_def)
  have ok': "room_hm_ok (snd (read_clock e r))" using ok by (simp add: read_clock_def room_hm_ok_def)
  let ?v = "leave_view_of (MarkLeaving reason q (fst (read_clock e r)) s)"
  have "lv (mark_session e reason q sid r) = hm_mod sid (\<lambda>_. ?v) (lv r)"
    using lv_mod [OF ok', of sid "MarkLeaving reason q (fst (read_clock e r))" "\<lambda>_. ?v"] s
    by (simp add: mark_session_def case_prod_beta' read_clock_def)
  moreover have "nc (mark_session e reason q sid r) = nc r"
    by (simp add: mark_session_def case_prod_beta' read_clock_def)
  ultimately have "room_leave (abs_leave r) (abs_leave (mark_session e reason q sid r))"
    using room_leave_modI [of r sid s 0 "\<lambda>_. ?v" "mark_session e reason q sid r"] ok Some
      MarkLeaving_refines [of s reason q "fst (read_clock e r)"] by (simp add: room_hm_ok_lv)
  then show ?thesis by blast
qed

lemma room_leave_keys: "room_leave\<^sup>*\<^sup>* a b \<Longrightarrow> hm_keys (fst b) = hm_keys (fst a)"
  by (induction rule: rtranclp_induct) (auto elim!: room_leaveE)

lemma refines_ok: "room_leave\<^sup>*\<^sup>* (abs_leave r) (abs_leave r') \<Longrightarrow> room_hm_ok r' = room_hm_ok r"
  using room_leave_keys [of "abs_leave r" "abs_leave r'"] by (simp add: abs_leave_def room_hm_ok_def hm_ok_def)

lemma fold_refines:
  assumes "\<And>x r. room_hm_ok r \<Longrightarrow> room_leave\<^sup>*\<^sup>* (abs_leave r) (abs_leave (f x r))" "room_hm_ok r"
  shows "room_leave\<^sup>*\<^sup>* (abs_leave r) (abs_leave (fold f xs r))"
  using assms(2)
proof (induction xs arbitrary: r)
  case (Cons x xs)
  have a: "room_leave\<^sup>*\<^sup>* (abs_leave r) (abs_leave (f x r))" by (rule assms(1) [OF Cons.prems])
  with Cons.IH [of "f x r"] Cons.prems show ?case by (auto simp: refines_ok intro: rtranclp_trans)
qed simp

lemma read_clock_abs [simp]: "abs_leave (snd (read_clock e r)) = abs_leave r"
  by (simp add: read_clock_def abs_leave_def)

lemma read_clock_ok [simp]: "room_hm_ok (snd (read_clock e r)) = room_hm_ok r"
  by (simp add: read_clock_def room_hm_ok_def)

lemma hm_mod_id [simp]: "hm_mod k id m = m"
  unfolding hm_mod_def by (rule map_idI) auto

lemma leave_session_cases:
  assumes ok: "room_hm_ok r"
  shows "room_leave\<^sup>*\<^sup>* (abs_leave r) (abs_leave (leave_session e now sid r)) \<and>
    (\<exists>g. lv (leave_session e now sid r) = hm_mod sid g (lv r) \<and>
         (\<forall>v. hm_find (lv r) sid = Some v \<longrightarrow> fst (g v) \<noteq> LS_PENDING))"
proof (cases "GetPlayerSession r sid")
  case None
  have "hm_mod sid id (lv r) = lv r" by (rule hm_mod_id)
  then show ?thesis using None by (auto simp: leave_session_def find_lv intro: exI [of _ id])
next
  case (Some s)
  define r1 where "r1 = (if ps_leaveState s = LS_PENDING then DetachPlayer e sid r else r)"
  define g1 where "g1 = (if ps_leaveState s = LS_PENDING then detached_view else id)"
  have l1: "lv r1 = hm_mod sid g1 (lv r)"
    using DetachPlayer_abs(1) [OF ok Some, of e] by (simp add: r1_def g1_def)
  have s1: "room_leave\<^sup>*\<^sup>* (abs_leave r) (abs_leave r1)"
  proof (cases "ps_leaveState s = LS_PENDING")
    case True
    have "leave_step (leave_view_of s) (if ps_leftNotified s then 0 else 1) (detached_view (leave_view_of s))"
      using True leave_step.detach by (auto simp: leave_view_of_def detached_view_def)
    then have "room_leave (abs_leave r) (abs_leave r1)"
      using DetachPlayer_abs [OF ok Some, of e] ok Some True
      by (intro room_leave_modI [of r sid s _ detached_view]) (simp_all add: r1_def room_hm_ok_lv)
    then show ?thesis by blast
  qed (simp add: r1_def)
  have ok1: "room_hm_ok r1" using refines_ok [OF s1] ok by simp
  have "hm_find (lv r1) sid = Some (g1 (leave_view_of s))"
    using ok Some by (simp add: l1 room_hm_ok_lv hm_find_mod find_lv)
  then obtain s' where s': "GetPlayerSession r1 sid = Some s'" "leave_view_of s' = g1 (leave_view_of s)"
    by (auto simp: find_lv)
  have np: "ps_leaveState s' \<noteq> LS_PENDING"
    using s'(2) by (auto simp: leave_view_of_def g1_def detached_view_def split: if_splits)
  have L: "leave_session e now sid r =
     (if ps_leaveState s' = LS_DETACHED \<and> IsFinalizeReady s' now then finalize_session sid r1 else r1)"
    by (simp add: leave_session_def Some r1_def [symmetric] s'(1) Let_def)
  show ?thesis
  proof (cases "ps_leaveState s' = LS_DETACHED \<and> IsFinalizeReady s' now")
    case True
    have "leave_step (leave_view_of s') (if ps_leftNotified s' then 0 else 1) (finalized_view (leave_view_of s'))"
      using True leave_step.final by (auto simp: leave_view_of_def finalized_view_def)
    then have "room_leave (abs_leave r1) (abs_leave (finalize_session sid r1))"
      using finalize_session_abs [OF ok1 s'(1)] ok1 s'(1)
      by (intro room_leave_modI [of r1 sid s' _ finalized_view]) (simp_all add: room_hm_ok_lv)
    moreover have "lv (finalize_session sid r1) = hm_mod sid (finalized_view \<circ> g1) (lv r)"
      using finalize_session_abs(1) [OF ok1 s'(1)] by (simp add: l1)
    moreover have "fst ((finalized_view \<circ> g1) v) \<noteq> LS_PENDING" for v
      by (simp add: finalized_view_def case_prod_beta')
    ultimately show ?thesis unfolding L if_P [OF True] using s1 by (meson rtranclp.rtrancl_into_rtrancl)
  next
    case False
    have "hm_find (lv r) sid = Some v \<Longrightarrow> fst (g1 v) \<noteq> LS_PENDING" for v
      using np arg_cong [OF s'(2), of fst] by (auto simp: find_lv Some) (simp add: leave_view_of_def)
    then show ?thesis unfolding L if_not_P [OF False] using s1 l1 by blast
  qed
qed

lemma clear_pending_abs [simp]: "abs_leave (clear_pending r) = abs_leave r"
  by (auto simp: abs_leave_def lv_def nc_def clear_pending_def leave_view_of_def ClearPendingReliableExcept_def
      split: if_splits)

lemma CheckAllLeft_abs [simp]: "abs_leave (CheckAllLeft r) = abs_leave r"
  by (simp add: CheckAllLeft_def abs_leave_def)

lemma AllKill_refines: "room_hm_ok r \<Longrightarrow> room_leave\<^sup>*\<^sup>* (abs_leave r) (abs_leave (AllKill e r))"
  unfolding AllKill_def by (rule fold_refines [OF mark_session_refines])

lemma mark_dead_refines: "room_hm_ok r \<Longrightarrow> room_leave\<^sup>*\<^sup>* (abs_leave r) (abs_leave (mark_dead e oid r))"
  by (auto simp: mark_dead_def mark_session_refines split: option.split)

lemma Detect_refines: "room_hm_ok r \<Longrightarrow> room_leave\<^sup>*\<^sup>* (abs_leave r) (abs_leave (DetectDisconnectedSessions e r))"
  using fold_refines [of "\<lambda>sid r'. case GetPlayerSession r' sid of
                       Some s \<Rightarrow> if disconnected (ms_of (fst (read_clock e r))) s then mark_session e LR_DISCONNECTED 0 sid r' else r'
                     | None \<Rightarrow> r'" "snd (read_clock e r)"]
  by (simp add: DetectDisconnectedSessions_def Let_def case_prod_beta' mark_session_refines split: option.split)

text \<open>What \<open>ProcessLeaves\<close> does before its last loop.\<close>

definition pl_marked :: "env \<Rightarrow> GameRoom \<Rightarrow> GameRoom" where
  "pl_marked e r =
     (let (now, r0) = read_clock e r;
          r1 = (if \<not> gr_lifetimeExpired r0 \<and> ROOM_LIFETIME_MS \<le> ElapsedMs (gr_createdAt r0) now
                then AllKill e (r0\<lparr>gr_lifetimeExpired := True\<rparr>) else r0)
      in clear_pending (DetectDisconnectedSessions e (fold (mark_dead e) (dead_object_ids r1) r1)))"

lemma ProcessLeaves_alt:
  "ProcessLeaves e r = CheckAllLeft (fold (leave_session e (fst (read_clock e r)))
     (hm_keys (gr_playerSessions (pl_marked e r))) (pl_marked e r))"
  by (simp add: ProcessLeaves_def pl_marked_def Let_def case_prod_beta')

lemma pl_marked_refines:
  assumes ok: "room_hm_ok r"
  shows "room_leave\<^sup>*\<^sup>* (abs_leave r) (abs_leave (pl_marked e r))"
proof -
  let ?r0 = "snd (read_clock e r)" and ?now = "fst (read_clock e r)"
  let ?r1 = "if \<not> gr_lifetimeExpired ?r0 \<and> ROOM_LIFETIME_MS \<le> ElapsedMs (gr_createdAt ?r0) ?now
                then AllKill e (?r0\<lparr>gr_lifetimeExpired := True\<rparr>) else ?r0"
  have ok0: "room_hm_ok (?r0\<lparr>gr_lifetimeExpired := True\<rparr>)" using ok by (simp add: read_clock_def room_hm_ok_def)
  have "abs_leave (?r0\<lparr>gr_lifetimeExpired := True\<rparr>) = abs_leave r" by (simp add: read_clock_def abs_leave_def)
  then have a: "room_leave\<^sup>*\<^sup>* (abs_leave r) (abs_leave ?r1)" using AllKill_refines [OF ok0, of e] by simp
  then have ok1: "room_hm_ok ?r1" using refines_ok ok by blast
  have b: "room_leave\<^sup>*\<^sup>* (abs_leave ?r1) (abs_leave (fold (mark_dead e) (dead_object_ids ?r1) ?r1))"
    by (rule fold_refines [OF mark_dead_refines ok1])
  then have ok2: "room_hm_ok (fold (mark_dead e) (dead_object_ids ?r1) ?r1)" using refines_ok ok1 by blast
  show ?thesis unfolding pl_marked_def Let_def case_prod_beta' clear_pending_abs
    using a b Detect_refines [OF ok2] by (meson rtranclp_trans)
qed

text \<open>
  One call of \<open>ProcessLeaves\<close> is a run of the leave protocol of the room's
  sessions: every session only moves by protocol steps (marked, detached, finalized), and
  the number of notifications sent to the main process is the number the protocol sends.
\<close>

lemma ProcessLeaves_refines:
  assumes ok: "room_hm_ok r"
  shows "room_leave\<^sup>*\<^sup>* (abs_leave r) (abs_leave (ProcessLeaves e r))"
proof -
  have a: "room_leave\<^sup>*\<^sup>* (abs_leave r) (abs_leave (pl_marked e r))" by (rule pl_marked_refines [OF ok])
  then have "room_hm_ok (pl_marked e r)" using refines_ok ok by blast
  then have "room_leave\<^sup>*\<^sup>* (abs_leave (pl_marked e r)) (abs_leave (ProcessLeaves e r))"
    unfolding ProcessLeaves_alt CheckAllLeft_abs
    by (intro fold_refines) (use leave_session_cases in blast)+
  with a show ?thesis by (rule rtranclp_trans)
qed

text \<open>
  After \<open>ProcessLeaves\<close> no session is left pending: every session that has
  been marked is detached in the same call.
\<close>

lemma ProcessLeaves_no_pending:
  assumes ok: "room_hm_ok r"
  shows "\<forall>x \<in> set (gr_playerSessions (ProcessLeaves e r)). ps_leaveState (snd x) \<noteq> LS_PENDING"
proof -
  define np :: "i32 \<Rightarrow> GameRoom \<Rightarrow> bool" where
    "np = (\<lambda>sid r. \<forall>v. hm_find (lv r) sid = Some v \<longrightarrow> fst v \<noteq> LS_PENDING)"
  have F: "room_hm_ok r \<Longrightarrow> \<forall>k\<in>K. np k r \<Longrightarrow>
      room_hm_ok (fold (leave_session e now) xs r) \<and>
      (\<forall>k\<in>K \<union> set xs. np k (fold (leave_session e now) xs r))" for now xs K r
  proof (induction xs arbitrary: K r)
    case (Cons x xs)
    from leave_session_cases [OF Cons.prems(1), of e now x] obtain g where
      g: "lv (leave_session e now x r) = hm_mod x g (lv r)"
      "\<forall>v. hm_find (lv r) x = Some v \<longrightarrow> fst (g v) \<noteq> LS_PENDING"
      and ok': "room_hm_ok (leave_session e now x r)"
      using refines_ok Cons.prems(1) by blast
    have "\<forall>k\<in>insert x K. np k (leave_session e now x r)"
      using Cons.prems g by (auto simp: np_def room_hm_ok_lv hm_find_mod split: if_splits)
    from Cons.IH [OF ok' this] show ?case by simp
  qed simp
  let ?r = "pl_marked e r"
  have ok1: "room_hm_ok ?r" using refines_ok [OF pl_marked_refines [OF ok]] ok by blast
  let ?r' = "fold (leave_session e (fst (read_clock e r))) (hm_keys (gr_playerSessions ?r)) ?r"
  have F': "room_hm_ok ?r'" "\<forall>k\<in>set (hm_keys (gr_playerSessions ?r)). np k ?r'"
    using F [OF ok1, of "{}"] by auto
  have "room_leave\<^sup>*\<^sup>* (abs_leave ?r) (abs_leave ?r')"
    by (rule fold_refines [OF _ ok1]) (use leave_session_cases in blast)
  then have "hm_keys (lv ?r') = hm_keys (lv ?r)" using room_leave_keys by (fastforce simp: abs_leave_def)
  then have "np k ?r'" if "k \<in> set (hm_keys (gr_playerSessions ?r'))" for k
    using F'(2) that by simp
  then have "ps_leaveState s \<noteq> LS_PENDING" if "(k, s) \<in> set (gr_playerSessions ?r')" for k s
  proof -
    have "np k ?r'" using that \<open>\<And>k. k \<in> set (hm_keys (gr_playerSessions ?r')) \<Longrightarrow> np k ?r'\<close>
      by (force simp: hm_keys_def)
    moreover have "GetPlayerSession ?r' k = Some s"
      using that F'(1) by (simp add: GetPlayerSession_def room_hm_ok_def hm_find_iff)
    ultimately show ?thesis by (simp add: np_def find_lv leave_view_of_def)
  qed
  then show ?thesis unfolding ProcessLeaves_alt by (auto simp: CheckAllLeft_def emit_def)
qed

section \<open>Notifications are sent once\<close>

definition notified :: "(i32, leave_view) hmap \<Rightarrow> nat" where
  "notified m = length (filter (\<lambda>x. snd (snd (snd x))) m)"

lemma notified_Cons: "notified ((k, v) # m) = of_bool (snd (snd v)) + notified m"
  by (simp add: notified_def)

lemma hm_mod_Cons: "hm_mod sid f ((k, v) # m) = (k, if k = sid then f v else v) # hm_mod sid f m"
  by (simp add: hm_mod_def)

lemma notified_mod:
  "distinct (map fst m) \<Longrightarrow> map_of m sid = Some v \<Longrightarrow>
   notified (hm_mod sid (\<lambda>_. v') m) + of_bool (snd (snd v)) = notified m + of_bool (snd (snd v'))"
proof (induction m)
  case (Cons a m)
  obtain k w where a: "a = (k, w)" by (cases a)
  have "k = sid \<Longrightarrow> hm_mod sid (\<lambda>_. v') m = m"
    using Cons.prems a unfolding hm_mod_def by (intro map_idI) (auto simp: rev_image_eqI)
  then show ?case using Cons by (auto simp: a notified_Cons hm_mod_Cons)
qed simp

lemma room_leave_notified:
  "room_leave\<^sup>*\<^sup>* a b \<Longrightarrow> hm_ok (fst a) \<Longrightarrow> snd b + notified (fst a) = snd a + notified (fst b)"
proof (induction rule: rtranclp_induct)
  case (step b c)
  have ok: "hm_ok (fst b)" using room_leave_keys [OF step.hyps(1)] step.prems by (simp add: hm_ok_def)
  from step.hyps(2) obtain m sid v k v' n where
    b: "b = (m, n)" "c = (hm_mod sid (\<lambda>_. v') m, n + k)" "hm_find m sid = Some v" "leave_step v k v'"
    by (auto elim!: room_leaveE)
  have "notified (hm_mod sid (\<lambda>_. v') m) + of_bool (snd (snd v)) = notified m + of_bool (snd (snd v'))"
    using notified_mod [of m sid v v'] ok b(1,3) by (simp add: hm_ok_def hm_keys_def hm_find_def)
  moreover have "k + of_bool (snd (snd v)) = of_bool (snd (snd v'))"
    using leave_step_notify [OF b(4)] by (simp add: of_bool_def)
  ultimately show ?case using step.IH [OF step.prems] b(1,2) by simp
qed simp

lemma room_leave_view:
  "room_leave\<^sup>*\<^sup>* a b \<Longrightarrow> hm_ok (fst a) \<Longrightarrow> hm_find (fst a) sid = Some v \<Longrightarrow>
     \<exists>v' k. hm_find (fst b) sid = Some v' \<and> leave_run v k v'"
proof (induction rule: rtranclp_induct)
  case base
  then show ?case using leave_run.done_run by blast
next
  case (step b c)
  have ok: "hm_ok (fst b)" using room_leave_keys [OF step.hyps(1)] step.prems by (simp add: hm_ok_def)
  from step.IH step.prems obtain w k where w: "hm_find (fst b) sid = Some w" "leave_run v k w" by blast
  from step.hyps(2) obtain m sid' u j u' n where
    b: "b = (m, n)" "c = (hm_mod sid' (\<lambda>_. u') m, n + j)" "hm_find m sid' = Some u" "leave_step u j u'"
    by (auto elim!: room_leaveE)
  show ?case
  proof (cases "sid' = sid")
    case True
    then show ?thesis using w b ok leave_run.more [OF w(2), of j u'] by (auto simp: hm_find_mod)
  next
    case False
    then show ?thesis using w b ok by (auto simp: hm_find_mod)
  qed
qed

end
