(* ===== verification/RoomInit.thy ===== *)
theory RoomInit
  imports GameRoom
begin

text \<open>
  The two kinds of rooms of \<open>src/DedicateProcess/GameRoom.h\<close> and \<open>GameRoom.cpp\<close>:
  construction of a \<open>TestGameRoom\<close> and of a \<open>TenerifeGameRoom\<close> with its containers, turrets
  and random loot. The random engine is not modelled: \<open>rng n lo hi\<close> is the \<open>n\<close>-th number
  drawn, from the uniform distribution on \<open>lo..hi\<close>.
\<close>

type_synonym rng = "nat \<Rightarrow> int \<Rightarrow> int \<Rightarrow> int"

text \<open>What \<open>std::uniform_int_distribution\<close> documents: a draw lies in the closed range.\<close>

definition rng_ok :: "rng \<Rightarrow> bool" where
  "rng_ok rng \<longleftrightarrow> (\<forall>n lo hi. lo \<le> hi \<longrightarrow> lo \<le> rng n lo hi \<and> rng n lo hi \<le> hi)"

definition vec :: "rat \<Rightarrow> rat \<Rightarrow> rat \<Rightarrow> Vector3" where
  "vec x y z = \<lparr>vx = flit x, vy = flit y, vz = flit z\<rparr>"

section \<open>Test room\<close>

definition InitTestGameRoom :: "env \<Rightarrow> GameRoom \<Rightarrow> GameRoom" where
  "InitTestGameRoom e r =
     (let (oid, r1) = GetNewObjectId r
      in SpawnStaticObject e (ContainerObj (MakeTestItemBox oid (vec 0 0 0))) r1)"

definition MakeTestGameRoom :: "env \<Rightarrow> i32 \<Rightarrow> int \<Rightarrow> GameRoom" where
  "MakeTestGameRoom e roomId now =
     InitTestGameRoom e (MakeGameRoom roomId MAP_TUTORIAL
       [vec 10 0 0, vec (- 10) 0 0, vec 0 0 10, vec 0 0 (- 10)] now)"

text \<open>\<open>SetSpawnSpot\<close>, the same in both kinds of rooms. The spot list is never empty.\<close>

definition SetSpawnSpot :: "GameRoom \<Rightarrow> Vector3 \<times> GameRoom" where
  "SetSpawnSpot r =
     (gr_spawnSpots r ! unat (gr_spawnSpotIndex r),
      r\<lparr>gr_spawnSpotIndex := (gr_spawnSpotIndex r + 1) mod of_nat (length (gr_spawnSpots r))\<rparr>)"

section \<open>Loot\<close>

definition swap_at :: "nat \<Rightarrow> nat \<Rightarrow> 'a list \<Rightarrow> 'a list" where
  "swap_at i j xs = xs[i := xs ! j, j := xs ! i]"

fun shuffle_loop :: "rng \<Rightarrow> nat \<Rightarrow> nat \<Rightarrow> nat list \<Rightarrow> nat \<Rightarrow> nat list \<times> nat" where
  "shuffle_loop rng 0 i xs n = (xs, n)"
| "shuffle_loop rng (Suc k) i xs n =
     shuffle_loop rng k (Suc i) (swap_at i (nat (rng n (int i) (int (length xs) - 1))) xs) (Suc n)"

definition PartialShuffle :: "rng \<Rightarrow> nat list \<Rightarrow> nat \<Rightarrow> nat \<Rightarrow> nat list \<times> nat" where
  "PartialShuffle rng indices pickCount n = shuffle_loop rng pickCount 0 indices n"

text \<open>
  \<open>PlaceInitialLoot\<close> on the container with id \<open>oid\<close>, with the next world item uid.
\<close>

definition place_loot :: "u32 \<Rightarrow> u32 \<Rightarrow> i32 \<Rightarrow> GameRoom \<Rightarrow> GameRoom" where
  "place_loot oid b q r =
     mod_container oid (\<lambda>c. fst (PlaceInitialLoot b q (gr_nextWorldItemUid r) c))
       (r\<lparr>gr_nextWorldItemUid := gr_nextWorldItemUid r + 1\<rparr>)"

text \<open>
  The lambda \<open>placeAmmo\<close>: two draws. The order in which the two arguments are evaluated is
  unspecified in C++; the draws are independent.
\<close>

definition placeAmmo :: "rng \<Rightarrow> u32 list \<Rightarrow> i32 \<Rightarrow> i32 \<Rightarrow> u32 \<Rightarrow> nat \<times> GameRoom \<Rightarrow> nat \<times> GameRoom" where
  "placeAmmo rng ammoPool minQty maxQty oid st =
     (let (n, r) = st;
          i = nat (rng n 0 (int (length ammoPool) - 1));
          q = rng (n + 1) minQty maxQty
      in (n + 2, place_loot oid (ammoPool ! i) q r))"

text \<open>The loop over the quotas; \<open>cursor\<close> walks the shuffled containers up to \<open>equipTotal\<close>.\<close>

fun quota_loop :: "MapLootEquipQuota list \<Rightarrow> u32 list \<Rightarrow> nat \<Rightarrow> nat \<Rightarrow> GameRoom \<Rightarrow> GameRoom" where
  "quota_loop [] picked equipTotal cursor r = r"
| "quota_loop (q # qs) picked equipTotal cursor r =
     (if \<not> cursor < equipTotal then r
      else
        let t = GetType (to_i32 (lq_blueprintId q)); c = unat (lq_containerCount q) in
        if t \<noteq> IT_WEAPON \<and> t \<noteq> IT_ARMOR then quota_loop qs picked equipTotal (cursor + c) r
        else
          let stop = min (cursor + c) equipTotal
          in quota_loop qs picked equipTotal stop
               (fold (\<lambda>i. place_loot (picked ! i) (lq_blueprintId q) 1) [cursor..<stop] r))"

definition DistributeLoot :: "rng \<Rightarrow> u32 list \<Rightarrow> nat \<times> GameRoom \<Rightarrow> nat \<times> GameRoom" where
  "DistributeLoot rng containers st =
     (if containers = [] then st
      else
        let r = snd st;
            ammoPool = filter (\<lambda>b. GetType (to_i32 b) = IT_AMMO)
              (case GetLootAmmoPool (gr_mapId r) of Some p \<Rightarrow> p | None \<Rightarrow> []);
            cnt = length containers;
            indices = [0..<cnt];
            (ind1, st1) =
              (if ammoPool = [] then (indices, st)
               else
                 let sa = fold (placeAmmo rng ammoPool TENERIFE_BASE_AMMO_MIN TENERIFE_BASE_AMMO_MAX) containers st;
                     extraCount = min (unat TENERIFE_EXTRA_AMMO_CONTAINERS) cnt;
                     (ind, n) = PartialShuffle rng indices extraCount (fst sa)
                 in (ind, fold (placeAmmo rng ammoPool TENERIFE_EXTRA_AMMO_MIN TENERIFE_EXTRA_AMMO_MAX)
                            (map (\<lambda>i. containers ! (ind ! i)) [0..<extraCount]) (n, snd sa)))
        in case GetLootEquipQuotas (gr_mapId r) of None \<Rightarrow> st1
           | Some quotas \<Rightarrow>
               if quotas = [] then st1
               else
                 let equipTotal = min (unat (sum_list (map lq_containerCount quotas))) cnt;
                     (ind2, n2) = PartialShuffle rng ind1 equipTotal (fst st1)
                 in (n2, quota_loop quotas (map (\<lambda>i. containers ! i) ind2) equipTotal 0 (snd st1)))"

section \<open>Tenerife room\<close>

fun vehicle_of :: "ObjectType \<Rightarrow> bool" where
  "vehicle_of OT_TenerifeBlueCar = True"
| "vehicle_of OT_TenerifeYellowCar = True"
| "vehicle_of OT_TenerifeBrownCar = True"
| "vehicle_of OT_TenerifeRedCar = True"
| "vehicle_of OT_TenerifeBus = True"
| "vehicle_of _ = False"

text \<open>The id is drawn before the kind is checked; an unknown kind is skipped.\<close>

definition spawn_container :: "env \<Rightarrow> MapSpawn \<Rightarrow> u32 list \<times> GameRoom \<Rightarrow> u32 list \<times> GameRoom" where
  "spawn_container e s st =
     (let (oid, r1) = GetNewObjectId (snd st) in
      if \<not> vehicle_of (ms_type s) then (fst st, r1)
      else (fst st @ [oid],
            SpawnStaticObject e (ContainerObj (MakeVehicleContainer oid (ms_type s) (ms_position s) (ms_yawAngle s))) r1))"

definition spawn_npc :: "env \<Rightarrow> MapSpawn \<Rightarrow> GameRoom \<Rightarrow> GameRoom" where
  "spawn_npc e s r =
     (let (oid, r1) = GetNewObjectId r in
      if ms_type s \<noteq> OT_Turret then r1
      else SpawnDynamicObject e (NpcObj (MakeTurret oid (ms_position s) (ms_yawAngle s))) r1)"

definition InitTenerifeGameRoom :: "env \<Rightarrow> rng \<Rightarrow> nat \<times> GameRoom \<Rightarrow> nat \<times> GameRoom" where
  "InitTenerifeGameRoom e rng st =
     (case GetContainerSpawns (gr_mapId (snd st)) of None \<Rightarrow> st
      | Some spawns \<Rightarrow>
          let (containers, r1) = fold (spawn_container e) spawns ([], snd st);
              (n2, r2) = DistributeLoot rng containers (fst st, r1)
          in case GetHostileNpcSpawns (gr_mapId (snd st)) of None \<Rightarrow> (n2, r2)
             | Some npcs \<Rightarrow> (n2, fold (spawn_npc e) npcs r2))"

definition MakeTenerifeGameRoom :: "env \<Rightarrow> rng \<Rightarrow> i32 \<Rightarrow> int \<Rightarrow> nat \<Rightarrow> nat \<times> GameRoom" where
  "MakeTenerifeGameRoom e rng roomId now n =
     InitTenerifeGameRoom e rng (n, MakeGameRoom roomId MAP_TENERIFE
       [vec 148 (13 / 50) 27, vec 66 (1 / 5) (- (177 / 2)), vec (- 157) (1 / 5) (- 53), vec (- 90) (1 / 5) (- 14)] now)"

end
