(* ===== verification/Handlers.thy ===== *)
theory Handlers
  imports RoomInit
begin

text \<open>
  \<open>src/DedicateProcess/ClientPacketHandler.cpp\<close>: the handlers of client packets, the recall
  timer and the packet dispatcher of \<open>ClientPacketHandler.h\<close>. A handler takes the id of the
  session the packet belongs to and the room that owns the session (the source follows
  \<open>pSession->GetGameRoom()\<close>, which is the room the session was registered in and never null),
  and returns the room and the boolean of the source. Log output is left out.
\<close>

definition PLAYER_OBJECT_ID_SENTINEL :: u32 where "PLAYER_OBJECT_ID_SENTINEL = 0xFFFFFFFF"
definition INVENTORY_VERSION_NOT_SET :: u32 where "INVENTORY_VERSION_NOT_SET = 0xFFFFFFFF"
definition RELOAD_SEQUENCE_COMPLETE :: u32 where "RELOAD_SEQUENCE_COMPLETE = 15"

type_synonym outcome = "GameRoom \<times> bool"

text \<open>The session of the packet, and the guard almost every handler starts with.\<close>

definition on_active :: "i32 \<Rightarrow> GameRoom \<Rightarrow> (PlayerSession \<Rightarrow> outcome) \<Rightarrow> outcome" where
  "on_active sid r f =
     (case GetPlayerSession r sid of None \<Rightarrow> (r, False)
      | Some s \<Rightarrow> if \<not> IsActiveState s then (r, False) else f s)"

text \<open>Active, with a player object id.\<close>

definition on_player :: "i32 \<Rightarrow> GameRoom \<Rightarrow> (PlayerSession \<Rightarrow> outcome) \<Rightarrow> outcome" where
  "on_player sid r f = on_active sid r (\<lambda>s. if ps_objectId s = - 1 then (r, False) else f s)"

text \<open>Active, with a player object in the room.\<close>

definition on_object :: "i32 \<Rightarrow> GameRoom \<Rightarrow> (PlayerSession \<Rightarrow> PlayerObject \<Rightarrow> outcome) \<Rightarrow> outcome" where
  "on_object sid r f = on_player sid r (\<lambda>s.
     case FindPlayerObject r (to_u32 (ps_objectId s)) of None \<Rightarrow> (r, False) | Some p \<Rightarrow> f s p)"

section \<open>Connecting and spawning\<close>

definition Handle_C2D_ChannelOpen :: "env \<Rightarrow> i32 \<Rightarrow> string \<Rightarrow> sockaddr_in \<Rightarrow> GameRoom \<Rightarrow> outcome" where
  "Handle_C2D_ChannelOpen e sid echo addr r =
     (case GetPlayerSession r sid of None \<Rightarrow> (r, False)
      | Some s \<Rightarrow>
          let r1 = (if ps_sessionState s = SS_INIT
                    then mod_session sid (\<lambda>x. (SetPort (htons (sin_port addr)) x)\<lparr>ps_sessionState := SS_CONNECTED\<rparr>) r
                    else r)
          in (send_to e sid (D_ResponseChannelOpen echo) r1, True))"

definition Handle_C2D_HeartBeat :: "env \<Rightarrow> i32 \<Rightarrow> GameRoom \<Rightarrow> outcome" where
  "Handle_C2D_HeartBeat e sid r =
     (case GetPlayerSession r sid of None \<Rightarrow> (r, False)
      | Some s \<Rightarrow> if \<not> IsActiveState s \<and> \<not> IsSpectating s then (r, False)
                  else (send_to e sid D_HeartBeat r, True))"

definition Handle_C2D_RequestBlueprint :: "env \<Rightarrow> i32 \<Rightarrow> GameRoom \<Rightarrow> outcome" where
  "Handle_C2D_RequestBlueprint e sid r =
     on_active sid r (\<lambda>s. (fold (send_to e sid) (FillStaticObjects e r) r, True))"

definition Handle_C2D_RequestSpawnByObjectId :: "env \<Rightarrow> i32 \<Rightarrow> i32 \<Rightarrow> GameRoom \<Rightarrow> outcome" where
  "Handle_C2D_RequestSpawnByObjectId e sid oid r =
     on_player sid r (\<lambda>s.
       if oid < 0 then (r, False)
       else case FindNonplayerObject r (to_u32 oid) of
         Some x \<Rightarrow> (send_to e sid (D_SpawnByObjectId (np_Serialize x)) r, True)
       | None \<Rightarrow>
           (case FindPlayerObject r (to_u32 oid) of
              Some p \<Rightarrow> (send_to e sid (D_SpawnPlayerObject (po_characterType p) (Serialize p)
                           (to_i32 (GetCurrentWeaponId p))) r, True)
            | None \<Rightarrow> (r, True)))"

definition apply_npc_state :: "i32 \<Rightarrow> GameObjectMovementInfo \<Rightarrow> GameRoom \<Rightarrow> GameRoom" where
  "apply_npc_state oid m r =
     (case FindHostileNpc r (mi_object_id m) of None \<Rightarrow> r
      | Some n \<Rightarrow> if \<not> IsAuthority oid n then r else mod_npc (mi_object_id m) (ApplyMovementInfo m) r)"

definition Handle_C2D_UpdatePlayerState :: "i32 \<Rightarrow> PlayerState \<Rightarrow> GameObjectMovementInfo list \<Rightarrow> GameRoom \<Rightarrow> outcome" where
  "Handle_C2D_UpdatePlayerState sid st npcs r =
     on_player sid r (\<lambda>s.
       case st_movement_info st of None \<Rightarrow> (r, False)
       | Some m \<Rightarrow>
           if mi_object_id m \<noteq> to_u32 (ps_objectId s) then (r, False)
           else case FindPlayerObject r (to_u32 (ps_objectId s)) of None \<Rightarrow> (r, False)
             | Some p \<Rightarrow> (fold (apply_npc_state (ps_objectId s)) npcs
                            (mod_player (to_u32 (ps_objectId s)) (ApplyState st) r), True))"

definition spawned_player :: "PlayerSession \<Rightarrow> u32 \<Rightarrow> Vector3 \<Rightarrow> PlayerObject" where
  "spawned_player s oid sp =
     (let iv = ps_inventory s;
          p1 = SetWeapons (bp (primaryWeaponSlot iv)) (bp (secondaryWeaponSlot iv))
                 (MakePlayerObject oid sp (p_characterType (ps_player s)) (p_userId (ps_player s)));
          p2 = SetArmor (bp (armorSlot iv)) p1
      in ChargeShield (maxShield p2) p2)"

definition Handle_C2D_RequestSpawnMe :: "env \<Rightarrow> i32 \<Rightarrow> GameRoom \<Rightarrow> outcome" where
  "Handle_C2D_RequestSpawnMe e sid r =
     on_active sid r (\<lambda>s.
       let (sp, r1) = SetSpawnSpot r;
           (oid, r2) = GetNewObjectId r1;
           r3 = SpawnPlayerObject e (spawned_player s oid sp) sid r2;
           r4 = mod_session sid (SetObjectId (to_i32 oid)) r3;
           (life, r5) = GetRemainingLifetimeMs e r4;
           r6 = send_to e sid (D_SpawnMeSpawnSpot sp (p_characterType (ps_player s)) oid life) r5;
           r7 = send_to e sid (D_FullInventorySync (SerializeFullInventory (ps_inventory s))) r6
       in (fold (send_to e sid) (FillDynamicObjects e r7) r7, True))"

definition Handle_C2D_RequestSpawnPlayerObjects :: "env \<Rightarrow> i32 \<Rightarrow> GameRoom \<Rightarrow> outcome" where
  "Handle_C2D_RequestSpawnPlayerObjects e sid r =
     on_player sid r (\<lambda>s. (send_to e sid (FillPlayerObjects r) r, True))"

definition Handle_C2D_NotifyLoadingComplete :: "i32 \<Rightarrow> GameRoom \<Rightarrow> outcome" where
  "Handle_C2D_NotifyLoadingComplete sid r =
     (case GetPlayerSession r sid of None \<Rightarrow> (r, False)
      | Some s \<Rightarrow> if ps_sessionState s \<noteq> SS_CONNECTED then (r, False)
                  else (mod_session sid (\<lambda>x. x\<lparr>ps_sessionState := SS_INPLAY\<rparr>) r, True))"

section \<open>Containers\<close>

text \<open>A previous holder who is out of range loses the container, in his session too.\<close>

definition displace_holder :: "u32 \<Rightarrow> GameRoom \<Rightarrow> GameRoom" where
  "displace_holder holderId r =
     (case FindSessionByObjectId r (to_i32 holderId) of None \<Rightarrow> r
      | Some hs \<Rightarrow> mod_session hs (SetInteractingContainerId (- 1)) r)"

definition Handle_C2D_RequestOpenContainer :: "env \<Rightarrow> i32 \<Rightarrow> u32 \<Rightarrow> GameRoom \<Rightarrow> outcome" where
  "Handle_C2D_RequestOpenContainer e sid cid r =
     on_active sid r (\<lambda>s.
       case FindContainer r cid of None \<Rightarrow> (r, False)
       | Some c \<Rightarrow>
           if ps_objectId s = - 1 then (r, False)
           else if \<not> IsPlayerNearContainer r (to_u32 (ps_objectId s)) cid then (r, False)
           else
             let holder = c_interactingPlayerId c;
                 other = (holder \<noteq> NO_INTERACTING_PLAYER \<and> holder \<noteq> to_u32 (ps_objectId s))
             in if other \<and> IsPlayerNearContainer r holder cid then (r, False)
                else
                  let r1 = (if other then displace_holder holder r else r);
                      r2 = ReleaseInteractingContainer sid r1;
                      r3 = mod_container cid (SetInteractingPlayerId (to_u32 (ps_objectId s))) r2;
                      r4 = mod_session sid (SetInteractingContainerId (to_i32 cid)) r3
                  in (send_to e sid (SerializeOpenContainer (SetInteractingPlayerId (to_u32 (ps_objectId s)) c)) r4, True))"

definition Handle_C2D_CloseContainer :: "i32 \<Rightarrow> GameRoom \<Rightarrow> outcome" where
  "Handle_C2D_CloseContainer sid r =
     on_active sid r (\<lambda>s.
       if p_interactingContainerId (ps_player s) = - 1 then (r, False)
       else (ReleaseInteractingContainer sid r, True))"

text \<open>
  The checks of \<open>Handle_C2D_RequestInteractContainerObject\<close> that find the container; without
  one when both sides are the player's inventory.
\<close>

definition interact_container :: "GameRoom \<Rightarrow> PlayerSession \<Rightarrow> InteractInfo \<Rightarrow> u32 + (i32 \<times> Container option)" where
  "interact_container r s q =
     (if ii_start_object_id q = PLAYER_OBJECT_ID_SENTINEL \<and> ii_end_object_id q = PLAYER_OBJECT_ID_SENTINEL
      then Inr (- 1, None)
      else
        let cid = p_interactingContainerId (ps_player s) in
        if cid = - 1 then Inl DENY_CONTAINER_NOT_OPEN
        else case FindNonplayerObject r (to_u32 cid) of None \<Rightarrow> Inl DENY_SERVER_INTERNAL
          | Some (NpcObj n) \<Rightarrow> Inl DENY_SERVER_INTERNAL
          | Some (ContainerObj c) \<Rightarrow>
              if ps_objectId s = - 1 then Inl DENY_SERVER_INTERNAL
              else if \<not> IsPlayerNearContainer r (to_u32 (ps_objectId s)) (to_u32 cid) then Inl DENY_OUT_OF_RANGE
              else Inr (cid, Some c))"

text \<open>
  One side of the interaction: its slot, \<open>Inr None\<close> for a null slot pointer. A side that is
  not the player's inventory has a container, so the last case of \<open>None\<close> does not arise.
\<close>

definition interact_slot :: "PlayerSession \<Rightarrow> i32 \<Rightarrow> Container option \<Rightarrow> u32 \<Rightarrow> u32 \<Rightarrow> u32 \<Rightarrow> u32 + slot_ref option" where
  "interact_slot s cid co oid version idx =
     (if oid = PLAYER_OBJECT_ID_SENTINEL then
        if version \<noteq> inventoryVersion (ps_inventory s) then Inl DENY_VERSION_MISMATCH
        else Inr (map_option PlayerSlot (InvGetSlotMutable (to_i32 idx)))
      else if oid \<noteq> to_u32 cid then Inl DENY_CONTAINER_NOT_OPEN
      else case co of None \<Rightarrow> Inl DENY_SERVER_INTERNAL
        | Some c \<Rightarrow> if version \<noteq> c_version c then Inl DENY_VERSION_MISMATCH
                    else Inr (map_option ContainerSlot (ContGetSlotMutable idx c)))"

text \<open>Taking \<open>q\<close> pieces out of a slot.\<close>

definition take_from :: "i32 \<Rightarrow> Slot \<Rightarrow> Slot" where
  "take_from q s = (let s' = s\<lparr>quantity := quantity s - q\<rparr> in if quantity s' \<le> 0 then Clear s' else s')"

text \<open>The switch over the kinds of interaction on two different slots.\<close>

definition interact_apply :: "u32 \<Rightarrow> i32 \<Rightarrow> slot_ref \<Rightarrow> slot_ref \<Rightarrow> store \<Rightarrow> u32 + store" where
  "interact_apply ty q sr er st =
     (let s = deref st sr; t = deref st er in
      if ty = 0 then
        if \<not> IsEmpty t then Inl DENY_SLOT_NOT_EMPTY
        else if q \<le> 0 \<or> quantity s < q then Inl DENY_INVALID_QUANTITY
        else Inr (assign sr (take_from q s) (assign er (t\<lparr>slot_item := slot_item s, quantity := q\<rparr>) st))
      else if ty = 1 then
        if IsEmpty t then Inl DENY_SLOT_ALREADY_EMPTY
        else Inr (assign er (put_payload s t) (assign sr (put_payload t s) st))
      else if ty = 2 then
        if IsEmpty t then Inl DENY_SLOT_ALREADY_EMPTY
        else if bp s \<noteq> bp t then Inl DENY_BLUEPRINT_MISMATCH
        else if slot_type s = IT_WEAPON \<or> slot_type s = IT_ARMOR then Inl DENY_ITEM_TYPE_MISMATCH
        else if q \<le> 0 \<or> quantity s < q then Inl DENY_INVALID_QUANTITY
        else Inr (assign sr (take_from q s) (assign er (t\<lparr>quantity := quantity t + q\<rparr>) st))
      else Inl DENY_SERVER_INTERNAL)"

text \<open>All checks and the change of the two stores: the container id, and the stores after it.\<close>

definition interact_result :: "GameRoom \<Rightarrow> PlayerSession \<Rightarrow> InteractInfo \<Rightarrow> u32 + (i32 \<times> Container option \<times> store)" where
  "interact_result r s q =
     (if 2 < ii_interact_type q then Inl DENY_SERVER_INTERNAL
      else case interact_container r s q of Inl d \<Rightarrow> Inl d
        | Inr (cid, co) \<Rightarrow>
            (case interact_slot s cid co (ii_start_object_id q) (ii_start_version q) (ii_start_slot_idx q) of Inl d \<Rightarrow> Inl d
             | Inr so \<Rightarrow>
                 (case interact_slot s cid co (ii_end_object_id q) (ii_end_version q) (ii_end_slot_idx q) of Inl d \<Rightarrow> Inl d
                  | Inr eo \<Rightarrow>
                      (case (so, eo) of
                         (Some sr, Some er) \<Rightarrow>
                           let st = (ps_inventory s, case co of Some c \<Rightarrow> c_slots c | None \<Rightarrow> []) in
                           if sr = er then Inl DENY_SERVER_INTERNAL
                           else if IsEmpty (deref st sr) then Inl DENY_SLOT_EMPTY
                           else map_sum id (\<lambda>st'. (cid, co, st')) (interact_apply (ii_interact_type q) (ii_quantity q) sr er st)
                       | _ \<Rightarrow> Inl DENY_SERVER_INTERNAL))))"

definition Handle_C2D_RequestInteractContainerObject :: "env \<Rightarrow> i32 \<Rightarrow> InteractInfo \<Rightarrow> GameRoom \<Rightarrow> outcome" where
  "Handle_C2D_RequestInteractContainerObject e sid q r =
     on_active sid r (\<lambda>s.
       case interact_result r s q of
         Inl d \<Rightarrow> (send_to e sid (D_InteractDeny d) r, False)
       | Inr (cid, co, st) \<Rightarrow>
           let startP = (ii_start_object_id q = PLAYER_OBJECT_ID_SENTINEL);
               endP = (ii_end_object_id q = PLAYER_OBJECT_ID_SENTINEL);
               iv = (if startP \<or> endP then IncrementInventoryVersion (UpdateFirstEmptySlotIndex (fst st)) else fst st);
               r1 = mod_session sid (set_inventory iv) r;
               r2 = (if \<not> startP \<or> \<not> endP
                     then mod_container (to_u32 cid) (\<lambda>c. IncrementContainerVersion (c\<lparr>c_slots := snd st\<rparr>)) r1 else r1);
               cv = (case co of Some c \<Rightarrow> c_version c + 1 | None \<Rightarrow> 0)
           in (send_to e sid (D_InteractContainerObject
                 (q\<lparr>ii_start_version := (if startP then inventoryVersion iv else cv),
                    ii_end_version := (if endP then inventoryVersion iv else cv)\<rparr>)) r2, True))"

section \<open>Equipment\<close>

definition FillWeaponChanged :: "u32 \<Rightarrow> PlayerObject \<Rightarrow> u32 \<Rightarrow> D2CMsg" where
  "FillWeaponChanged oid p version =
     D_WeaponChanged oid (GetCurrentWeaponId p) (if isUsingPrimary p then 0 else 1) version"

text \<open>The slot of an equipment request, in the inventory or in the open container.\<close>

definition equip_slot :: "GameRoom \<Rightarrow> PlayerSession \<Rightarrow> EquipInfo \<Rightarrow> u32 + (slot_ref \<times> (i32 \<times> Container) option)" where
  "equip_slot r s q =
     (if ei_object_id q = PLAYER_OBJECT_ID_SENTINEL then
        if ei_object_version q \<noteq> inventoryVersion (ps_inventory s) then Inl DENY_VERSION_MISMATCH
        else case InvGetSlotMutable (to_i32 (ei_object_slot_idx q)) of None \<Rightarrow> Inl DENY_SERVER_INTERNAL
          | Some i \<Rightarrow> Inr (PlayerSlot i, None)
      else
        let cid = p_interactingContainerId (ps_player s) in
        if cid = - 1 then Inl DENY_CONTAINER_NOT_OPEN
        else if ei_object_id q \<noteq> to_u32 cid then Inl DENY_CONTAINER_NOT_OPEN
        else case FindNonplayerObject r (to_u32 cid) of None \<Rightarrow> Inl DENY_SERVER_INTERNAL
          | Some (NpcObj n) \<Rightarrow> Inl DENY_SERVER_INTERNAL
          | Some (ContainerObj c) \<Rightarrow>
              if ps_objectId s = - 1 then Inl DENY_SERVER_INTERNAL
              else if \<not> IsPlayerNearContainer r (to_u32 (ps_objectId s)) (to_u32 cid) then Inl DENY_OUT_OF_RANGE
              else if ei_object_version q \<noteq> c_version c then Inl DENY_VERSION_MISMATCH
              else case ContGetSlotMutable (ei_object_slot_idx q) c of None \<Rightarrow> Inl DENY_SERVER_INTERNAL
                | Some i \<Rightarrow>
                    if ei_my_version q \<noteq> inventoryVersion (ps_inventory s) then Inl DENY_VERSION_MISMATCH
                    else Inr (ContainerSlot i, Some (cid, c)))"

definition equip_apply :: "EquipInfo \<Rightarrow> slot_ref \<Rightarrow> store \<Rightarrow> equip_result" where
  "equip_apply q ref st =
     (let isPrimary = (ei_equipment_slot_type q = 0) in
      if ei_action_type q = 0 then
        if ei_equipment_slot_type q \<le> 1 then EquipWeaponFromSlot ref isPrimary 0 (- 1) st
        else (let (st', ok, d) = EquipArmorFromSlot ref 0 st in (st', ok, d, - 1))
      else
        if ei_equipment_slot_type q \<le> 1 then UnequipWeaponToSlot ref isPrimary 0 (- 1) st
        else (let (st', ok, d) = UnequipArmorToSlot ref 0 st in (st', ok, d, - 1)))"

text \<open>The player object follows the new equipment; others are told of a weapon change.\<close>

definition equip_object :: "env \<Rightarrow> i32 \<Rightarrow> PlayerSession \<Rightarrow> u32 \<Rightarrow> PlayerInventory \<Rightarrow> GameRoom \<Rightarrow> GameRoom" where
  "equip_object e sid s ty iv r =
     (let oid = to_u32 (ps_objectId s) in
      if ps_objectId s = - 1 then r
      else case FindPlayerObject r oid of None \<Rightarrow> r
        | Some p \<Rightarrow>
            if ty = 2 then mod_player oid (SetArmor (bp (armorSlot iv))) r
            else
              let p' = SetWeapons (bp (primaryWeaponSlot iv)) (bp (secondaryWeaponSlot iv)) p
              in BroadcastExcept e (FillWeaponChanged oid p' INVENTORY_VERSION_NOT_SET) sid
                   (mod_player oid (\<lambda>_. p') r))"

definition Handle_C2D_RequestEquipItem :: "env \<Rightarrow> i32 \<Rightarrow> EquipInfo \<Rightarrow> GameRoom \<Rightarrow> outcome" where
  "Handle_C2D_RequestEquipItem e sid q r =
     on_active sid r (\<lambda>s.
       let deny = (\<lambda>d r'. (send_to e sid (D_EquipDeny d) r', False)) in
       if 1 < ei_action_type q then deny DENY_SERVER_INTERNAL r
       else if 2 < ei_equipment_slot_type q then deny DENY_SERVER_INTERNAL r
       else case equip_slot r s q of Inl d \<Rightarrow> deny d r
         | Inr (ref, co) \<Rightarrow>
             let (st, ok, d, unloaded) =
                   equip_apply q ref (ps_inventory s, case co of Some (cid, c) \<Rightarrow> c_slots c | None \<Rightarrow> []);
                 r1 = mod_session sid (set_inventory (fst st)) r;
                 r2 = (case co of None \<Rightarrow> r1
                       | Some (cid, c) \<Rightarrow> mod_container (to_u32 cid) (\<lambda>c. c\<lparr>c_slots := snd st\<rparr>) r1)
             in if \<not> ok then deny d r2
                else
                  let r3 = (case co of None \<Rightarrow> r2 | Some (cid, c) \<Rightarrow> mod_container (to_u32 cid) IncrementContainerVersion r2);
                      r4 = equip_object e sid s (ei_equipment_slot_type q) (fst st) r3;
                      own = (ei_object_id q = PLAYER_OBJECT_ID_SENTINEL);
                      resp = q\<lparr>ei_object_version := (case co of None \<Rightarrow> inventoryVersion (fst st) | Some (cid, c) \<Rightarrow> c_version c + 1),
                               ei_my_version := (if own then 0 else inventoryVersion (fst st))\<rparr>
                  in (send_to e sid (D_EquipItem resp
                        (if unloaded = - 1 then None else SerializeSlot (fst st) unloaded)) r4, True))"

definition Handle_C2D_RequestSwitchWeapon :: "env \<Rightarrow> i32 \<Rightarrow> u32 \<Rightarrow> u32 \<Rightarrow> GameRoom \<Rightarrow> outcome" where
  "Handle_C2D_RequestSwitchWeapon e sid target version r =
     on_object sid r (\<lambda>s p.
       let oid = to_u32 (ps_objectId s);
           iv = inventoryVersion (ps_inventory s);
           toPrimary = (target = 0);
           weapon = (if toPrimary then primaryWeaponId p else secondaryWeaponId p)
       in if 1 < target \<or> version \<noteq> iv \<or> weapon = 0
          then (send_to e sid (FillWeaponChanged oid p iv) r, False)
          else
            let p' = p\<lparr>isUsingPrimary := toPrimary\<rparr>;
                r1 = mod_player oid (\<lambda>_. p') r;
                r2 = BroadcastExcept e (FillWeaponChanged oid p' INVENTORY_VERSION_NOT_SET) sid r1
            in (send_to e sid (FillWeaponChanged oid p' iv) r2, True))"

section \<open>Fire and reload\<close>

text \<open>A health notification; a deadly one is remembered as the notification of leaving.\<close>

definition send_health :: "env \<Rightarrow> i32 \<Rightarrow> 'a CombatObject_scheme \<Rightarrow> HealthChangeReason \<Rightarrow> u32 \<Rightarrow> GameRoom \<Rightarrow> GameRoom" where
  "send_health e hs c reason attacker r =
     (let r1 = send_to e hs (D_HealthChange (currentHp c) (currentShield c) reason attacker) r
      in if IsAlive c then r1 else mod_session hs (\<lambda>s. s\<lparr>ps_leaveNotifyRSeq := ps_sendRSeq s\<rparr>) r1)"

definition notify_hit :: "env \<Rightarrow> u32 \<Rightarrow> 'a CombatObject_scheme \<Rightarrow> u32 \<Rightarrow> GameRoom \<Rightarrow> GameRoom" where
  "notify_hit e hit c attacker r =
     (case FindSessionByObjectId r (to_i32 hit) of None \<Rightarrow> r
      | Some hs \<Rightarrow>
          (case GetPlayerSession r hs of None \<Rightarrow> r
           | Some s \<Rightarrow> if IsInplay s then send_health e hs c REASON_WEAPON_HIT attacker r else r))"

definition fire_hit :: "env \<Rightarrow> i32 \<Rightarrow> u32 \<Rightarrow> u32 \<Rightarrow> GameRoom \<Rightarrow> GameRoom" where
  "fire_hit e shooter weapon hit r =
     (case FindPlayerObject r hit of
        Some p \<Rightarrow>
          if \<not> IsAlive p then r
          else (case GetWeaponSpec weapon of None \<Rightarrow> r
            | Some spec \<Rightarrow>
                let p' = TakeDamage (baseDamage spec) (to_u32 shooter) p
                in notify_hit e hit p' (to_u32 shooter) (mod_player hit (\<lambda>_. p') r))
      | None \<Rightarrow>
          (case FindHostileNpc r hit of None \<Rightarrow> r
           | Some n \<Rightarrow>
               if \<not> IsAlive n then r
               else (case GetWeaponSpec weapon of None \<Rightarrow> r
                 | Some spec \<Rightarrow>
                     let n' = TakeDamage (baseDamage spec) (to_u32 shooter) n;
                         r1 = notify_hit e hit n' (to_u32 shooter) (mod_npc hit (\<lambda>_. n') r)
                     in if deathPending n' then DestroyDeadObject e hit r1
                        else
                          let (n'', res) = ApplyDamageAuthority shooter n';
                              r2 = mod_npc hit (\<lambda>_. n'') r1
                          in if res = AUTHORITY_CHANGED then NotifyNpcAuthority e n'' r2 else r2)))"

definition Handle_C2D_RequestWeaponFire :: "env \<Rightarrow> i32 \<Rightarrow> u32 \<Rightarrow> u32 \<Rightarrow> Vector3 option \<Rightarrow> u32 \<Rightarrow> GameRoom \<Rightarrow> outcome" where
  "Handle_C2D_RequestWeaponFire e sid fireSeq weapon hitPoint hit r =
     on_player sid r (\<lambda>s.
       if sint (fireSeq - p_fireSequence (ps_player s)) < 0 then (r, False)
       else
         let oid = to_u32 (ps_objectId s);
             r1 = mod_session sid (SetNextFireSequence (fireSeq + 1)) r
         in case FindPlayerObject r1 oid of None \<Rightarrow> (r1, False)
            | Some p \<Rightarrow>
                if GetCurrentWeaponId p \<noteq> weapon then (r1, False)
                else
                  let mag = magazine_of (isUsingPrimary p) (ps_inventory s) in
                  if IsEmpty mag \<or> quantity mag \<le> 0 then (r1, False)
                  else
                    let r2 = mod_session sid (set_inventory (set_magazine (isUsingPrimary p) (take_from 1 mag) (ps_inventory s))) r1;
                        r3 = (if hit \<noteq> 0xFFFFFFFF then fire_hit e (ps_objectId s) weapon hit r2 else r2)
                    in (BroadcastExcept e (D_BroadcastWeaponFire oid hitPoint) sid r3, True))"

definition BroadcastReloadSequence :: "env \<Rightarrow> i32 \<Rightarrow> u32 \<Rightarrow> u32 \<Rightarrow> GameRoom \<Rightarrow> GameRoom" where
  "BroadcastReloadSequence e sid oid n r = BroadcastExcept e (D_ReloadSequence n oid) sid r"

definition Handle_C2D_RequestReload :: "env \<Rightarrow> i32 \<Rightarrow> u32 \<Rightarrow> GameRoom \<Rightarrow> outcome" where
  "Handle_C2D_RequestReload e sid version r =
     on_object sid r (\<lambda>s p.
       let iv = ps_inventory s;
           (iv', deny) =
             (if version \<noteq> inventoryVersion iv then (iv, DENY_VERSION_MISMATCH)
              else let (iv1, ok) = ReloadMagazine (isUsingPrimary p) iv in (iv1, if ok then 0 else DENY_SLOT_EMPTY));
           r1 = mod_session sid (set_inventory iv') r;
           r2 = (if deny = 0 then BroadcastReloadSequence e sid (to_u32 (ps_objectId s)) RELOAD_SEQUENCE_COMPLETE r1 else r1)
       in (send_to e sid (D_ResponseReload (deny = 0) deny (p_fireSequence (ps_player s)) (SerializeFullInventory iv')) r2,
           deny = 0))"

definition Handle_C2D_NotifyReloadSequence :: "env \<Rightarrow> i32 \<Rightarrow> u32 \<Rightarrow> GameRoom \<Rightarrow> outcome" where
  "Handle_C2D_NotifyReloadSequence e sid n r =
     on_object sid r (\<lambda>s p.
       if n = RELOAD_SEQUENCE_COMPLETE then (r, False)
       else if GetCurrentWeaponId p = 0 then (r, False)
       else (BroadcastReloadSequence e sid (to_u32 (ps_objectId s)) n r, True))"

section \<open>Recall\<close>

definition ScheduleRecallTick :: "i32 \<Rightarrow> i32 \<Rightarrow> u32 \<Rightarrow> GameRoom \<Rightarrow> GameRoom" where
  "ScheduleRecallTick sid uid gen r = emit [EffTimer RECALL_TICK_INTERVAL_MS sid uid gen] r"

text \<open>The sequence number of the result packet is the last one drawn by the session.\<close>

definition SendRecallResult :: "env \<Rightarrow> i32 \<Rightarrow> bool \<Rightarrow> u32 \<Rightarrow> RecallResultReason \<Rightarrow> GameRoom \<Rightarrow> u32 \<times> GameRoom" where
  "SendRecallResult e sid res spot reason r =
     (let r1 = send_to e sid (D_RecallResult res spot reason) r
      in (case GetPlayerSession r1 sid of Some s \<Rightarrow> ps_sendRSeq s | None \<Rightarrow> 0, r1))"

definition CancelRecall :: "env \<Rightarrow> i32 \<Rightarrow> u32 \<Rightarrow> RecallResultReason \<Rightarrow> GameRoom \<Rightarrow> GameRoom" where
  "CancelRecall e sid spot reason r =
     (let r1 = mod_session sid EndRecall r in
      case GetPlayerSession r1 sid of None \<Rightarrow> r1
      | Some s \<Rightarrow> if \<not> IsActiveState s then r1 else snd (SendRecallResult e sid False spot reason r1))"

definition RecallTick :: "env \<Rightarrow> i32 \<Rightarrow> i32 \<Rightarrow> u32 \<Rightarrow> GameRoom \<Rightarrow> GameRoom" where
  "RecallTick e sid uid gen r =
     (case GetPlayerSession r sid of None \<Rightarrow> r
      | Some s \<Rightarrow>
          if \<not> ps_isRecalling s \<or> ps_recallGeneration s \<noteq> gen then r
          else if ps_uid s \<noteq> uid then r
          else
            let spot = ps_recallSpotIndex s in
            if \<not> IsInplay s then CancelRecall e sid spot RECALL_RESULT_SESSION_LOST r
            else if IsLeaving s then CancelRecall e sid spot RECALL_RESULT_SESSION_LOST r
            else case (if ps_objectId s \<noteq> - 1 then FindPlayerObject r (to_u32 (ps_objectId s)) else None) of
                None \<Rightarrow> CancelRecall e sid spot RECALL_RESULT_SERVER_INTERNAL r
              | Some p \<Rightarrow>
                  if \<not> IsAlive p then CancelRecall e sid spot RECALL_RESULT_PLAYER_DEAD r
                  else if \<not> IsInRecallZone r spot (position p) then CancelRecall e sid spot RECALL_RESULT_OUT_OF_ZONE r
                  else
                    let r1 = mod_session sid (snd \<circ> AddRecallPass) r in
                    if fst (AddRecallPass s) < RECALL_REQUIRED_PASS_COUNT then ScheduleRecallTick sid uid gen r1
                    else
                      let r2 = mod_session sid EndRecall r1;
                          (q, r3) = SendRecallResult e sid True spot RECALL_RESULT_SUCCESS r2
                      in mark_session e LR_RECALLED q sid r3)"

definition Handle_C2D_RequestRecall :: "env \<Rightarrow> i32 \<Rightarrow> u32 \<Rightarrow> GameRoom \<Rightarrow> outcome" where
  "Handle_C2D_RequestRecall e sid spot r =
     on_active sid r (\<lambda>s.
       if IsLeaving s then (r, False)
       else on_object sid r (\<lambda>s p.
         if ps_isRecalling s then (r, True)
         else
           let res = IsInRecallZone r spot (position p);
               r1 = send_to e sid (D_ResponseRecall res spot) r
           in if \<not> res then (r1, True)
              else (ScheduleRecallTick sid (ps_uid s) (ps_recallGeneration s + 1)
                      (mod_session sid (\<lambda>x. fst (BeginRecall spot x)) r1), True)))"

section \<open>Inventory information and NPCs\<close>

definition Handle_C2D_RequestRecentInventoryInfo :: "env \<Rightarrow> i32 \<Rightarrow> u32 \<Rightarrow> GameRoom \<Rightarrow> outcome" where
  "Handle_C2D_RequestRecentInventoryInfo e sid oid r =
     on_active sid r (\<lambda>s.
       if oid = PLAYER_OBJECT_ID_SENTINEL
       then (send_to e sid (D_FullInventorySync (SerializeFullInventory (ps_inventory s))) r, True)
       else if p_interactingContainerId (ps_player s) = - 1 then (r, False)
       else if oid \<noteq> to_u32 (p_interactingContainerId (ps_player s)) then (r, False)
       else case FindContainer r oid of None \<Rightarrow> (r, False)
         | Some c \<Rightarrow> (send_to e sid (SerializeRecentContainerInfo c) r, True))"

definition on_npc :: "i32 \<Rightarrow> u32 \<Rightarrow> GameRoom \<Rightarrow> (PlayerSession \<Rightarrow> HostileNPC \<Rightarrow> outcome) \<Rightarrow> outcome" where
  "on_npc sid npcId r f =
     on_player sid r (\<lambda>s. case FindHostileNpc r npcId of None \<Rightarrow> (r, False) | Some n \<Rightarrow> f s n)"

text \<open>What both NPC requests do with the answer of the NPC.\<close>

definition finish_npc_request :: "env \<Rightarrow> u32 \<Rightarrow> HostileNPC \<times> RequestResult \<Rightarrow> GameRoom \<Rightarrow> outcome" where
  "finish_npc_request e npcId nr r =
     (let (n', res) = nr; r1 = mod_npc npcId (\<lambda>_. n') r in
      if res = REJECTED then (r1, False)
      else if res = AUTHORITY_CHANGED then (NotifyNpcAuthority e n' r1, True)
      else (r1, True))"

definition Handle_C2D_RequestNpcAggro :: "env \<Rightarrow> i32 \<Rightarrow> u32 \<Rightarrow> i32 \<Rightarrow> GameRoom \<Rightarrow> outcome" where
  "Handle_C2D_RequestNpcAggro e sid npcId a r =
     on_npc sid npcId r (\<lambda>s n. finish_npc_request e npcId (ApplyAggroRequest (ps_objectId s) a n) r)"

definition Handle_C2D_RequestNpcAuthority :: "env \<Rightarrow> i32 \<Rightarrow> u32 \<Rightarrow> i32 \<Rightarrow> GameRoom \<Rightarrow> outcome" where
  "Handle_C2D_RequestNpcAuthority e sid npcId a r =
     on_npc sid npcId r (\<lambda>s n. finish_npc_request e npcId (ApplyAuthorityRequest (ps_objectId s) a n) r)"

definition Handle_C2D_ReportNpcAttack :: "env \<Rightarrow> i32 \<Rightarrow> u32 \<Rightarrow> u32 \<Rightarrow> Vector3 option \<Rightarrow> GameRoom \<Rightarrow> outcome" where
  "Handle_C2D_ReportNpcAttack e sid npcId hit hitPoint r =
     on_npc sid npcId r (\<lambda>s n.
       if \<not> IsAuthority (ps_objectId s) n then (r, False)
       else if hit \<noteq> PLAYER_OBJECT_ID_SENTINEL \<and> hit \<noteq> to_u32 (ps_objectId s) then (r, False)
       else
         let r1 = (if hit = PLAYER_OBJECT_ID_SENTINEL then r
                   else case FindPlayerObject r hit of None \<Rightarrow> r
                     | Some p \<Rightarrow>
                         if \<not> IsAlive p then r
                         else let p' = TakeDamage (attackDamage n) (objectId n) p
                              in send_health e sid p' REASON_NPC_ATTACK (objectId n) (mod_player hit (\<lambda>_. p') r))
         in (BroadcastExcept e (D_BroadcastNpcAttack (objectId n) hitPoint) sid r1, True))"

section \<open>Dispatch\<close>

text \<open>
  The handler table filled by \<open>Init\<close>. A payload that does not parse, and a packet id that no
  client message has (\<open>Handle_Client_Invalid\<close>), change nothing.
\<close>

fun handle_msg :: "env \<Rightarrow> i32 \<Rightarrow> sockaddr_in \<Rightarrow> C2DMsg \<Rightarrow> GameRoom \<Rightarrow> outcome" where
  "handle_msg e sid addr (C_ChannelOpen echo) r = Handle_C2D_ChannelOpen e sid echo addr r"
| "handle_msg e sid addr C_HeartBeat r = Handle_C2D_HeartBeat e sid r"
| "handle_msg e sid addr C_RequestBlueprint r = Handle_C2D_RequestBlueprint e sid r"
| "handle_msg e sid addr C_RequestSpawnMe r = Handle_C2D_RequestSpawnMe e sid r"
| "handle_msg e sid addr (C_RequestSpawnByObjectId i) r = Handle_C2D_RequestSpawnByObjectId e sid i r"
| "handle_msg e sid addr (C_UpdatePlayerState st ns) r = Handle_C2D_UpdatePlayerState sid st ns r"
| "handle_msg e sid addr C_RequestSpawnPlayerObjects r = Handle_C2D_RequestSpawnPlayerObjects e sid r"
| "handle_msg e sid addr C_NotifyLoadingComplete r = Handle_C2D_NotifyLoadingComplete sid r"
| "handle_msg e sid addr (C_RequestOpenContainer i) r = Handle_C2D_RequestOpenContainer e sid i r"
| "handle_msg e sid addr C_CloseContainer r = Handle_C2D_CloseContainer sid r"
| "handle_msg e sid addr (C_RequestInteractContainerObject q) r = Handle_C2D_RequestInteractContainerObject e sid q r"
| "handle_msg e sid addr (C_RequestEquipItem q) r = Handle_C2D_RequestEquipItem e sid q r"
| "handle_msg e sid addr (C_RequestRecentInventoryInfo i) r = Handle_C2D_RequestRecentInventoryInfo e sid i r"
| "handle_msg e sid addr (C_RequestSwitchWeapon t v) r = Handle_C2D_RequestSwitchWeapon e sid t v r"
| "handle_msg e sid addr (C_RequestWeaponFire q w p h) r = Handle_C2D_RequestWeaponFire e sid q w p h r"
| "handle_msg e sid addr (C_RequestRecall i) r = Handle_C2D_RequestRecall e sid i r"
| "handle_msg e sid addr (C_RequestReload v) r = Handle_C2D_RequestReload e sid v r"
| "handle_msg e sid addr (C_NotifyReloadSequence n) r = Handle_C2D_NotifyReloadSequence e sid n r"
| "handle_msg e sid addr (C_RequestNpcAggro i a) r = Handle_C2D_RequestNpcAggro e sid i a r"
| "handle_msg e sid addr (C_RequestNpcAuthority i a) r = Handle_C2D_RequestNpcAuthority e sid i a r"
| "handle_msg e sid addr (C_ReportNpcAttack i h p) r = Handle_C2D_ReportNpcAttack e sid i h p r"

definition dispatch :: "env \<Rightarrow> i32 \<Rightarrow> u16 \<Rightarrow> u8 list \<Rightarrow> sockaddr_in \<Rightarrow> GameRoom \<Rightarrow> outcome" where
  "dispatch e sid pktId payload addr r =
     (case e_parse e pktId payload of None \<Rightarrow> (r, False)
      | Some msg \<Rightarrow> if c2d_pkt_id msg = pktId then handle_msg e sid addr msg r else (r, False))"

text \<open>
  \<open>HandleClientPacket\<close> from the session lookup on: the signature is checked over the bytes
  with a zero signature field, then the sequence filter of the packet's class, then the
  acknowledgement and the timestamps are taken in, and the handler runs.
\<close>

definition receive_header :: "env \<Rightarrow> i32 \<Rightarrow> UDPHeader \<Rightarrow> GameRoom \<Rightarrow> outcome" where
  "receive_header e sid h r =
     (case GetPlayerSession r sid of None \<Rightarrow> (r, False)
      | Some s \<Rightarrow>
          let (s1, fresh) = (if h_flags h AND FLAG_RELIABLE \<noteq> 0 then UpdateRRecvState (h_rSeqNum h) s
                             else UpdateURecvState (h_uSeqNum h) s)
          in if \<not> fresh then (mod_session sid (\<lambda>_. s1) r, False)
             else
               let s2 = ProcessIncomingAck (h_ackRSeqNum h) (h_ackBitfield h) s1;
                   s3 = (if h_timestamp h \<noteq> 0 then SetLastRecvTimestamp (h_timestamp h) s2 else s2)
               in if h_timestampEcho h \<noteq> 0
                  then let (now, r1) = read_clock e r
                       in (mod_session sid (\<lambda>_. UpdateRtt (h_timestampEcho h) (ms_of now) s3) r1, True)
                  else (mod_session sid (\<lambda>_. s3) r, True))"

definition receive_packet :: "env \<Rightarrow> i32 \<Rightarrow> u8 list \<Rightarrow> sockaddr_in \<Rightarrow> GameRoom \<Rightarrow> outcome" where
  "receive_packet e sid bytes addr r =
     (case GetPlayerSession r sid of None \<Rightarrow> (r, False)
      | Some s \<Rightarrow>
          let h = parse_header bytes in
          if packet_signature e (replicate 8 0 @ drop 8 bytes) (ps_securityKey s) \<noteq> h_signature h then (r, False)
          else
            let (r1, fresh) = receive_header e sid h r in
            if \<not> fresh then (r1, False)
            else dispatch e sid (h_packetId h) (drop HEADER_SIZE bytes) addr r1)"

end
