(* ===== verification/RoomInv.thy ===== *)
theory RoomInv
  imports Handlers
begin

text \<open>
  The invariant of a room and its preservation by every operation of \<open>GameRoom\<close> and every
  packet handler: object tables are keyed by object id, inventories, containers, players and
  NPCs are well formed, and a session that has been detached has no object, no open container,
  no running recall and can send nothing any more.
\<close>

section \<open>Predicates on all entries of a map\<close>

definition hm_all :: "('k \<Rightarrow> 'v \<Rightarrow> bool) \<Rightarrow> ('k, 'v) hmap \<Rightarrow> bool" where
  "hm_all P m \<longleftrightarrow> list_all (\<lambda>(k, v). P k v) m"

lemma hm_all_iff: "hm_all P m \<longleftrightarrow> (\<forall>(k, v)\<in>set m. P k v)"
  by (simp add: hm_all_def list_all_iff)

lemma hm_all_find: "hm_all P m \<Longrightarrow> hm_find m k = Some v \<Longrightarrow> P k v"
  by (auto simp: hm_all_iff dest: hm_find_Some_in)

lemma hm_all_insert: "hm_all P m \<Longrightarrow> P k v \<Longrightarrow> hm_all P (hm_insert k v m)"
  by (auto simp: hm_all_iff hm_insert_def)

lemma hm_all_erase: "hm_all P m \<Longrightarrow> hm_all P (hm_erase k m)"
  by (auto simp: hm_all_iff hm_erase_def)

lemma hm_all_mod:
  "hm_ok m \<Longrightarrow> hm_all P m \<Longrightarrow> (\<And>v. hm_find m k = Some v \<Longrightarrow> P k v \<Longrightarrow> P k (f v)) \<Longrightarrow> hm_all P (hm_mod k f m)"
  by (fastforce simp: hm_all_iff hm_mod_def hm_find_iff)

lemma hm_all_map: "hm_all P (map (\<lambda>(k, v). (k, f v)) m) \<longleftrightarrow> hm_all (\<lambda>k v. P k (f v)) m"
  by (auto simp: hm_all_iff)

lemma hm_ok_map: "hm_ok (map (\<lambda>(k, v). (k, f v)) m) = hm_ok m"
  by (simp add: hm_ok_def hm_keys_def case_prod_beta' o_def)

section \<open>The invariant\<close>

definition gone_ok :: "PlayerSession \<Rightarrow> bool" where
  "gone_ok s \<longleftrightarrow> (ps_leaveState s = LS_DETACHED \<or> ps_leaveState s = LS_FINALIZED \<longrightarrow>
     ps_objectId s = - 1 \<and> \<not> ps_isRecalling s \<and> p_interactingContainerId (ps_player s) = - 1 \<and>
     (ps_sessionState s = SS_SPECTATING \<or> ps_sessionState s = SS_LEFT))"

definition session_ok :: "i32 \<Rightarrow> PlayerSession \<Rightarrow> bool" where
  "session_ok sid s \<longleftrightarrow> ps_sessionId s = sid \<and> inv_ok (ps_inventory s) \<and> gone_ok s"

fun np_ok :: "u32 \<Rightarrow> NonplayerObject \<Rightarrow> bool" where
  "np_ok oid (ContainerObj c) \<longleftrightarrow> objectId c = oid \<and> container_ok c"
| "np_ok oid (NpcObj n) \<longleftrightarrow> objectId n = oid \<and> npc_ok n \<and> combat_ok n \<and> 0 \<le> attackDamage n"

definition po_ok :: "u32 \<Rightarrow> PlayerObject \<Rightarrow> bool" where
  "po_ok oid p \<longleftrightarrow> objectId p = oid \<and> combat_ok p"

definition room_ok :: "GameRoom \<Rightarrow> bool" where
  "room_ok r \<longleftrightarrow> room_hm_ok r \<and> hm_ok (gr_staticObjects r) \<and> hm_ok (gr_dynamicObjects r) \<and> hm_ok (gr_playerObjects r) \<and>
     hm_all session_ok (gr_playerSessions r) \<and> hm_all np_ok (gr_staticObjects r) \<and>
     hm_all np_ok (gr_dynamicObjects r) \<and> hm_all po_ok (gr_playerObjects r)"

lemma room_okD:
  assumes "room_ok r"
  shows "room_hm_ok r" "GetPlayerSession r sid = Some s \<Longrightarrow> session_ok sid s"
    "FindPlayerObject r oid = Some p \<Longrightarrow> po_ok oid p" "FindNonplayerObject r oid = Some x \<Longrightarrow> np_ok oid x"
    "hm_find (gr_dynamicObjects r) oid = Some y \<Longrightarrow> np_ok oid y"
  using assms by (auto simp: room_ok_def GetPlayerSession_def FindPlayerObject_def FindNonplayerObject_def
      dest: hm_all_find split: option.splits)

lemma room_ok_frame [simp]:
  "room_ok (emit es r) = room_ok r" "room_ok (r\<lparr>gr_reads := n\<rparr>) = room_ok r" "room_ok (r\<lparr>gr_thrown := b\<rparr>) = room_ok r"
  "room_ok (r\<lparr>gr_nxtObjectId := z\<rparr>) = room_ok r" "room_ok (r\<lparr>gr_lifetimeExpired := b\<rparr>) = room_ok r"
  "room_ok (r\<lparr>gr_allLeftReported := b\<rparr>) = room_ok r" "room_ok (r\<lparr>gr_lastRegenMs := m\<rparr>) = room_ok r"
  "room_ok (r\<lparr>gr_spawnSpotIndex := m\<rparr>) = room_ok r" "room_ok (r\<lparr>gr_nextWorldItemUid := u\<rparr>) = room_ok r"
  "room_ok (r\<lparr>gr_outbox := ob\<rparr>) = room_ok r"
  by (simp_all add: room_ok_def room_hm_ok_def emit_def)

lemma session_ok_core [simp]: "session_ok k (core s) = session_ok k s"
  by (simp add: session_ok_def gone_ok_def core_def)

lemma room_ok_quiet: "quiet r r' \<Longrightarrow> room_ok r' = room_ok r"
proof -
  assume q: "quiet r r'"
  have c: "core_sessions (gr_playerSessions r') = core_sessions (gr_playerSessions r)" using quiet_objects(8) [OF q] .
  have "hm_ok (core_sessions m) = hm_ok m" "hm_all session_ok (core_sessions m) = hm_all session_ok m" for m
    by (simp_all add: core_sessions_def hm_ok_map hm_all_map)
  with c have "room_hm_ok r' = room_hm_ok r"
    "hm_all session_ok (gr_playerSessions r') = hm_all session_ok (gr_playerSessions r)"
    by (metis room_hm_ok_def)+
  then show ?thesis using quiet_objects [OF q] by (simp add: room_ok_def)
qed

lemmas quiet_ops [simp] =
  room_ok_quiet [OF send_to_quiet] room_ok_quiet [OF Broadcast_quiet] room_ok_quiet [OF BroadcastExcept_quiet]
  room_ok_quiet [OF NotifyNpcAuthority_quiet]

lemma read_clock_room_ok [simp]: "room_ok (snd (read_clock e r)) = room_ok r"
  by (simp add: read_clock_def)

lemma mod_session_ok:
  "room_ok r \<Longrightarrow> (\<And>s. GetPlayerSession r sid = Some s \<Longrightarrow> session_ok sid s \<Longrightarrow> session_ok sid (f s)) \<Longrightarrow>
   room_ok (mod_session sid f r)"
  by (auto simp: room_ok_def mod_session_def room_hm_ok_def GetPlayerSession_def intro!: hm_all_mod)

lemma mod_player_ok:
  "room_ok r \<Longrightarrow> (\<And>p. FindPlayerObject r oid = Some p \<Longrightarrow> po_ok oid p \<Longrightarrow> po_ok oid (f p)) \<Longrightarrow>
   room_ok (mod_player oid f r)"
  by (auto simp: room_ok_def mod_player_def room_hm_ok_def FindPlayerObject_def intro!: hm_all_mod)

lemma mod_nonplayer_ok:
  "room_ok r \<Longrightarrow> (\<And>x. FindNonplayerObject r oid = Some x \<Longrightarrow> np_ok oid x \<Longrightarrow> np_ok oid (f x)) \<Longrightarrow>
   room_ok (mod_nonplayer oid f r)"
  by (auto simp: room_ok_def mod_nonplayer_def room_hm_ok_def FindNonplayerObject_def intro!: hm_all_mod)

lemma FindContainer_Some: "FindContainer r oid = Some c \<longleftrightarrow> FindNonplayerObject r oid = Some (ContainerObj c)"
  unfolding FindContainer_def by (cases "FindNonplayerObject r oid" rule: as_container.cases) auto

lemma FindHostileNpc_Some: "FindHostileNpc r oid = Some n \<longleftrightarrow> FindNonplayerObject r oid = Some (NpcObj n)"
  unfolding FindHostileNpc_def by (cases "FindNonplayerObject r oid" rule: as_npc.cases) auto

lemma mod_container_ok:
  "room_ok r \<Longrightarrow> (\<And>c. FindContainer r oid = Some c \<Longrightarrow> np_ok oid (ContainerObj c) \<Longrightarrow> np_ok oid (ContainerObj (f c))) \<Longrightarrow>
   room_ok (mod_container oid f r)"
  unfolding mod_container_def
  by (rule mod_nonplayer_ok) (auto simp: FindContainer_Some split: NonplayerObject.split)

lemma mod_npc_ok:
  "room_ok r \<Longrightarrow> (\<And>n. FindHostileNpc r oid = Some n \<Longrightarrow> np_ok oid (NpcObj n) \<Longrightarrow> np_ok oid (NpcObj (f n))) \<Longrightarrow>
   room_ok (mod_npc oid f r)"
  unfolding mod_npc_def
  by (rule mod_nonplayer_ok) (auto simp: FindHostileNpc_Some split: NonplayerObject.split)

lemma fold_ok: "(\<And>x r. room_ok r \<Longrightarrow> room_ok (f x r)) \<Longrightarrow> room_ok r \<Longrightarrow> room_ok (fold f xs r)"
  by (induction xs arbitrary: r) auto

section \<open>Room operations\<close>

lemma inv_ok_InvClear: "inv_ok iv \<Longrightarrow> inv_ok (InvClear iv)"
proof -
  assume "inv_ok iv"
  then have l: "length (inventorySlots iv) = INVENTORY_SLOT_COUNT" and s: "slots_ok (inventorySlots iv)"
    by (auto simp: inv_ok_def inv_core_def)
  have "slots_ok (map Clear (inventorySlots iv))"
    using s by (auto simp: slots_ok_def Clear_def slot_ok_def Item_default_def)
  moreover have "mag_ok w (Clear m)" for w m by (simp add: mag_ok_def)
  ultimately show ?thesis
    using l by (simp add: InvClear_def inv_core_def weapon_of_def magazine_of_def IncrementInventoryVersion_def)
qed

lemma set_container_none_ok: "session_ok k s \<Longrightarrow> session_ok k (SetInteractingContainerId (- 1) s)"
  by (simp add: session_ok_def gone_ok_def SetInteractingContainerId_def)

lemma SetInteractingPlayerId_ok: "np_ok oid (ContainerObj c) \<Longrightarrow> np_ok oid (ContainerObj (SetInteractingPlayerId i c))"
  by (simp add: SetInteractingPlayerId_def container_ok_def)

lemma ReleaseInteractingContainer_ok: "room_ok r \<Longrightarrow> room_ok (ReleaseInteractingContainer sid r)"
  by (auto simp: ReleaseInteractingContainer_def Let_def split: option.split
      intro!: mod_container_ok mod_session_ok set_container_none_ok SetInteractingPlayerId_ok)

lemma ReleaseAuthority_ok: "np_ok oid (NpcObj n) \<Longrightarrow> ReleaseAuthority n = (n', b) \<Longrightarrow> np_ok oid (NpcObj n')"
  using npc_step_ok [of n Release]
  by (auto simp: npc_defs combat_ok_def split: if_splits)

lemma ReleaseNpcAuthority_ok: "room_ok r \<Longrightarrow> room_ok (ReleaseNpcAuthority e oid r)"
proof -
  assume "room_ok r"
  moreover have "room_ok (r'\<lparr>gr_dynamicObjects := hm_mod k (\<lambda>_. NpcObj n') (gr_dynamicObjects r')\<rparr>)"
    if "room_ok r'" "hm_find (gr_dynamicObjects r') k = Some (NpcObj n)" "ReleaseAuthority n = (n', b)" for r' k n n' b
    using that ReleaseAuthority_ok [OF _ that(3), of k] room_okD(5) [OF that(1,2)]
    by (auto simp: room_ok_def room_hm_ok_def intro!: hm_all_mod)
  moreover have "as_npc x = Some n \<longleftrightarrow> x = Some (NpcObj n)" for x n
    by (cases x rule: as_npc.cases) auto
  ultimately show ?thesis
    by (auto simp: ReleaseNpcAuthority_def Let_def split: option.split prod.splits intro!: fold_ok)
qed

lemma insert_ok:
  "room_ok r \<Longrightarrow> np_ok k x \<Longrightarrow> room_ok (r\<lparr>gr_dynamicObjects := hm_insert k x (gr_dynamicObjects r)\<rparr>)"
  "room_ok r \<Longrightarrow> np_ok k x \<Longrightarrow> room_ok (r\<lparr>gr_staticObjects := hm_insert k x (gr_staticObjects r)\<rparr>)"
  "room_ok r \<Longrightarrow> po_ok k p \<Longrightarrow> room_ok (r\<lparr>gr_playerObjects := hm_insert k p (gr_playerObjects r)\<rparr>)"
  by (auto simp: room_ok_def room_hm_ok_def intro!: hm_all_insert)

lemma erase_ok:
  "room_ok r \<Longrightarrow> room_ok (r\<lparr>gr_dynamicObjects := hm_erase k (gr_dynamicObjects r)\<rparr>)"
  "room_ok r \<Longrightarrow> room_ok (r\<lparr>gr_playerObjects := hm_erase k (gr_playerObjects r)\<rparr>)"
  by (auto simp: room_ok_def room_hm_ok_def intro!: hm_all_erase)

lemma spawn_ok:
  "room_ok r \<Longrightarrow> np_ok (np_objectId x) x \<Longrightarrow> room_ok (SpawnDynamicObject e x r)"
  "room_ok r \<Longrightarrow> np_ok (np_objectId x) x \<Longrightarrow> room_ok (SpawnStaticObject e x r)"
  "room_ok r \<Longrightarrow> po_ok (objectId p) p \<Longrightarrow> room_ok (SpawnPlayerObject e p sid r)"
  by (simp_all add: SpawnDynamicObject_def SpawnStaticObject_def SpawnPlayerObject_def NotifySpawnObject_def
      NotifySpawnPlayerObject_def insert_ok)

lemma DestroyDeadObject_ok: "room_ok r \<Longrightarrow> room_ok (DestroyDeadObject e oid r)"
  by (simp add: DestroyDeadObject_def Let_def erase_ok split: option.split)

lemma PlaceItem_objectId [simp]: "objectId (fst (PlaceItem i b q u c)) = objectId c"
  by (simp add: PlaceItem_def)

lemma FillFrom_objectId [simp]: "objectId (FillFrom iv c) = objectId c"
proof -
  have "objectId (fst (fold loot_place xs (c, n))) = objectId c" for xs c n
    by (induction xs arbitrary: c n) (auto simp: loot_place_def)
  then show ?thesis by (simp add: FillFrom_def)
qed

lemma SpawnPlayerLootContainer_ok: "room_ok r \<Longrightarrow> inv_ok iv \<Longrightarrow> room_ok (SpawnPlayerLootContainer e p iv r)"
  using PlayerLoot_contents [OF inv_ok_core, of iv 1]
  by (auto simp: SpawnPlayerLootContainer_def GetNewObjectId_def intro!: spawn_ok)

lemma clear_inventory_ok: "session_ok k s \<Longrightarrow> session_ok k (set_inventory (InvClear (ps_inventory s)) s)"
  by (simp add: session_ok_def gone_ok_def set_inventory_def inv_ok_InvClear)

lemma detach_object_ok: "room_ok r \<Longrightarrow> inv_ok (ps_inventory s) \<Longrightarrow> room_ok (detach_object e sid s p r)"
  by (simp add: detach_object_def Let_def RemovePlayerObject_def erase_ok mod_session_ok clear_inventory_ok
      SpawnPlayerLootContainer_ok)

section \<open>Leaving keeps the invariant\<close>

definition sess_at :: "(PlayerSession \<Rightarrow> bool) \<Rightarrow> i32 \<Rightarrow> GameRoom \<Rightarrow> bool" where
  "sess_at P sid r \<longleftrightarrow> (\<forall>s. GetPlayerSession r sid = Some s \<longrightarrow> P s)"

lemma sess_at_frame [simp]:
  "sess_at P sid (emit es r) = sess_at P sid r"
  "sess_at P sid (r\<lparr>gr_dynamicObjects := x\<rparr>) = sess_at P sid r"
  "sess_at P sid (r\<lparr>gr_playerObjects := y\<rparr>) = sess_at P sid r" "sess_at P sid (r\<lparr>gr_nxtObjectId := z\<rparr>) = sess_at P sid r"
  "sess_at P sid (mod_container oid cf r) = sess_at P sid r" "sess_at P sid (RemovePlayerObject oid r) = sess_at P sid r"
  by (simp_all add: sess_at_def GetPlayerSession_def emit_def mod_container_def mod_nonplayer_def RemovePlayerObject_def)

lemma GetPlayerSession_mod:
  "GetPlayerSession (mod_session k f r) sid = (if sid = k then map_option f (GetPlayerSession r sid) else GetPlayerSession r sid)"
proof -
  have "map_of (map (\<lambda>(k', v). (k', if k' = k then f v else v)) m) sid =
      (if sid = k then map_option f (map_of m sid) else map_of m sid)" for m
    by (induction m) auto
  then show ?thesis by (simp add: GetPlayerSession_def mod_session_def hm_find_def hm_mod_def)
qed

lemma sess_at_mod: "sess_at P sid r \<Longrightarrow> (\<And>s. P s \<Longrightarrow> P (f s)) \<Longrightarrow> sess_at P sid (mod_session k f r)"
  by (auto simp: sess_at_def GetPlayerSession_mod split: if_splits)

lemma sess_at_quiet:
  assumes "quiet r r'" "\<And>s s'. core s' = core s \<Longrightarrow> P s' = P s"
  shows "sess_at P sid r' = sess_at P sid r"
proof -
  have "map_option core (GetPlayerSession r' sid) = map_option core (GetPlayerSession r sid)"
    using arg_cong [OF quiet_objects(8) [OF assms(1)], of "\<lambda>m. map_of m sid"]
    unfolding GetPlayerSession_def hm_find_def core_sessions_def map_of_lv .
  then show ?thesis
  proof (cases "GetPlayerSession r sid")
    case (Some s)
    with \<open>map_option core _ = _\<close> obtain s' where "GetPlayerSession r' sid = Some s'" "core s' = core s" by auto
    with Some assms(2) [OF this(2)] show ?thesis by (simp add: sess_at_def)
  qed (simp add: sess_at_def)
qed

text \<open>A session that takes part in nothing any more.\<close>

definition quiesced :: "PlayerSession \<Rightarrow> bool" where
  "quiesced s \<longleftrightarrow> \<not> ps_isRecalling s \<and> p_interactingContainerId (ps_player s) = - 1 \<and>
     (ps_sessionState s = SS_SPECTATING \<or> ps_sessionState s = SS_LEFT)"

lemma core_fields:
  assumes "core s' = core s"
  shows "ps_player s' = ps_player s" "ps_isRecalling s' = ps_isRecalling s" "ps_sessionState s' = ps_sessionState s"
    "ps_leaveState s' = ps_leaveState s" "ps_leaveReason s' = ps_leaveReason s" "ps_leftNotified s' = ps_leftNotified s"
    "ps_sessionId s' = ps_sessionId s" "ps_securityKey s' = ps_securityKey s"
    "ps_recallGeneration s' = ps_recallGeneration s" "ps_recallPassCount s' = ps_recallPassCount s"
    "ps_recallSpotIndex s' = ps_recallSpotIndex s"
  using arg_cong [OF assms, of ps_player] arg_cong [OF assms, of ps_isRecalling] arg_cong [OF assms, of ps_sessionState]
    arg_cong [OF assms, of ps_leaveState] arg_cong [OF assms, of ps_leaveReason] arg_cong [OF assms, of ps_leftNotified]
    arg_cong [OF assms, of ps_sessionId] arg_cong [OF assms, of ps_securityKey] arg_cong [OF assms, of ps_recallGeneration]
    arg_cong [OF assms, of ps_recallPassCount] arg_cong [OF assms, of ps_recallSpotIndex]
  by (simp_all add: core_def)

lemma quiesced_quiet: "quiet r r' \<Longrightarrow> sess_at quiesced sid r' = sess_at quiesced sid r"
  by (erule sess_at_quiet) (frule core_fields(1), frule core_fields(2), drule core_fields(3), simp add: quiesced_def)

lemma ReleaseNpc_quiesced: "sess_at quiesced sid r \<Longrightarrow> sess_at quiesced sid (ReleaseNpcAuthority e oid r)"
proof -
  have "sess_at quiesced sid (ReleaseNpcAuthority e oid r) = sess_at quiesced sid r"
    unfolding ReleaseNpcAuthority_def
    by (simp, intro impI fold_keep [where P = "sess_at quiesced sid"])
      (simp add: Let_def quiesced_quiet [OF NotifyNpcAuthority_quiet] split: option.split prod.split)
  then show "sess_at quiesced sid r \<Longrightarrow> ?thesis" by simp
qed

lemma detach_object_quiesced: "sess_at quiesced sid r \<Longrightarrow> sess_at quiesced sid (detach_object e k s p r)"
proof -
  assume q: "sess_at quiesced sid r"
  have m: "sess_at quiesced sid (mod_session k (\<lambda>x. set_inventory (InvClear (ps_inventory x)) x) r')"
    if "sess_at quiesced sid r'" for r'
    using that by (rule sess_at_mod) (simp add: quiesced_def set_inventory_def)
  have "sess_at quiesced sid (SpawnPlayerLootContainer e p iv r)" for iv
    using q by (simp add: SpawnPlayerLootContainer_def GetNewObjectId_def SpawnDynamicObject_def NotifySpawnObject_def
        quiesced_quiet [OF Broadcast_quiet])
  then show ?thesis
    using q m by (simp add: detach_object_def Let_def quiesced_quiet [OF Broadcast_quiet] quiesced_quiet [OF BroadcastExcept_quiet])
qed

lemma notify_session_ok: "room_ok r \<Longrightarrow> room_ok (notify_session sid r)"
  by (auto simp: notify_session_def NotifyLeftOnce_def Let_def session_ok_def gone_ok_def split: option.split
      intro!: mod_session_ok)

lemma finalize_session_ok:
  assumes "room_ok r" "sess_at (\<lambda>s. ps_leaveState s = LS_DETACHED) sid r"
  shows "room_ok (finalize_session sid r)"
  using assms
  by (auto simp: finalize_session_def FinalizeLeave_def NotifyLeftOnce_def ClearPendingReliableExcept_def Let_def
      session_ok_def gone_ok_def sess_at_def split: option.split intro!: mod_session_ok)

lemma DetachPlayer_ok:
  assumes ok: "room_ok r"
  shows "room_ok (DetachPlayer e sid r)"
proof (cases "GetPlayerSession r sid")
  case (Some s)
  let ?f = "\<lambda>x. (EndRecall x)\<lparr>ps_sessionState := (if ps_leaveReason s = LR_DEAD then SS_SPECTATING else SS_LEFT)\<rparr>"
  define r1 where "r1 = mod_session sid ?f r"
  define r2 where "r2 = ReleaseInteractingContainer sid r1"
  define r3 where "r3 = ReleaseNpcAuthority e (ps_objectId s) r2"
  define r4 where "r4 = (case (if ps_objectId s \<noteq> - 1 then FindPlayerObject r3 (to_u32 (ps_objectId s)) else None) of
                      None \<Rightarrow> r3 | Some p \<Rightarrow> detach_object e sid s p r3)"
  let ?g = "\<lambda>x. (SetObjectId (- 1) x)\<lparr>ps_leaveState := LS_DETACHED\<rparr>"
  have D: "DetachPlayer e sid r = notify_session sid (mod_session sid ?g r4)"
    unfolding r4_def r3_def r2_def r1_def by (simp only: DetachPlayer_def Some option.case Let_def)
  have s: "session_ok sid s" using room_okD(2) [OF ok Some] .
  have o1: "room_ok r1" unfolding r1_def
    by (rule mod_session_ok [OF ok]) (auto simp: session_ok_def gone_ok_def EndRecall_def)
  then have o3: "room_ok r3" by (simp add: r3_def r2_def ReleaseInteractingContainer_ok ReleaseNpcAuthority_ok)
  then have o4: "room_ok r4"
    using s by (auto simp: r4_def session_ok_def intro!: detach_object_ok split: option.split)
  have "sess_at quiesced sid r2"
    using Some by (auto simp: r2_def r1_def ReleaseInteractingContainer_def Let_def sess_at_def GetPlayerSession_mod
        quiesced_def SetInteractingContainerId_def EndRecall_def mod_container_def mod_nonplayer_def
        GetPlayerSession_def [of "_\<lparr>gr_staticObjects := _\<rparr>"] GetPlayerSession_def [of "_\<lparr>gr_dynamicObjects := _\<rparr>"]
        simp flip: GetPlayerSession_def [of "mod_session _ _ _"] split: option.splits if_splits)
  then have q4: "sess_at quiesced sid r4"
    by (auto simp: r4_def r3_def intro!: ReleaseNpc_quiesced detach_object_quiesced split: option.split)
  have "room_ok (mod_session sid ?g r4)"
    using q4 by (intro mod_session_ok [OF o4])
      (auto simp: sess_at_def session_ok_def gone_ok_def SetObjectId_def quiesced_def)
  then show ?thesis by (simp add: D notify_session_ok)
qed (use ok in \<open>simp add: DetachPlayer_def\<close>)

lemma MarkLeaving_ok: "session_ok k s \<Longrightarrow> session_ok k (MarkLeaving reason q now s)"
  by (auto simp: MarkLeaving_def session_ok_def gone_ok_def)

lemma mark_session_ok: "room_ok r \<Longrightarrow> room_ok (mark_session e reason q sid r)"
  by (simp add: mark_session_def case_prod_beta' Let_def mod_session_ok MarkLeaving_ok)

lemma AllKill_ok: "room_ok r \<Longrightarrow> room_ok (AllKill e r)"
  unfolding AllKill_def by (rule fold_ok [OF mark_session_ok])

lemma mark_dead_ok: "room_ok r \<Longrightarrow> room_ok (mark_dead e oid r)"
  by (simp add: mark_dead_def mark_session_ok split: option.split)

lemma Detect_ok: "room_ok r \<Longrightarrow> room_ok (DetectDisconnectedSessions e r)"
  unfolding DetectDisconnectedSessions_def Let_def case_prod_beta'
  by (rule fold_ok) (simp_all add: mark_session_ok split: option.split)

lemma clear_pending_ok: "room_ok r \<Longrightarrow> room_ok (clear_pending r)"
proof -
  have "session_ok k (if ps_leaveState s = LS_PENDING then ClearPendingReliableExcept q s else s) = session_ok k s" for k s q
    by (simp add: session_ok_def gone_ok_def ClearPendingReliableExcept_def)
  then show "room_ok r \<Longrightarrow> ?thesis"
    by (simp add: room_ok_def clear_pending_def room_hm_ok_def hm_ok_map hm_all_map)
qed

lemma leave_session_ok: "room_ok r \<Longrightarrow> room_ok (leave_session e now sid r)"
proof -
  assume ok: "room_ok r"
  define r1 where "r1 = (case GetPlayerSession r sid of
      Some s \<Rightarrow> if ps_leaveState s = LS_PENDING then DetachPlayer e sid r else r | None \<Rightarrow> r)"
  have "room_ok r1" using ok by (simp add: r1_def DetachPlayer_ok split: option.split)
  then have "room_ok (case GetPlayerSession r1 sid of
      Some s \<Rightarrow> if ps_leaveState s = LS_DETACHED \<and> IsFinalizeReady s now then finalize_session sid r1 else r1
    | None \<Rightarrow> r1)"
    by (auto simp: sess_at_def intro!: finalize_session_ok split: option.split)
  then show ?thesis by (simp only: leave_session_def r1_def Let_def)
qed

lemma CheckAllLeft_ok: "room_ok r \<Longrightarrow> room_ok (CheckAllLeft r)"
  by (simp add: CheckAllLeft_def)

lemma pl_marked_ok: "room_ok r \<Longrightarrow> room_ok (pl_marked e r)"
  by (simp add: pl_marked_def Let_def case_prod_beta' clear_pending_ok Detect_ok fold_ok mark_dead_ok AllKill_ok)

lemma ProcessLeaves_ok: "room_ok r \<Longrightarrow> room_ok (ProcessLeaves e r)"
  unfolding ProcessLeaves_alt by (intro CheckAllLeft_ok fold_ok leave_session_ok pl_marked_ok)

lemma RegenPlayerShields_ok: "room_ok r \<Longrightarrow> room_ok (RegenPlayerShields e r)"
proof -
  assume ok: "room_ok r"
  let ?d = "ms_of (e_clock e (gr_reads r)) - gr_lastRegenMs r"
  define el where "el = (if MAX_REGEN_STEP_MS < ?d then MAX_REGEN_STEP_MS else ?d)"
  have "el \<le> 1000" unfolding el_def MAX_REGEN_STEP_MS_def by auto
  then have "uint el \<le> 1000" by (simp add: word_le_def)
  then have "signed_take_bit 31 (uint el) = uint el"
    by (intro signed_take_bit_int_eq_self) (auto intro: order_trans [OF _ uint_ge_0])
  then have nn: "0 \<le> to_i32 el" by (simp add: to_i32_def sint_uint)
  have "po_ok k p \<Longrightarrow> po_ok k (RegenShield el p)" for k p
    using RegenShield_ok [OF _ nn, of p]
    by (auto simp: po_ok_def RegenShield_def ChargeShield_def Let_def)
  then have "hm_all po_ok (map (\<lambda>(oid, p). (oid, RegenShield el p)) m)" if "hm_all po_ok m" for m
    using that by (auto simp: hm_all_iff)
  then have "room_ok (r'\<lparr>gr_playerObjects := map (\<lambda>(oid, p). (oid, RegenShield el p)) (gr_playerObjects r')\<rparr>)"
    if "room_ok r'" for r'
    using that by (simp add: room_ok_def room_hm_ok_def hm_ok_map)
  from this [of "r\<lparr>gr_reads := Suc (gr_reads r), gr_lastRegenMs := ms_of (e_clock e (gr_reads r))\<rparr>"] ok
  show ?thesis by (auto simp: RegenPlayerShields_def Let_def read_clock_def el_def case_prod_beta')
qed

lemma Update_ok: "room_ok r \<Longrightarrow> room_ok (Update e r)"
  by (simp add: Update_def BroadcastPlayerStates_def RegenPlayerShields_ok)

lemma UpdateNpcStates_ok: "room_ok r \<Longrightarrow> room_ok (UpdateNpcStates e r)"
  by (simp add: UpdateNpcStates_def Let_def)

section \<open>Moving items between slots\<close>

lemma deref_assign_other: "a \<noteq> c \<Longrightarrow> deref (assign c y st) a = deref st a"
  by (cases st; cases a; cases c) auto

lemma valid_ref_assign [simp]: "valid_ref (assign c y st) a = valid_ref st a"
  by (cases a) simp_all

lemma assign_core:
  assumes "inv_core (fst st)" "slots_ok (snd st)" "valid_ref st r" "slot_ok s" "slotIndex s = slotIndex (deref st r)"
  shows "inv_core (fst (assign r s st)) \<and> slots_ok (snd (assign r s st))"
  using assign_slots_ok [of st s r] assms by (auto simp: inv_core_def)

lemma assign_two:
  assumes "inv_core (fst st)" "slots_ok (snd st)" "valid_ref st a" "valid_ref st c" "a \<noteq> c"
    "slot_ok x" "slotIndex x = slotIndex (deref st a)" "slot_ok y" "slotIndex y = slotIndex (deref st c)"
  shows "inv_core (fst (assign a x (assign c y st))) \<and> slots_ok (snd (assign a x (assign c y st))) \<and>
    store_total b (assign a x (assign c y st)) =
      store_total b st - qty_of b (deref st a) - qty_of b (deref st c) + qty_of b x + qty_of b y"
proof -
  let ?s = "assign c y st"
  have 1: "inv_core (fst ?s) \<and> slots_ok (snd ?s)" by (rule assign_core) fact+
  have d: "deref ?s a = deref st a" using assms(5) by (rule deref_assign_other)
  have "inv_core (fst (assign a x ?s)) \<and> slots_ok (snd (assign a x ?s))"
    using 1 assms(3,6,7) d by (intro assign_core) auto
  moreover have l: "length (inventorySlots (fst st)) = INVENTORY_SLOT_COUNT" using assms(1) by (simp add: inv_core_def)
  have "store_total b ?s = store_total b st - qty_of b (deref st c) + qty_of b y"
    using l assms(4) by (rule assign_total)
  moreover have "store_total b (assign a x ?s) = store_total b ?s - qty_of b (deref ?s a) + qty_of b x"
    using l assms(3) by (intro assign_total) simp_all
  ultimately show ?thesis using d by simp
qed

lemma take_from_simps:
  assumes "slot_ok s" "0 < q" "q \<le> quantity s"
  shows "slot_ok (take_from q s)" "slotIndex (take_from q s) = slotIndex s"
    "b \<noteq> 0 \<Longrightarrow> qty_of b (take_from q s) = qty_of b s - (if bp s = b then q else 0)"
  using assms by (auto simp: take_from_def Let_def slot_ok_def qty_of_def)

text \<open>An accepted interaction keeps both slot arrays well formed and conserves every blueprint.\<close>

lemma interact_apply_conserves:
  assumes "inv_core (fst st)" "slots_ok (snd st)" "valid_ref st sr" "valid_ref st er" "sr \<noteq> er"
    "slot_ok (deref st sr)" "slot_ok (deref st er)" "\<not> IsEmpty (deref st sr)" "interact_apply ty q sr er st = Inr st'"
  shows "inv_core (fst st') \<and> slots_ok (snd st') \<and> (\<forall>b. b \<noteq> 0 \<longrightarrow> store_total b st' = store_total b st)"
proof -
  let ?s = "deref st sr" and ?t = "deref st er"
  have s0: "bp ?s \<noteq> 0" using assms(6,8) by (simp add: slot_ok_empty)
  note two = assign_two [OF assms(1-5)] and two' = assign_two [OF assms(1,2,4,3) assms(5) [symmetric]]
  consider (get) "IsEmpty ?t" "0 < q" "q \<le> quantity ?s"
      "st' = assign sr (take_from q ?s) (assign er (?t\<lparr>slot_item := slot_item ?s, quantity := q\<rparr>) st)"
    | (swap) "st' = assign er (put_payload ?s ?t) (assign sr (put_payload ?t ?s) st)"
    | (merge) "\<not> IsEmpty ?t" "bp ?s = bp ?t" "0 < q" "q \<le> quantity ?s"
      "st' = assign sr (take_from q ?s) (assign er (?t\<lparr>quantity := quantity ?t + q\<rparr>) st)"
    using assms(9) by (auto simp: interact_apply_def Let_def split: if_splits)
  then show ?thesis
  proof cases
    case get
    note t = take_from_simps [OF assms(6) get(2,3)]
    have "slot_ok (?t\<lparr>slot_item := slot_item ?s, quantity := q\<rparr>)" using get(2) s0 by (simp add: slot_ok_def)
    moreover have "qty_of b ?t = 0" if "b \<noteq> 0" for b using get(1) that by (rule qty_of_empty)
    ultimately show ?thesis
      using two [OF t(1,2), of "?t\<lparr>slot_item := slot_item ?s, quantity := q\<rparr>"] t(3) get(4) by (auto simp: qty_of_def)
  next
    case swap
    then show ?thesis using two' [of "put_payload ?s ?t" "put_payload ?t ?s"] assms(6,7) by simp
  next
    case merge
    note t = take_from_simps [OF assms(6) merge(3,4)]
    have "slot_ok (?t\<lparr>quantity := quantity ?t + q\<rparr>)"
      using assms(7) merge(1,3) by (auto simp: slot_ok_def IsEmpty_def)
    then show ?thesis
      using two [OF t(1,2), of "?t\<lparr>quantity := quantity ?t + q\<rparr>"] t(3) merge(2,5) by (auto simp: qty_of_def)
  qed
qed

text \<open>What the checks before an interaction establish, and its outcome.\<close>

lemma interact_slot_valid:
  assumes "interact_slot s cid co oid v i = Inr (Some ref)"
  shows "valid_ref (ps_inventory s, case co of Some c \<Rightarrow> c_slots c | None \<Rightarrow> []) ref"
  using assms by (auto simp: interact_slot_def InvGetSlotMutable_def ContGetSlotMutable_def nat_less_iff
      split: if_splits option.splits)

lemma interact_result_Inr:
  assumes "interact_result r s q = Inr (cid, co, st)" "inv_ok (ps_inventory s)"
    "\<And>c. co = Some c \<Longrightarrow> slots_ok (c_slots c)"
  shows "inv_core (fst st) \<and> slots_ok (snd st) \<and> length (snd st) = (case co of Some c \<Rightarrow> length (c_slots c) | None \<Rightarrow> 0) \<and>
    (\<forall>b. b \<noteq> 0 \<longrightarrow> store_total b st = carried b (ps_inventory s) + (case co of Some c \<Rightarrow> contents b c | None \<Rightarrow> 0))"
proof -
  let ?st = "(ps_inventory s, case co of Some c \<Rightarrow> c_slots c | None \<Rightarrow> [])"
  from assms(1) obtain sr er where
    c: "interact_container r s q = Inr (cid, co)"
    and sr: "interact_slot s cid co (ii_start_object_id q) (ii_start_version q) (ii_start_slot_idx q) = Inr (Some sr)"
    and er: "interact_slot s cid co (ii_end_object_id q) (ii_end_version q) (ii_end_slot_idx q) = Inr (Some er)"
    and ne: "sr \<noteq> er" "\<not> IsEmpty (deref ?st sr)"
    and ap: "interact_apply (ii_interact_type q) (ii_quantity q) sr er ?st = Inr st"
    by (auto simp: interact_result_def Let_def map_sum_def split: if_splits sum.splits option.splits prod.splits)
  have sl: "slots_ok (snd ?st)" using assms(3) by (auto simp: slots_ok_def split: option.split)
  have so: "store_ok ?st" using assms(2) sl by (simp add: store_ok_def)
  have v: "valid_ref ?st sr" "valid_ref ?st er" using interact_slot_valid [OF sr] interact_slot_valid [OF er] by auto
  have l: "length (snd st) = length (snd ?st)"
    using ap by (auto simp: interact_apply_def Let_def split: if_splits)
  have "inv_core (fst st) \<and> slots_ok (snd st) \<and> (\<forall>b. b \<noteq> 0 \<longrightarrow> store_total b st = store_total b ?st)"
    using inv_ok_core [OF assms(2)] sl v ne deref_ok [OF so] ap by (intro interact_apply_conserves) auto
  with l show ?thesis by (auto simp: store_total_def contents_def split: option.splits)
qed

lemma interact_container_co:
  assumes "interact_container r s q = Inr (cid, Some c)"
  shows "FindNonplayerObject r (to_u32 cid) = Some (ContainerObj c)"
  using assms by (auto simp: interact_container_def Let_def split: if_splits option.splits NonplayerObject.splits)

lemma interact_result_cont:
  assumes "interact_result r s q = Inr (cid, co, st)"
  shows "co = Some c \<Longrightarrow> FindNonplayerObject r (to_u32 cid) = Some (ContainerObj c)"
    "ii_start_object_id q \<noteq> PLAYER_OBJECT_ID_SENTINEL \<or> ii_end_object_id q \<noteq> PLAYER_OBJECT_ID_SENTINEL \<Longrightarrow> co \<noteq> None"
    "ii_start_object_id q \<noteq> PLAYER_OBJECT_ID_SENTINEL \<Longrightarrow> ii_end_object_id q \<noteq> PLAYER_OBJECT_ID_SENTINEL \<Longrightarrow>
       fst st = ps_inventory s"
proof -
  from assms obtain sr er where
    c: "interact_container r s q = Inr (cid, co)"
    and sr: "interact_slot s cid co (ii_start_object_id q) (ii_start_version q) (ii_start_slot_idx q) = Inr (Some sr)"
    and er: "interact_slot s cid co (ii_end_object_id q) (ii_end_version q) (ii_end_slot_idx q) = Inr (Some er)"
    and ap: "interact_apply (ii_interact_type q) (ii_quantity q) sr er
      (ps_inventory s, case co of Some c \<Rightarrow> c_slots c | None \<Rightarrow> []) = Inr st"
    by (auto simp: interact_result_def Let_def map_sum_def split: if_splits sum.splits option.splits prod.splits)
  show "co = Some c \<Longrightarrow> FindNonplayerObject r (to_u32 cid) = Some (ContainerObj c)"
    using c interact_container_co by blast
  show "ii_start_object_id q \<noteq> PLAYER_OBJECT_ID_SENTINEL \<or> ii_end_object_id q \<noteq> PLAYER_OBJECT_ID_SENTINEL \<Longrightarrow> co \<noteq> None"
    using c by (auto simp: interact_container_def Let_def split: if_splits option.splits NonplayerObject.splits)
  assume "ii_start_object_id q \<noteq> PLAYER_OBJECT_ID_SENTINEL" "ii_end_object_id q \<noteq> PLAYER_OBJECT_ID_SENTINEL"
  with sr er obtain i j where "sr = ContainerSlot i" "er = ContainerSlot j"
    by (auto simp: interact_slot_def split: if_splits option.splits)
  with ap show "fst st = ps_inventory s" by (auto simp: interact_apply_def Let_def split: if_splits)
qed

section \<open>Handlers\<close>

lemma on_active_P:
  "P r \<Longrightarrow> (\<And>s. GetPlayerSession r sid = Some s \<Longrightarrow> IsActiveState s \<Longrightarrow> P (fst (f s))) \<Longrightarrow> P (fst (on_active sid r f))"
  by (simp add: on_active_def split: option.split)

lemma on_player_P:
  "P r \<Longrightarrow> (\<And>s. GetPlayerSession r sid = Some s \<Longrightarrow> IsActiveState s \<Longrightarrow> ps_objectId s \<noteq> - 1 \<Longrightarrow> P (fst (f s))) \<Longrightarrow>
   P (fst (on_player sid r f))"
  unfolding on_player_def by (rule on_active_P) auto

lemma on_object_P:
  "P r \<Longrightarrow> (\<And>s p. GetPlayerSession r sid = Some s \<Longrightarrow> IsActiveState s \<Longrightarrow> ps_objectId s \<noteq> - 1 \<Longrightarrow>
     FindPlayerObject r (to_u32 (ps_objectId s)) = Some p \<Longrightarrow> P (fst (f s p))) \<Longrightarrow> P (fst (on_object sid r f))"
  unfolding on_object_def by (rule on_player_P) (auto split: option.split)

lemma on_npc_P:
  "P r \<Longrightarrow> (\<And>s n. GetPlayerSession r sid = Some s \<Longrightarrow> IsActiveState s \<Longrightarrow> FindHostileNpc r i = Some n \<Longrightarrow> P (fst (f s n))) \<Longrightarrow>
   P (fst (on_npc sid i r f))"
  unfolding on_npc_def by (rule on_player_P) (auto split: option.split)

lemma fold_send_quiet: "quiet r (fold (send_to e sid) ms r)"
  by (rule quiet_fold) (rule send_to_quiet)

lemma fold_send_ok [simp]: "room_ok (fold (send_to e sid) ms r) = room_ok r"
  by (rule room_ok_quiet [OF fold_send_quiet])

lemma Find_frame [simp]:
  "FindNonplayerObject (mod_session k f r) oid = FindNonplayerObject r oid"
  "FindPlayerObject (mod_session k f r) oid = FindPlayerObject r oid"
  "FindContainer (mod_session k f r) oid = FindContainer r oid"
  "FindHostileNpc (mod_session k f r) oid = FindHostileNpc r oid"
  by (simp_all add: FindNonplayerObject_def FindPlayerObject_def FindContainer_def FindHostileNpc_def mod_session_def
      cong: option.case_cong)

lemma set_inventory_ok: "session_ok k s \<Longrightarrow> inv_ok iv \<Longrightarrow> session_ok k (set_inventory iv s)"
  by (simp add: session_ok_def gone_ok_def set_inventory_def)

lemma ApplyTransform_ok [simp]:
  "objectId (ApplyTransform t g) = objectId g" "combat_ok (ApplyTransform t c) = combat_ok c"
  by (auto simp: ApplyTransform_def Let_def combat_ok_def split: option.split Rotation.split)

lemma ApplyState_ok: "po_ok oid p \<Longrightarrow> po_ok oid (ApplyState st p)"
proof (cases "st_movement_info st")
  case (Some m)
  let ?x = "ApplyTransform (transform_of m) p"
  have "combat_ok (ApplyState st p) = combat_ok ?x" "objectId (ApplyState st p) = objectId ?x"
    by (simp_all add: ApplyState_def Some combat_ok_def)
  then show "po_ok oid p \<Longrightarrow> ?thesis" by (simp add: po_ok_def)
qed (simp add: ApplyState_def)

lemma ApplyMovementInfo_ok: "np_ok oid (NpcObj n) \<Longrightarrow> np_ok oid (NpcObj (ApplyMovementInfo m n))"
proof -
  let ?x = "ApplyTransform (transform_of m) n"
  have "combat_ok (ApplyMovementInfo m n) = combat_ok ?x" "objectId (ApplyMovementInfo m n) = objectId ?x"
    by (simp_all add: ApplyMovementInfo_def combat_ok_def)
  moreover have "attackDamage (ApplyMovementInfo m n) = attackDamage n"
    by (simp add: ApplyMovementInfo_def ApplyTransform_def Let_def split: option.split Rotation.split)
  ultimately show "np_ok oid (NpcObj n) \<Longrightarrow> ?thesis" using npc_step_ok [of n "Move m"] by simp
qed

lemma TakeDamage_frame [simp]:
  "objectId (TakeDamage d a c) = objectId c" "attackDamage (TakeDamage d a n) = attackDamage n"
  by (simp_all add: TakeDamage_def Let_def)

lemma TakeDamage_np_ok: "np_ok oid (NpcObj n) \<Longrightarrow> 0 \<le> d \<Longrightarrow> np_ok oid (NpcObj (TakeDamage d a n))"
  using npc_step_ok [of n "Hit d a"] by (simp add: TakeDamage_ok)

lemma TakeDamage_po_ok: "po_ok oid p \<Longrightarrow> 0 \<le> d \<Longrightarrow> po_ok oid (TakeDamage d a p)"
  by (simp add: po_ok_def TakeDamage_ok)

lemma request_ok:
  assumes "np_ok oid (NpcObj n)"
  shows "np_ok oid (NpcObj (fst (ApplyAggroRequest i a n)))" "np_ok oid (NpcObj (fst (ApplyAuthorityRequest i a n)))"
    "np_ok oid (NpcObj (fst (ApplyDamageAuthority i n)))"
  using assms npc_step_ok [of n "AggroRequest i a"] npc_step_ok [of n "AuthorityRequest i a"] npc_step_ok [of n "DamageBy i"]
  by (auto simp: npc_defs combat_ok_def)

lemma SetWeapons_ok: "po_ok oid p \<Longrightarrow> po_ok oid (SetWeapons a b p)"
  by (simp add: po_ok_def SetWeapons_def combat_ok_def)

lemma SetArmor_po_ok: "po_ok oid p \<Longrightarrow> po_ok oid (SetArmor a p)"
  using SetArmor_ok [of p a] by (auto simp: po_ok_def SetArmor_def SetShield_def split: option.split)

lemma spawned_player_ok: "po_ok oid (spawned_player s oid sp)"
proof -
  have "po_ok oid (MakePlayerObject oid sp ct nm)" for ct nm
    by (simp add: po_ok_def combat_ok_def MakePlayerObject_def PLAYER_DEFAULT_MAX_HP_def)
  then have p: "po_ok oid (SetArmor a (SetWeapons b c (MakePlayerObject oid sp ct nm)))" for a b c ct nm
    by (intro SetArmor_po_ok SetWeapons_ok)
  have "po_ok oid x \<Longrightarrow> po_ok oid (ChargeShield (maxShield x) x)" for x :: PlayerObject
    using ChargeShield_ok [of x "maxShield x"] by (auto simp: po_ok_def combat_ok_def ChargeShield_def Let_def)
  then show ?thesis using p by (simp add: spawned_player_def Let_def)
qed

lemma spawned_player_id [simp]: "objectId (spawned_player s oid sp) = oid"
  using spawned_player_ok [of oid s sp] by (simp add: po_ok_def)

lemmas on_active_ok = on_active_P [where P = room_ok]
lemmas on_player_ok = on_player_P [where P = room_ok]
lemmas on_object_ok = on_object_P [where P = room_ok]
lemmas on_npc_ok = on_npc_P [where P = room_ok]

lemma session_state_ok:
  "session_ok k s \<Longrightarrow> ps_sessionState s = SS_CONNECTED \<or> ps_sessionState s = SS_INIT \<Longrightarrow>
     session_ok k (s\<lparr>ps_sessionState := x\<rparr>)"
  by (auto simp: session_ok_def gone_ok_def)

lemma active_not_gone: "session_ok k s \<Longrightarrow> IsActiveState s \<Longrightarrow> ps_leaveState s \<noteq> LS_DETACHED \<and> ps_leaveState s \<noteq> LS_FINALIZED"
  by (auto simp: session_ok_def gone_ok_def IsActiveState_def)

lemma connect_handlers_ok:
  assumes ok: "room_ok r"
  shows "room_ok (fst (Handle_C2D_ChannelOpen e sid echo addr r))" "room_ok (fst (Handle_C2D_HeartBeat e sid r))"
    "room_ok (fst (Handle_C2D_RequestBlueprint e sid r))" "room_ok (fst (Handle_C2D_RequestSpawnByObjectId e sid oid r))"
    "room_ok (fst (Handle_C2D_RequestSpawnPlayerObjects e sid r))" "room_ok (fst (Handle_C2D_NotifyLoadingComplete sid r))"
    "room_ok (fst (Handle_C2D_RequestRecentInventoryInfo e sid oid' r))"
proof -
  show "room_ok (fst (Handle_C2D_ChannelOpen e sid echo addr r))"
    using ok by (auto simp: Handle_C2D_ChannelOpen_def Let_def SetPort_def session_ok_def gone_ok_def
        split: option.split intro!: mod_session_ok)
  show "room_ok (fst (Handle_C2D_HeartBeat e sid r))"
    using ok by (simp add: Handle_C2D_HeartBeat_def split: option.split)
  show "room_ok (fst (Handle_C2D_RequestBlueprint e sid r))"
    unfolding Handle_C2D_RequestBlueprint_def by (rule on_active_ok) (simp_all add: ok)
  show "room_ok (fst (Handle_C2D_RequestSpawnByObjectId e sid oid r))"
    unfolding Handle_C2D_RequestSpawnByObjectId_def by (rule on_player_ok) (simp_all add: ok split: option.split)
  show "room_ok (fst (Handle_C2D_RequestSpawnPlayerObjects e sid r))"
    unfolding Handle_C2D_RequestSpawnPlayerObjects_def by (rule on_player_ok) (simp_all add: ok)
  show "room_ok (fst (Handle_C2D_NotifyLoadingComplete sid r))"
    using ok by (auto simp: Handle_C2D_NotifyLoadingComplete_def split: option.split intro!: mod_session_ok session_state_ok)
  show "room_ok (fst (Handle_C2D_RequestRecentInventoryInfo e sid oid' r))"
    unfolding Handle_C2D_RequestRecentInventoryInfo_def by (rule on_active_ok) (simp_all add: ok split: option.split)
qed

lemma apply_npc_state_ok: "room_ok r \<Longrightarrow> room_ok (apply_npc_state oid m r)"
  by (auto simp: apply_npc_state_def split: option.split intro!: mod_npc_ok ApplyMovementInfo_ok simp del: np_ok.simps)

lemma UpdatePlayerState_ok: "room_ok r \<Longrightarrow> room_ok (fst (Handle_C2D_UpdatePlayerState sid st npcs r))"
  unfolding Handle_C2D_UpdatePlayerState_def
  by (rule on_player_ok)
    (auto split: option.split intro!: fold_ok apply_npc_state_ok mod_player_ok ApplyState_ok)

lemma active_object_ok:
  "session_ok k s \<Longrightarrow> IsActiveState s \<Longrightarrow> session_ok k (SetObjectId i s)"
  by (auto simp: session_ok_def gone_ok_def SetObjectId_def IsActiveState_def)

lemma sess_at_active_quiet:
  "quiet r r' \<Longrightarrow> sess_at IsActiveState sid r' = sess_at IsActiveState sid r"
  by (erule sess_at_quiet) (drule core_fields(3), simp add: IsActiveState_def)

lemma RequestSpawnMe_ok: "room_ok r \<Longrightarrow> room_ok (fst (Handle_C2D_RequestSpawnMe e sid r))"
  unfolding Handle_C2D_RequestSpawnMe_def
proof (rule on_active_ok)
  fix s
  assume ok: "room_ok r" and s: "GetPlayerSession r sid = Some s" "IsActiveState s"
  let ?r2 = "snd (GetNewObjectId (snd (SetSpawnSpot r)))"
  let ?oid = "fst (GetNewObjectId (snd (SetSpawnSpot r)))"
  let ?r3 = "SpawnPlayerObject e (spawned_player s ?oid (fst (SetSpawnSpot r))) sid ?r2"
  have g: "GetPlayerSession ?r2 sid = Some s" using s by (simp add: GetNewObjectId_def SetSpawnSpot_def GetPlayerSession_def)
  have "room_ok ?r2" using ok by (simp add: GetNewObjectId_def SetSpawnSpot_def)
  then have o3: "room_ok ?r3" by (intro spawn_ok) (simp_all add: spawned_player_ok)
  have "sess_at IsActiveState sid ?r3"
    using g s(2) by (simp add: SpawnPlayerObject_def NotifySpawnPlayerObject_def sess_at_active_quiet [OF BroadcastExcept_quiet])
      (simp add: sess_at_def)
  then have "room_ok (mod_session sid (SetObjectId (to_i32 ?oid)) ?r3)"
    using o3 by (intro mod_session_ok active_object_ok) (auto simp: sess_at_def)
  moreover have "room_ok (snd (GetRemainingLifetimeMs e x)) = room_ok x" for x
    by (simp add: GetRemainingLifetimeMs_def Let_def case_prod_beta')
  ultimately show "room_ok (fst (let (sp, r1) = SetSpawnSpot r; (oid, r2) = GetNewObjectId r1;
           r3 = SpawnPlayerObject e (spawned_player s oid sp) sid r2;
           r4 = mod_session sid (SetObjectId (to_i32 oid)) r3; (life, r5) = GetRemainingLifetimeMs e r4;
           r6 = send_to e sid (D_SpawnMeSpawnSpot sp (p_characterType (ps_player s)) oid life) r5;
           r7 = send_to e sid (D_FullInventorySync (SerializeFullInventory (ps_inventory s))) r6
       in (fold (send_to e sid) (FillDynamicObjects e r7) r7, True)))"
    by (simp add: Let_def case_prod_beta')
qed

lemma displace_holder_ok: "room_ok r \<Longrightarrow> room_ok (displace_holder h r)"
  by (simp add: displace_holder_def mod_session_ok set_container_none_ok split: option.split)

lemma sess_at_active_mod:
  "sess_at IsActiveState sid r \<Longrightarrow> sess_at IsActiveState sid (mod_session k (SetInteractingContainerId i) r)"
  by (rule sess_at_mod) (simp_all add: IsActiveState_def SetInteractingContainerId_def)

lemma open_container_ok: "session_ok k s \<Longrightarrow> IsActiveState s \<Longrightarrow> session_ok k (SetInteractingContainerId i s)"
  by (auto simp: session_ok_def gone_ok_def SetInteractingContainerId_def IsActiveState_def)

lemma RequestOpenContainer_ok: "room_ok r \<Longrightarrow> room_ok (fst (Handle_C2D_RequestOpenContainer e sid cid r))"
  unfolding Handle_C2D_RequestOpenContainer_def
proof (rule on_active_ok)
  fix s
  assume ok: "room_ok r" and s: "GetPlayerSession r sid = Some s" "IsActiveState s"
  have a: "sess_at IsActiveState sid r" using s by (simp add: sess_at_def)
  have "sess_at IsActiveState sid (displace_holder h r)" for h
    using a by (simp add: displace_holder_def sess_at_active_mod split: option.split)
  moreover have "sess_at IsActiveState sid (ReleaseInteractingContainer sid r')" if "sess_at IsActiveState sid r'" for r'
    using that by (simp add: ReleaseInteractingContainer_def Let_def sess_at_active_mod split: option.split)
  ultimately have act: "sess_at IsActiveState sid (mod_container cid cf
      (ReleaseInteractingContainer sid (if b then displace_holder h r else r)))" for b h cf
    using a by simp
  have "room_ok (mod_session sid (SetInteractingContainerId (to_i32 cid))
      (mod_container cid (SetInteractingPlayerId i) (ReleaseInteractingContainer sid (if b then displace_holder h r else r))))" for b h i
  proof (rule mod_session_ok)
    show "room_ok (mod_container cid (SetInteractingPlayerId i)
        (ReleaseInteractingContainer sid (if b then displace_holder h r else r)))"
      using ok by (auto simp del: np_ok.simps
          intro!: mod_container_ok SetInteractingPlayerId_ok ReleaseInteractingContainer_ok displace_holder_ok)
  qed (use act [of "SetInteractingPlayerId i" b h] open_container_ok in \<open>auto simp: sess_at_def\<close>)
  then show "room_ok (fst (case FindContainer r cid of None \<Rightarrow> (r, False)
       | Some c \<Rightarrow>
           if ps_objectId s = - 1 then (r, False)
           else if \<not> IsPlayerNearContainer r (to_u32 (ps_objectId s)) cid then (r, False)
           else
             let holder = c_interactingPlayerId c;
                 other = (holder \<noteq> NO_INTERACTING_PLAYER \<and> holder \<noteq> to_u32 (ps_objectId s))
             in if other \<and> IsPlayerNearContainer r holder cid then (r, False)
                else
                  let r1 = (if other then displace_holder holder r else r);
                      r2 = ReleaseInteractingContainer sid r1;
                      r3 = mod_container cid (SetInteractingPlayerId (to_u32 (ps_objectId s))) r2;
                      r4 = mod_session sid (SetInteractingContainerId (to_i32 cid)) r3
                  in (send_to e sid (SerializeOpenContainer (SetInteractingPlayerId (to_u32 (ps_objectId s)) c)) r4, True)))"
    using ok by (simp add: Let_def split: option.split)
qed

lemma CloseContainer_ok: "room_ok r \<Longrightarrow> room_ok (fst (Handle_C2D_CloseContainer sid r))"
  unfolding Handle_C2D_CloseContainer_def by (rule on_active_ok) (simp_all add: ReleaseInteractingContainer_ok)

lemma container_slots_ok:
  "np_ok oid (ContainerObj c) \<Longrightarrow> slots_ok ss \<Longrightarrow> length ss = 30 \<Longrightarrow> np_ok oid (ContainerObj (c\<lparr>c_slots := ss\<rparr>))"
  by (simp add: container_ok_def)

lemma IncrementContainerVersion_ok:
  "np_ok oid (ContainerObj c) \<Longrightarrow> np_ok oid (ContainerObj (IncrementContainerVersion c))"
  by (simp add: IncrementContainerVersion_def container_ok_def)

lemma RequestInteract_ok: "room_ok r \<Longrightarrow> room_ok (fst (Handle_C2D_RequestInteractContainerObject e sid q r))"
  unfolding Handle_C2D_RequestInteractContainerObject_def
proof (rule on_active_ok)
  fix s
  assume ok: "room_ok r" and s: "GetPlayerSession r sid = Some s" "IsActiveState s"
  have iv: "inv_ok (ps_inventory s)" using room_okD(2) [OF ok s(1)] by (simp add: session_ok_def)
  let ?S = "ii_start_object_id q = PLAYER_OBJECT_ID_SENTINEL" and ?E = "ii_end_object_id q = PLAYER_OBJECT_ID_SENTINEL"
  have "room_ok (if \<not> ?S \<or> \<not> ?E
       then mod_container (to_u32 cid) (\<lambda>c. IncrementContainerVersion (c\<lparr>c_slots := snd st\<rparr>)) (mod_session sid (set_inventory i) r)
       else mod_session sid (set_inventory i) r)"
    if res: "interact_result r s q = Inr (cid, co, st)"
      and i: "i = (if ?S \<or> ?E then IncrementInventoryVersion (UpdateFirstEmptySlotIndex (fst st)) else fst st)" for cid co st i
  proof -
    have co: "container_ok c" if "co = Some c" for c
      using interact_result_cont(1) [OF res that] room_okD(4) [OF ok] by fastforce
    then have *: "inv_core (fst st) \<and> slots_ok (snd st) \<and> length (snd st) = (case co of Some c \<Rightarrow> length (c_slots c) | None \<Rightarrow> 0)"
      using interact_result_Inr [OF res iv] by (auto simp: container_ok_def)
    have "inv_ok i" using * iv interact_result_cont(3) [OF res] by (auto simp: i)
    then have o1: "room_ok (mod_session sid (set_inventory i) r)"
      by (intro mod_session_ok [OF ok] set_inventory_ok)
    have "length (snd st) = 30" if "\<not> ?S \<or> \<not> ?E"
    proof -
      obtain c where c: "co = Some c" using interact_result_cont(2) [OF res] \<open>\<not> ?S \<or> \<not> ?E\<close> by auto
      then show ?thesis using * co [OF c] by (simp add: container_ok_def)
    qed
    then show ?thesis using o1 * by (auto simp del: np_ok.simps intro!: mod_container_ok IncrementContainerVersion_ok container_slots_ok)
  qed
  then show "room_ok (fst (case interact_result r s q of
         Inl d \<Rightarrow> (send_to e sid (D_InteractDeny d) r, False)
       | Inr (cid, co, st) \<Rightarrow>
           let startP = (ii_start_object_id q = PLAYER_OBJECT_ID_SENTINEL);
               endP = (ii_end_object_id q = PLAYER_OBJECT_ID_SENTINEL);
               iv = (if startP \<or> endP then IncrementInventoryVersion (UpdateFirstEmptySlotIndex (fst st)) else fst st);
               r1 = mod_session sid (set_inventory iv) r;
               r2 = (if \<not> startP \<or> \<not> endP
                     then mod_container (to_u32 cid) (\<lambda>c. IncrementContainerVersion (c\<lparr>c_slots := snd st\<rparr>)) r1 else r1);
               cv = (case co of Some c \<Rightarrow> c_version c + 1 | None \<Rightarrow> 0)
           in (send_to e sid (D_InteractContainerObject
                 (q\<lparr>ii_start_version := (if startP then inventoryVersion iv else cv),
                    ii_end_version := (if endP then inventoryVersion iv else cv)\<rparr>)) r2, True)))"
    using ok by (simp add: Let_def split: sum.split)
qed

text \<open>Equipment: what the checks establish, and the exchange on the store.\<close>

lemma equip_slot_Inr:
  assumes "equip_slot r s q = Inr (ref, co)"
  shows "valid_ref (ps_inventory s, case co of Some (cid, c) \<Rightarrow> c_slots c | None \<Rightarrow> []) ref"
    "co = Some (cid, c) \<Longrightarrow> FindNonplayerObject r (to_u32 cid) = Some (ContainerObj c)"
    "co = None \<longleftrightarrow> ei_object_id q = PLAYER_OBJECT_ID_SENTINEL"
  using assms by (auto simp: equip_slot_def Let_def InvGetSlotMutable_def ContGetSlotMutable_def nat_less_iff
      split: if_splits option.splits NonplayerObject.splits)

lemma equip_apply_exchange:
  assumes "store_ok st" "valid_ref st ref" "equip_apply q ref st = (st', ok, d, u)"
  shows "\<exists>lost. exchange_ok st lost 0 st' ok d"
proof -
  note ex = EquipWeapon_exchange [OF assms(1,2)] UnequipWeapon_exchange [OF assms(1,2)] Armor_exchange [OF assms(1,2)]
  have "(\<exists>p. EquipWeaponFromSlot ref p 0 (- 1) st = (st', ok, d, u)) \<or> (\<exists>p. UnequipWeaponToSlot ref p 0 (- 1) st = (st', ok, d, u)) \<or>
      EquipArmorFromSlot ref 0 st = (st', ok, d) \<or> UnequipArmorToSlot ref 0 st = (st', ok, d)"
    using assms(3) by (auto simp: equip_apply_def Let_def split: if_splits prod.splits)
  then show ?thesis using ex by blast
qed

lemma equip_apply_length:
  assumes "store_ok st" "valid_ref st ref" "equip_apply q ref st = (st', ok, d, u)"
  shows "length (snd st') = length (snd st)"
  using assms(3)
  by (auto simp: equip_apply_def Let_def EquipWeaponFromSlot_def UnequipWeaponToSlot_def EquipArmorFromSlot_def
      UnequipArmorToSlot_def finish_equip_def split: if_splits prod.splits)

lemma equip_object_ok: "room_ok r \<Longrightarrow> room_ok (equip_object e sid s ty iv r)"
  using room_okD(3) [of r "to_u32 (ps_objectId s)"]
  by (auto simp: equip_object_def Let_def split: option.split intro!: mod_player_ok SetArmor_po_ok SetWeapons_ok)

lemma RequestEquipItem_ok: "room_ok r \<Longrightarrow> room_ok (fst (Handle_C2D_RequestEquipItem e sid q r))"
  unfolding Handle_C2D_RequestEquipItem_def
proof (rule on_active_ok)
  fix s
  assume ok: "room_ok r" and s: "GetPlayerSession r sid = Some s" "IsActiveState s"
  have iv: "inv_ok (ps_inventory s)" using room_okD(2) [OF ok s(1)] by (simp add: session_ok_def)
  have "room_ok r2"
    if e: "equip_slot r s q = Inr (ref, co)"
      and a: "equip_apply q ref (ps_inventory s, case co of Some (cid, c) \<Rightarrow> c_slots c | None \<Rightarrow> []) = (st, b, d, u)"
      and r2: "r2 = (case co of None \<Rightarrow> mod_session sid (set_inventory (fst st)) r
          | Some (cid, c) \<Rightarrow> mod_container (to_u32 cid) (\<lambda>c. c\<lparr>c_slots := snd st\<rparr>) (mod_session sid (set_inventory (fst st)) r))"
    for ref co st b d u r2
  proof -
    let ?st = "(ps_inventory s, case co of Some (cid, c) \<Rightarrow> c_slots c | None \<Rightarrow> [])"
    have c: "container_ok c" if "co = Some (cid, c)" for cid c
      using equip_slot_Inr(2) [OF e that] room_okD(4) [OF ok] by fastforce
    have so: "store_ok ?st" using iv c by (auto simp: store_ok_def container_ok_def slots_ok_def split: option.split)
    note v = equip_slot_Inr(1) [OF e]
    obtain lost where "exchange_ok ?st lost 0 st b d" using equip_apply_exchange [OF so v a] ..
    then have st: "store_ok st" using so by (auto simp: exchange_ok_def split: if_splits)
    then have o1: "room_ok (mod_session sid (set_inventory (fst st)) r)"
      by (intro mod_session_ok [OF ok] set_inventory_ok) (simp_all add: store_ok_def)
    have "length (snd st) = 30" if "co = Some (cid, c)" for cid c
      using equip_apply_length [OF so v a] c [OF that] that by (simp add: container_ok_def)
    then show ?thesis using o1 st
      by (auto simp: r2 store_ok_def simp del: np_ok.simps split: option.split intro!: mod_container_ok container_slots_ok)
  qed
  note r2 = this [OF _ _ refl]
  have r3: "room_ok (case co of None \<Rightarrow> x | Some (cid, c) \<Rightarrow> mod_container (to_u32 cid) IncrementContainerVersion x)"
    if "room_ok x" for x and co :: "(i32 \<times> Container) option"
    using that by (auto simp del: np_ok.simps split: option.split intro!: mod_container_ok IncrementContainerVersion_ok)
  show "room_ok (fst (let deny = (\<lambda>d r'. (send_to e sid (D_EquipDeny d) r', False)) in
       if 1 < ei_action_type q then deny DENY_SERVER_INTERNAL r
       else if 2 < ei_equipment_slot_type q then deny DENY_SERVER_INTERNAL r
       else case equip_slot r s q of Inl d \<Rightarrow> deny d r
         | Inr (ref, co) \<Rightarrow>
             let (st, ok, d, unloaded) =
                   equip_apply q ref (ps_inventory s, case co of Some (cid, c) \<Rightarrow> c_slots c | None \<Rightarrow> []);
                 r1 = mod_session sid (set_inventory (fst st)) r;
                 r2 = (case co of None \<Rightarrow> r1
                       | Some (cid, c) \<Rightarrow> mod_container (to_u32 cid) (\<lambda>c. c\<lparr>c_slots := snd st\<rparr>) r1)
             in if \<not> ok then deny d r2
                else
                  let r3 = (case co of None \<Rightarrow> r2 | Some (cid, c) \<Rightarrow> mod_container (to_u32 cid) IncrementContainerVersion r2);
                      r4 = equip_object e sid s (ei_equipment_slot_type q) (fst st) r3;
                      own = (ei_object_id q = PLAYER_OBJECT_ID_SENTINEL);
                      resp = q\<lparr>ei_object_version := (case co of None \<Rightarrow> inventoryVersion (fst st) | Some (cid, c) \<Rightarrow> c_version c + 1),
                               ei_my_version := (if own then 0 else inventoryVersion (fst st))\<rparr>
                  in (send_to e sid (D_EquipItem resp
                        (if unloaded = - 1 then None else SerializeSlot (fst st) unloaded)) r4, True)))"
    using ok r2 by (auto simp: Let_def split: sum.split prod.split intro!: equip_object_ok r3)
qed

lemma RequestSwitchWeapon_ok: "room_ok r \<Longrightarrow> room_ok (fst (Handle_C2D_RequestSwitchWeapon e sid t v r))"
  unfolding Handle_C2D_RequestSwitchWeapon_def
  by (rule on_object_ok)
    (auto simp: Let_def po_ok_def combat_ok_def dest: room_okD(3) intro!: mod_player_ok)

lemma leaveNotify_ok: "session_ok k s \<Longrightarrow> session_ok k (s\<lparr>ps_leaveNotifyRSeq := q\<rparr>)"
  by (simp add: session_ok_def gone_ok_def)

lemma send_health_ok: "room_ok r \<Longrightarrow> room_ok (send_health e hs c reason a r)"
  by (simp add: send_health_def Let_def mod_session_ok leaveNotify_ok)

lemma notify_hit_ok: "room_ok r \<Longrightarrow> room_ok (notify_hit e hit c a r)"
  by (simp add: notify_hit_def send_health_ok split: option.split)

lemma fire_hit_ok: "room_ok r \<Longrightarrow> room_ok (fire_hit e shooter w hit r)"
proof -
  assume ok: "room_ok r"
  have d: "0 \<le> baseDamage spec" if "GetWeaponSpec w = Some spec" for spec
    using weapon_spec_cases [OF that] by simp
  have p: "room_ok (mod_player hit (\<lambda>_. TakeDamage (baseDamage spec) a p) r)"
    if "FindPlayerObject r hit = Some p" "GetWeaponSpec w = Some spec" for p spec a
    using room_okD(3) [OF ok that(1)] d [OF that(2)] by (intro mod_player_ok [OF ok] TakeDamage_po_ok)
  have n: "np_ok hit (NpcObj (TakeDamage (baseDamage spec) a n))"
    if "FindHostileNpc r hit = Some n" "GetWeaponSpec w = Some spec" for n spec a
    using room_okD(4) [OF ok, of hit "NpcObj n"] that d [OF that(2)]
    by (intro TakeDamage_np_ok) (simp_all add: FindHostileNpc_Some del: np_ok.simps)
  have n1: "room_ok (mod_npc hit (\<lambda>_. n') r')" if "np_ok hit (NpcObj n')" "room_ok r'" for n' r'
    using that by (intro mod_npc_ok)
  show ?thesis
    using ok
    by (auto simp: fire_hit_def Let_def case_prod_beta' simp del: np_ok.simps split: option.split
        intro!: notify_hit_ok DestroyDeadObject_ok p n n1 request_ok(3))
qed

lemma take_from_ok: "slot_ok s \<Longrightarrow> \<not> IsEmpty s \<Longrightarrow> slot_ok (take_from 1 s)"
  by (auto simp: take_from_def Let_def slot_ok_def IsEmpty_def)

text \<open>One round leaves the magazine of a well-formed inventory.\<close>

lemma fire_magazine_ok:
  assumes "inv_ok iv" "\<not> IsEmpty (magazine_of p iv)"
  shows "inv_ok (set_magazine p (take_from 1 (magazine_of p iv)) iv)"
proof -
  have m: "mag_ok (weapon_of p iv) (magazine_of p iv)" using assms(1) by (simp add: inv_ok_def inv_core_def)
  then have "slot_ok (take_from 1 (magazine_of p iv))" using assms(2) by (intro take_from_ok) (auto simp: mag_ok_def)
  moreover have "IsEmpty (take_from 1 x) \<or> (bp (take_from 1 x) = bp x \<and> quantity (take_from 1 x) \<le> quantity x)" for x
    by (auto simp: take_from_def Let_def)
  ultimately have m': "mag_ok (weapon_of p iv) (take_from 1 (magazine_of p iv))"
    using m assms(2) by (fastforce simp: mag_ok_def split: option.splits)
  have "mag_ok (weapon_of q iv) (magazine_of q (set_magazine p x iv))" if "mag_ok (weapon_of p iv) x" for q x
    using that assms(1) by (cases "q = p") (auto simp: inv_ok_def inv_core_def)
  with m' assms(1) show ?thesis by (auto simp: inv_ok_def inv_core_def)
qed

lemma RequestWeaponFire_ok: "room_ok r \<Longrightarrow> room_ok (fst (Handle_C2D_RequestWeaponFire e sid fs w hp hit r))"
  unfolding Handle_C2D_RequestWeaponFire_def
proof (rule on_player_ok)
  fix s
  assume ok: "room_ok r" and s: "GetPlayerSession r sid = Some s" "IsActiveState s" "ps_objectId s \<noteq> - 1"
  have iv: "inv_ok (ps_inventory s)" using room_okD(2) [OF ok s(1)] by (simp add: session_ok_def)
  let ?r1 = "mod_session sid (SetNextFireSequence (fs + 1)) r"
  have o1: "room_ok ?r1" using ok by (intro mod_session_ok) (auto simp: session_ok_def gone_ok_def SetNextFireSequence_def)
  have "room_ok (mod_session sid (set_inventory (set_magazine p (take_from 1 (magazine_of p (ps_inventory s))) (ps_inventory s))) ?r1)"
    if "\<not> IsEmpty (magazine_of p (ps_inventory s))" for p
    using iv that by (intro mod_session_ok [OF o1] set_inventory_ok fire_magazine_ok)
  then show "room_ok (fst (if sint (fs - p_fireSequence (ps_player s)) < 0 then (r, False)
       else
         let oid = to_u32 (ps_objectId s);
             r1 = mod_session sid (SetNextFireSequence (fs + 1)) r
         in case FindPlayerObject r1 oid of None \<Rightarrow> (r1, False)
            | Some p \<Rightarrow>
                if GetCurrentWeaponId p \<noteq> w then (r1, False)
                else
                  let mag = magazine_of (isUsingPrimary p) (ps_inventory s) in
                  if IsEmpty mag \<or> quantity mag \<le> 0 then (r1, False)
                  else
                    let r2 = mod_session sid (set_inventory (set_magazine (isUsingPrimary p) (take_from 1 mag) (ps_inventory s))) r1;
                        r3 = (if hit \<noteq> 0xFFFFFFFF then fire_hit e (ps_objectId s) w hit r2 else r2)
                    in (BroadcastExcept e (D_BroadcastWeaponFire oid hp) sid r3, True)))"
    using ok o1 by (auto simp: Let_def fire_hit_ok split: option.split)
qed

lemma RequestReload_ok: "room_ok r \<Longrightarrow> room_ok (fst (Handle_C2D_RequestReload e sid v r))"
  unfolding Handle_C2D_RequestReload_def
proof (rule on_object_ok)
  fix s p
  assume ok: "room_ok r" and s: "GetPlayerSession r sid = Some s"
  have iv: "inv_ok (ps_inventory s)" using room_okD(2) [OF ok s] by (simp add: session_ok_def)
  then have "room_ok (mod_session sid (set_inventory (LoadMagazineFromInventory b (ps_inventory s))) r)"
    "room_ok (mod_session sid (set_inventory (ps_inventory s)) r)" for b
    using Load_inv_ok by (auto intro!: mod_session_ok [OF ok] set_inventory_ok)
  then show "room_ok (fst (let iv = ps_inventory s;
           (iv', deny) =
             (if v \<noteq> inventoryVersion iv then (iv, DENY_VERSION_MISMATCH)
              else let (iv1, ok) = ReloadMagazine (isUsingPrimary p) iv in (iv1, if ok then 0 else DENY_SLOT_EMPTY));
           r1 = mod_session sid (set_inventory iv') r;
           r2 = (if deny = 0 then BroadcastReloadSequence e sid (to_u32 (ps_objectId s)) RELOAD_SEQUENCE_COMPLETE r1 else r1)
       in (send_to e sid (D_ResponseReload (deny = 0) deny (p_fireSequence (ps_player s)) (SerializeFullInventory iv')) r2,
           deny = 0)))"
    by (simp add: Let_def ReloadMagazine_def BroadcastReloadSequence_def)
qed

lemma NotifyReloadSequence_ok: "room_ok r \<Longrightarrow> room_ok (fst (Handle_C2D_NotifyReloadSequence e sid n r))"
  unfolding Handle_C2D_NotifyReloadSequence_def
  by (rule on_object_ok) (simp_all add: BroadcastReloadSequence_def)

lemma EndRecall_ok: "session_ok k s \<Longrightarrow> session_ok k (EndRecall s)"
  by (auto simp: session_ok_def gone_ok_def EndRecall_def)

lemma SendRecallResult_ok: "room_ok r \<Longrightarrow> room_ok (snd (SendRecallResult e sid b i why r))"
  by (simp add: SendRecallResult_def Let_def)

lemma CancelRecall_ok: "room_ok r \<Longrightarrow> room_ok (CancelRecall e sid i why r)"
  by (simp add: CancelRecall_def Let_def mod_session_ok EndRecall_ok SendRecallResult_ok split: option.split)

lemma AddRecallPass_ok: "session_ok k s \<Longrightarrow> session_ok k ((snd \<circ> AddRecallPass) s)"
  by (auto simp: session_ok_def gone_ok_def AddRecallPass_def)

lemma RecallTick_ok: "room_ok r \<Longrightarrow> room_ok (RecallTick e sid uid gen r)"
  by (simp add: RecallTick_def Let_def CancelRecall_ok ScheduleRecallTick_def mod_session_ok AddRecallPass_ok EndRecall_ok
      mark_session_ok SendRecallResult_ok case_prod_beta' del: o_apply split: option.split)

lemma BeginRecall_ok: "session_ok k s \<Longrightarrow> IsActiveState s \<Longrightarrow> session_ok k (fst (BeginRecall i s))"
  by (auto simp: session_ok_def gone_ok_def BeginRecall_def IsActiveState_def)

lemma RequestRecall_ok: "room_ok r \<Longrightarrow> room_ok (fst (Handle_C2D_RequestRecall e sid spot r))"
proof -
  assume ok: "room_ok r"
  have "room_ok (mod_session sid (\<lambda>x. fst (BeginRecall spot x)) (send_to e sid m r))"
    if "GetPlayerSession r sid = Some s" "IsActiveState s" for s m
  proof (rule mod_session_ok)
    have "sess_at IsActiveState sid (send_to e sid m r)"
      using that by (simp add: sess_at_active_quiet [OF send_to_quiet]) (simp add: sess_at_def)
    then show "session_ok sid x \<Longrightarrow> GetPlayerSession (send_to e sid m r) sid = Some x \<Longrightarrow> session_ok sid (fst (BeginRecall spot x))" for x
      by (intro BeginRecall_ok) (auto simp: sess_at_def)
  qed (use ok in simp)
  then show ?thesis
    unfolding Handle_C2D_RequestRecall_def using ok
    by (intro on_active_ok) (auto simp: Let_def ScheduleRecallTick_def intro!: on_object_ok)
qed

lemma finish_npc_request_ok: "room_ok r \<Longrightarrow> np_ok i (NpcObj (fst nr)) \<Longrightarrow> room_ok (fst (finish_npc_request e i nr r))"
  by (auto simp: finish_npc_request_def Let_def case_prod_beta' simp del: np_ok.simps intro!: mod_npc_ok)

lemma npc_handlers_ok:
  assumes ok: "room_ok r"
  shows "room_ok (fst (Handle_C2D_RequestNpcAggro e sid i a r))" "room_ok (fst (Handle_C2D_RequestNpcAuthority e sid i a r))"
    "room_ok (fst (Handle_C2D_ReportNpcAttack e sid i hit hp r))"
proof -
  have n: "np_ok i (NpcObj n)" if "FindHostileNpc r i = Some n" for n
    using room_okD(4) [OF ok] that by (simp only: FindHostileNpc_Some)
  show "room_ok (fst (Handle_C2D_RequestNpcAggro e sid i a r))"
    unfolding Handle_C2D_RequestNpcAggro_def
    by (rule on_npc_ok [OF ok]) (simp add: finish_npc_request_ok ok n request_ok del: np_ok.simps)
  show "room_ok (fst (Handle_C2D_RequestNpcAuthority e sid i a r))"
    unfolding Handle_C2D_RequestNpcAuthority_def
    by (rule on_npc_ok [OF ok]) (simp add: finish_npc_request_ok ok n request_ok del: np_ok.simps)
  have "room_ok (mod_player hit (\<lambda>_. TakeDamage (attackDamage n) b p) r)"
    if "FindHostileNpc r i = Some n" "FindPlayerObject r hit = Some p" for n p b
    using n [OF that(1)] room_okD(3) [OF ok that(2)] by (intro mod_player_ok [OF ok] TakeDamage_po_ok) simp_all
  then show "room_ok (fst (Handle_C2D_ReportNpcAttack e sid i hit hp r))"
    unfolding Handle_C2D_ReportNpcAttack_def
    by (intro on_npc_ok [OF ok]) (auto simp: ok Let_def split: option.split intro!: send_health_ok)
qed

section \<open>Handlers and the leave protocol\<close>

lemma abs_frame [simp]:
  "abs_leave (send_to e sid m r) = abs_leave r" "abs_leave (BroadcastExcept e m x r) = abs_leave r"
  "abs_leave (Broadcast e m r) = abs_leave r" "abs_leave (NotifyNpcAuthority e n r) = abs_leave r"
  "abs_leave (fold (send_to e sid) ms r) = abs_leave r"
  "abs_leave (mod_container oid cf r) = abs_leave r" "abs_leave (mod_npc oid nf r) = abs_leave r"
  "abs_leave (mod_player oid pf r) = abs_leave r" "abs_leave (ReleaseInteractingContainer sid r) = abs_leave r"
  "abs_leave (r\<lparr>gr_dynamicObjects := d\<rparr>) = abs_leave r" "abs_leave (r\<lparr>gr_playerObjects := po\<rparr>) = abs_leave r"
  "abs_leave (r\<lparr>gr_nxtObjectId := z\<rparr>) = abs_leave r" "abs_leave (r\<lparr>gr_reads := k\<rparr>) = abs_leave r"
  by (simp_all add: quiet_abs [OF send_to_quiet] quiet_abs [OF BroadcastExcept_quiet] quiet_abs [OF Broadcast_quiet]
      quiet_abs [OF NotifyNpcAuthority_quiet] quiet_abs [OF fold_send_quiet]) (simp_all add: abs_leave_def)

lemma abs_spot [simp]: "abs_leave (r\<lparr>gr_spawnSpotIndex := z\<rparr>) = abs_leave r" "abs_leave (r\<lparr>gr_lastRegenMs := y\<rparr>) = abs_leave r"
  by (simp_all add: abs_leave_def lv_def nc_def)

lemma abs_mod_session:
  "(\<And>s. leave_view_of (f s) = leave_view_of s) \<Longrightarrow> abs_leave (mod_session sid f r) = abs_leave r"
  by (simp add: abs_leave_def lv_mod_same)

lemma view_setters [simp]:
  "leave_view_of (set_inventory iv s) = leave_view_of s" "leave_view_of (SetObjectId i s) = leave_view_of s"
  "leave_view_of (SetNextFireSequence q s) = leave_view_of s" "leave_view_of (s\<lparr>ps_sessionState := x\<rparr>) = leave_view_of s"
  "leave_view_of (SetPort pt s) = leave_view_of s" "leave_view_of (s\<lparr>ps_leaveNotifyRSeq := q\<rparr>) = leave_view_of s"
  "leave_view_of (snd (AddRecallPass s)) = leave_view_of s"
  by (simp_all add: leave_view_of_def set_inventory_def SetObjectId_def SetNextFireSequence_def SetPort_def AddRecallPass_def)

lemmas abs_mods [simp] =
  abs_mod_session [of "set_inventory iv" for iv, OF view_setters(1)]
  abs_mod_session [of "SetObjectId i" for i, OF view_setters(2)]
  abs_mod_session [of "SetNextFireSequence q" for q, OF view_setters(3)]
  abs_mod_session [of "SetInteractingContainerId i" for i, OF SetInteracting_view]
  abs_mod_session [of EndRecall, OF recall_frame(1)]

lemma abs_emit_timer [simp]: "abs_leave (emit [EffTimer t a b c] r) = abs_leave r"
  by (simp add: abs_leave_def)

lemma abs_fold: "(\<And>x r. abs_leave (f x r) = abs_leave r) \<Longrightarrow> abs_leave (fold f xs r) = abs_leave r"
  by (rule fold_keep)

lemma send_health_abs [simp]: "abs_leave (send_health e hs c reason a r) = abs_leave r"
  by (simp add: send_health_def Let_def abs_mod_session)

lemma fire_hit_abs [simp]: "abs_leave (fire_hit e shooter w hit r) = abs_leave r"
  by (simp add: fire_hit_def notify_hit_def Let_def DestroyDeadObject_def case_prod_beta' split: option.split)

lemma spawn_player_abs [simp]: "abs_leave (SpawnPlayerObject e p sid r) = abs_leave r"
  by (simp add: SpawnPlayerObject_def NotifySpawnPlayerObject_def)

lemma CancelRecall_abs [simp]: "abs_leave (CancelRecall e sid i why r) = abs_leave r"
  by (simp add: CancelRecall_def SendRecallResult_def Let_def split: option.split)

lemma equip_object_abs [simp]: "abs_leave (equip_object e sid s ty iv r) = abs_leave r"
  by (simp add: equip_object_def Let_def split: option.split)

lemma apply_npc_state_abs [simp]: "abs_leave (apply_npc_state oid m r) = abs_leave r"
  by (simp add: apply_npc_state_def split: option.split)

lemmas handler_defs =
  Handle_C2D_ChannelOpen_def Handle_C2D_HeartBeat_def Handle_C2D_RequestBlueprint_def Handle_C2D_RequestSpawnByObjectId_def
  Handle_C2D_UpdatePlayerState_def Handle_C2D_RequestSpawnMe_def Handle_C2D_RequestSpawnPlayerObjects_def
  Handle_C2D_NotifyLoadingComplete_def Handle_C2D_RequestOpenContainer_def Handle_C2D_CloseContainer_def
  Handle_C2D_RequestInteractContainerObject_def Handle_C2D_RequestEquipItem_def Handle_C2D_RequestSwitchWeapon_def
  Handle_C2D_RequestWeaponFire_def Handle_C2D_RequestReload_def Handle_C2D_NotifyReloadSequence_def
  Handle_C2D_RequestRecall_def Handle_C2D_RequestRecentInventoryInfo_def Handle_C2D_RequestNpcAggro_def
  Handle_C2D_RequestNpcAuthority_def Handle_C2D_ReportNpcAttack_def

lemmas guard_defs = on_npc_def on_object_def on_player_def on_active_def

text \<open>No packet handler moves a session in the leave protocol.\<close>

lemma handle_msg_abs: "abs_leave (fst (handle_msg e sid addr msg r)) = abs_leave r"
  by (cases msg) (auto simp: handler_defs guard_defs Let_def case_prod_beta' abs_mod_session abs_fold displace_holder_def
      finish_npc_request_def ScheduleRecallTick_def BroadcastReloadSequence_def SetSpawnSpot_def GetNewObjectId_def
      GetRemainingLifetimeMs_def read_clock_def split: option.split sum.split)

lemma handle_msg_ok: "room_ok r \<Longrightarrow> room_ok (fst (handle_msg e sid addr msg r))"
  by (cases msg) (simp_all add: connect_handlers_ok UpdatePlayerState_ok RequestSpawnMe_ok RequestOpenContainer_ok
      CloseContainer_ok RequestInteract_ok RequestEquipItem_ok RequestSwitchWeapon_ok RequestWeaponFire_ok RequestReload_ok
      NotifyReloadSequence_ok RequestRecall_ok npc_handlers_ok)

section \<open>Receiving a packet\<close>

text \<open>Writing back a session that was read from the room.\<close>

lemma write_back_ok:
  "room_ok r \<Longrightarrow> GetPlayerSession r sid = Some s \<Longrightarrow> (session_ok sid s \<Longrightarrow> session_ok sid s') \<Longrightarrow>
   room_ok (mod_session sid (\<lambda>_. s') r)"
  by (rule mod_session_ok) auto

lemma write_back_abs:
  assumes "room_hm_ok r" "GetPlayerSession r sid = Some s" "leave_view_of s' = leave_view_of s"
  shows "abs_leave (mod_session sid (\<lambda>_. s') r) = abs_leave r"
proof -
  have "lv (mod_session sid (\<lambda>_. s') r) = hm_mod sid (\<lambda>_. leave_view_of s) (lv r)"
    using assms by (intro lv_mod) auto
  also have "\<dots> = lv r" using assms by (intro hm_mod_same) (simp_all add: room_hm_ok_lv find_lv)
  finally show ?thesis by (simp add: abs_leave_def)
qed

text \<open>What taking in a header leaves of a session: everything but its receive state.\<close>

definition recv_core :: "PlayerSession \<Rightarrow> PlayerSession" where
  "recv_core s = s\<lparr>ps_rRecvHighestSeq := 0, ps_rRecvBitfield := 0, ps_hasRRecv := False, ps_uRecvHighestSeq := 0,
     ps_hasURecv := False, ps_rttMs := 0, ps_lastEchoTs := 0, ps_lastRecvTimestamp := 0, ps_pendingReliable := []\<rparr>"

lemma recv_core_ops [simp]:
  "recv_core (fst (UpdateRRecvState q s)) = recv_core s" "recv_core (fst (UpdateURecvState u s)) = recv_core s"
  "recv_core (ProcessIncomingAck a bf s) = recv_core s" "recv_core (SetLastRecvTimestamp t s) = recv_core s"
  "recv_core (UpdateRtt t now s) = recv_core s"
  by (auto simp: recv_core_def UpdateRRecvState_def UpdateURecvState_def ProcessIncomingAck_def SetLastRecvTimestamp_def
      UpdateRtt_def Let_def)

lemma recv_core_fields:
  assumes "recv_core s' = recv_core s"
  shows "session_ok k s' = session_ok k s" "leave_view_of s' = leave_view_of s" "ps_player s' = ps_player s"
    "ps_sessionState s' = ps_sessionState s" "ps_securityKey s' = ps_securityKey s" "ps_isRecalling s' = ps_isRecalling s"
  using arg_cong [OF assms, of "session_ok k"] arg_cong [OF assms, of leave_view_of] arg_cong [OF assms, of ps_player]
    arg_cong [OF assms, of ps_sessionState] arg_cong [OF assms, of ps_securityKey] arg_cong [OF assms, of ps_isRecalling]
  by (simp_all add: recv_core_def session_ok_def gone_ok_def leave_view_of_def)

lemma receive_header_cases:
  assumes "GetPlayerSession r sid = Some s"
  obtains s' r' where "recv_core s' = recv_core s" "r' = r \<or> r' = snd (read_clock e r)"
    "fst (receive_header e sid h r) = mod_session sid (\<lambda>_. s') r'"
proof -
  define u where "u = (if h_flags h AND FLAG_RELIABLE \<noteq> 0 then UpdateRRecvState (h_rSeqNum h) s
                       else UpdateURecvState (h_uSeqNum h) s)"
  have u: "recv_core (fst u) = recv_core s" by (simp add: u_def)
  define s3 where "s3 = (if h_timestamp h \<noteq> 0
    then SetLastRecvTimestamp (h_timestamp h) (ProcessIncomingAck (h_ackRSeqNum h) (h_ackBitfield h) (fst u))
    else ProcessIncomingAck (h_ackRSeqNum h) (h_ackBitfield h) (fst u))"
  have s3: "recv_core s3 = recv_core s" using u by (simp add: s3_def)
  have eq: "fst (receive_header e sid h r) =
     (if \<not> snd u then mod_session sid (\<lambda>_. fst u) r
      else if h_timestampEcho h \<noteq> 0
      then mod_session sid (\<lambda>_. UpdateRtt (h_timestampEcho h) (ms_of (fst (read_clock e r))) s3) (snd (read_clock e r))
      else mod_session sid (\<lambda>_. s3) r)"
    by (simp add: receive_header_def assms u_def s3_def Let_def case_prod_beta')
  show thesis
    using u s3 that [of "fst u" r] that [of s3 r]
      that [of "UpdateRtt (h_timestampEcho h) (ms_of (fst (read_clock e r))) s3" "snd (read_clock e r)"] eq
    by (auto split: if_splits)
qed

lemma GetPlayerSession_clock [simp]: "GetPlayerSession (snd (read_clock e r)) sid = GetPlayerSession r sid"
  by (simp add: read_clock_def GetPlayerSession_def)

lemma receive_header_ok:
  assumes "room_ok r"
  shows "room_ok (fst (receive_header e sid h r))" "abs_leave (fst (receive_header e sid h r)) = abs_leave r"
proof -
  have "room_ok (fst (receive_header e sid h r)) \<and> abs_leave (fst (receive_header e sid h r)) = abs_leave r"
  proof (cases "GetPlayerSession r sid")
    case (Some s)
    obtain s' r' where c: "recv_core s' = recv_core s" "r' = r \<or> r' = snd (read_clock e r)"
      "fst (receive_header e sid h r) = mod_session sid (\<lambda>_. s') r'" by (rule receive_header_cases [OF Some])
    have r': "room_ok r'" "abs_leave r' = abs_leave r" "GetPlayerSession r' sid = Some s" using c(2) assms Some by auto
    show ?thesis unfolding c(3)
      using write_back_ok [OF r'(1,3)] write_back_abs [OF room_okD(1) [OF r'(1)] r'(3)] recv_core_fields(1,2) [OF c(1)] r'(2)
      by simp
  qed (use assms in \<open>simp add: receive_header_def\<close>)
  then show "room_ok (fst (receive_header e sid h r))" "abs_leave (fst (receive_header e sid h r)) = abs_leave r" by auto
qed

lemma receive_packet_cases:
  "fst (receive_packet e sid bytes addr r) = r \<or>
   fst (receive_packet e sid bytes addr r) = fst (receive_header e sid (parse_header bytes) r) \<or>
   (\<exists>msg. fst (receive_packet e sid bytes addr r) =
      fst (handle_msg e sid addr msg (fst (receive_header e sid (parse_header bytes) r))))"
  by (auto simp: receive_packet_def dispatch_def Let_def case_prod_beta' split: option.split)

lemma receive_packet_ok:
  assumes "room_ok r"
  shows "room_ok (fst (receive_packet e sid bytes addr r))" "abs_leave (fst (receive_packet e sid bytes addr r)) = abs_leave r"
  using receive_packet_cases [of e sid bytes addr r] receive_header_ok [OF assms]
  by (auto simp: assms handle_msg_ok handle_msg_abs)

end
