(* ===== verification/RoomRun.thy ===== *)
theory RoomRun
  imports RoomInv
begin

text \<open>
  A room as a reactive system. Its inputs are the ones the dedicated process feeds it: client
  packets, recall timers, the two periodic updates, a new client address and the marking of
  retransmitted packets. The theory interprets the step systems of the prelude on it and proves
  what holds over every sequence of inputs: the invariant \<open>room_ok\<close>, the leave protocol as an
  abstract specification, and the counting of notifications.
\<close>

section \<open>Steps\<close>

datatype room_input =
  RPacket i32 "u8 list" sockaddr_in
| RRecall i32 i32 u32
| RUpdate
| RNpcStates
| RSetIp i32 string
| RTouch i32 u32

text \<open>The packets of a session that waited for the timeout are stamped as sent again.\<close>

definition touch_sent :: "u32 \<Rightarrow> PlayerSession \<Rightarrow> PlayerSession" where
  "touch_sent nowMs s =
     s\<lparr>ps_pendingReliable := map (\<lambda>(q, p). (q, if retransmit_timeout s \<le> nowMs - pp_sentAtMs p
                                                  then p\<lparr>pp_sentAtMs := nowMs\<rparr> else p)) (ps_pendingReliable s)\<rparr>"

fun room_step :: "env \<Rightarrow> GameRoom \<Rightarrow> room_input \<Rightarrow> GameRoom" where
  "room_step e r (RPacket sid bytes addr) = fst (receive_packet e sid bytes addr r)"
| "room_step e r (RRecall sid uid gen) = RecallTick e sid uid gen r"
| "room_step e r RUpdate = Update e (ProcessLeaves e r)"
| "room_step e r RNpcStates = UpdateNpcStates e r"
| "room_step e r (RSetIp sid ip) = mod_session sid (SetIp e ip) r"
| "room_step e r (RTouch sid nowMs) = mod_session sid (touch_sent nowMs) r"

lemma small_steps_ok:
  assumes "room_ok r"
  shows "room_ok (mod_session sid (SetIp e ip) r)" "room_ok (mod_session sid (touch_sent now) r)"
  using assms
  by (auto intro!: mod_session_ok simp: session_ok_def gone_ok_def SetIp_def touch_sent_def Let_def split: option.split)

lemma room_step_ok: "room_ok r \<Longrightarrow> room_ok (room_step e r i)"
  by (cases i) (simp_all add: receive_packet_ok RecallTick_ok Update_ok ProcessLeaves_ok UpdateNpcStates_ok small_steps_ok)

interpretation room: step_system "room_step e" room_ok for e
  by unfold_locales (rule room_step_ok)

section \<open>The leave protocol over a run\<close>

lemma Update_abs [simp]: "abs_leave (Update e r) = abs_leave r"
  by (simp add: Update_def BroadcastPlayerStates_def RegenPlayerShields_def Let_def read_clock_def)

lemma UpdateNpcStates_abs [simp]: "abs_leave (UpdateNpcStates e r) = abs_leave r"
  by (simp add: UpdateNpcStates_def Let_def)

lemma SendRecallResult_abs [simp]: "abs_leave (snd (SendRecallResult e sid b i why r)) = abs_leave r"
  by (simp add: SendRecallResult_def Let_def)

lemma abs_hm_ok: "abs_leave r' = abs_leave r \<Longrightarrow> room_hm_ok r' = room_hm_ok r"
  by (simp add: abs_leave_def room_hm_ok_lv)

lemma RecallTick_refines:
  assumes ok: "room_hm_ok r"
  shows "room_leave\<^sup>*\<^sup>* (abs_leave r) (abs_leave (RecallTick e sid uid gen r))"
proof -
  define r3 where "r3 spot = snd (SendRecallResult e sid True spot RECALL_RESULT_SUCCESS
    (mod_session sid EndRecall (mod_session sid (snd \<circ> AddRecallPass) r)))" for spot
  have a: "abs_leave (mod_session sid (snd \<circ> AddRecallPass) r) = abs_leave r" by (simp add: abs_mod_session)
  then have b: "abs_leave (r3 spot) = abs_leave r" for spot by (simp add: r3_def)
  then have "room_leave\<^sup>*\<^sup>* (abs_leave r) (abs_leave (mark_session e LR_RECALLED q sid (r3 spot)))" for q spot
    using mark_session_refines [of "r3 spot" e LR_RECALLED q sid] abs_hm_ok [OF b] ok by simp
  then show ?thesis using a unfolding r3_def
    by (auto simp: RecallTick_def Let_def case_prod_beta' ScheduleRecallTick_def split: option.split)
qed

lemma room_step_refines:
  assumes ok: "room_ok r"
  shows "room_leave\<^sup>*\<^sup>* (abs_leave r) (abs_leave (room_step e r i))"
proof (cases i)
  case (RRecall sid uid gen)
  then show ?thesis using RecallTick_refines [OF room_okD(1) [OF ok]] by simp
next
  case RUpdate
  then show ?thesis using ProcessLeaves_refines [OF room_okD(1) [OF ok], of e] by simp
qed (simp_all add: receive_packet_ok [OF ok] abs_mod_session leave_view_of_def SetIp_def touch_sent_def Let_def
    split: option.split)

lemma run_refines: "room_ok r \<Longrightarrow> room_leave\<^sup>*\<^sup>* (abs_leave r) (abs_leave (run (room_step e) r is))"
proof (induction "is" arbitrary: r)
  case (Cons i "is")
  then have "room_leave\<^sup>*\<^sup>* (abs_leave (room_step e r i)) (abs_leave (run (room_step e) r (i # is)))"
    using room_step_ok by simp
  with room_step_refines [OF Cons.prems] show ?case by (rule rtranclp_trans)
qed simp

text \<open>The rank of a session in the leave protocol only grows.\<close>

definition session_rank :: "i32 \<Rightarrow> GameRoom \<Rightarrow> nat" where
  "session_rank sid r = (case GetPlayerSession r sid of None \<Rightarrow> 0 | Some s \<Rightarrow> leave_rank (ps_leaveState s))"

lemma view_run:
  assumes "room_ok r" "room_leave\<^sup>*\<^sup>* (abs_leave r) (abs_leave r')" "GetPlayerSession r sid = Some s"
  obtains s' k where "GetPlayerSession r' sid = Some s'" "leave_run (leave_view_of s) k (leave_view_of s')"
proof -
  have "hm_ok (fst (abs_leave r))" using room_okD(1) [OF assms(1)] by (simp add: abs_leave_def room_hm_ok_lv)
  moreover have "hm_find (fst (abs_leave r)) sid = Some (leave_view_of s)"
    using assms(3) by (simp add: abs_leave_def find_lv)
  ultimately obtain v' k where "hm_find (fst (abs_leave r')) sid = Some v'" "leave_run (leave_view_of s) k v'"
    using room_leave_view [OF assms(2)] by blast
  then show thesis using that by (auto simp: abs_leave_def find_lv)
qed

lemma session_rank_mono:
  assumes "room_ok r" "room_leave\<^sup>*\<^sup>* (abs_leave r) (abs_leave r')"
  shows "session_rank sid r \<le> session_rank sid r'"
proof (cases "GetPlayerSession r sid")
  case (Some s)
  then obtain s' k where "GetPlayerSession r' sid = Some s'" "leave_run (leave_view_of s) k (leave_view_of s')"
    using view_run [OF assms] by metis
  with Some leave_run_rank [OF this(2)] show ?thesis by (simp add: session_rank_def leave_view_of_def)
qed (simp add: session_rank_def)

interpretation room_ranked: monotone_system "room_step e" room_ok "session_rank sid" for e sid
  by unfold_locales (rule session_rank_mono, assumption, rule room_step_refines)

section \<open>A concrete room\<close>

text \<open>A room with two sessions, the second of them in play with a player object, for the witnesses.\<close>

definition ex_env :: env where
  "ex_env = \<lparr>e_clock = (\<lambda>n. 1000000000 + int n * 1000000), e_enc = (\<lambda>_. [1, 2, 3]), e_obj_size = (\<lambda>_. 40),
     e_parse = (\<lambda>i _. if i = 1 then Some C_HeartBeat else None), e_xxh64 = (\<lambda>bs. of_nat (length bs)),
     e_inet_pton = (\<lambda>_. Some 1)\<rparr>"

definition ex_player_session :: PlayerSession where
  "ex_player_session = (MakePlayerSession ''ticket-2'' ''token-2'' 1 7 2000 ''user-2'' 1200
     (fst ex_loadout) (snd ex_loadout) 0 78)\<lparr>ps_sessionState := SS_INPLAY\<rparr>"

definition ex_origin :: Vector3 where
  "ex_origin = \<lparr>vx = Fin 0, vy = Fin 0, vz = Fin 0\<rparr>"

definition ex_room :: GameRoom where
  "ex_room =
     (RegisterPlayerSession (SetObjectId 0 ex_player_session)
       (RegisterPlayerSession (ex_session\<lparr>ps_sessionId := 0\<rparr>) (MakeGameRoom 7 MAP_TUTORIAL [ex_origin] 0)))
     \<lparr>gr_playerObjects := [(0, spawned_player ex_player_session 0 ex_origin)], gr_nxtObjectId := 1\<rparr>"

lemma ex_sessions_ok: "session_ok 0 (ex_session\<lparr>ps_sessionId := 0\<rparr>)" "session_ok 1 (SetObjectId 0 ex_player_session)"
  by code_simp+

lemma ex_room_ok: "room_ok ex_room"
  using ex_sessions_ok spawned_player_ok [of 0 ex_player_session ex_origin]
  by (simp add: ex_room_def room_ok_def room_hm_ok_def hm_all_iff RegisterPlayerSession_def MakeGameRoom_def hm_insert_def
      hm_ok_def hm_keys_def session_ok_def)

section \<open>Properties\<close>

text \<open>
  C3. (invariant) Whatever sequence of client packets, recall timers and periodic updates a
  room receives, it stays well formed: every session sits under its own id with a well-formed
  inventory, every object under its own id with hit points and shield in range, every container
  with consistent slots, and a session that was detached has no object, no recall, no open
  container and is never active again.
\<close>

theorem room_run_invariant:
  assumes "room_ok r"
  shows "room_ok (run (room_step e) r is)"
  using assms by (rule room.run_inv)

theorem room_run_invariant_witness:
  "room_ok (run (room_step ex_env) ex_room [RUpdate, RRecall 1 2000 0, RNpcStates, RUpdate])"
  using ex_room_ok by (rule room_run_invariant)

text \<open>
  C4. (refinement) Over any sequence of inputs the room implements the leave protocol: the leave
  states of its sessions and the number of notifications sent to the main process follow a run
  of the abstract protocol, in which a session is marked, detached and finalized by single
  protocol steps.
\<close>

theorem room_run_refines_leave_protocol:
  assumes "room_ok r"
  shows "room_leave\<^sup>*\<^sup>* (abs_leave r) (abs_leave (run (room_step e) r is))"
  using assms by (rule run_refines)

theorem room_run_refines_leave_protocol_witness:
  "room_leave\<^sup>*\<^sup>* (abs_leave ex_room) (abs_leave (run (room_step ex_env) ex_room [RUpdate, RUpdate]))"
  using ex_room_ok by (rule room_run_refines_leave_protocol)



text \<open>
  (safety) A session never moves back in the leave protocol, and once it is marked as
  recalled or dead that reason is final: no later packet, timer, disconnection or room expiry
  changes it.
\<close>

theorem leave_reason_final:
  assumes "room_ok r" "GetPlayerSession r sid = Some s"
  shows "\<exists>s'. GetPlayerSession (run (room_step e) r is) sid = Some s' \<and>
    leave_rank (ps_leaveState s) \<le> leave_rank (ps_leaveState s') \<and>
    (ps_leaveState s \<noteq> LS_NONE \<and> ps_leaveReason s \<in> {LR_RECALLED, LR_DEAD} \<longrightarrow> ps_leaveReason s' = ps_leaveReason s)"
proof -
  obtain s' k where s': "GetPlayerSession (run (room_step e) r is) sid = Some s'"
    and L: "leave_run (leave_view_of s) k (leave_view_of s')"
    using view_run [OF assms(1) run_refines [OF assms(1)] assms(2)] .
  have "session_rank sid r \<le> session_rank sid (run (room_step e) r is)"
    using assms(1) by (rule room_ranked.run_mono)
  then show ?thesis
    using leave_run_reason [OF L] assms(2) s' by (auto simp: session_rank_def leave_view_of_def)
qed

theorem leave_reason_final_witness:
  "\<exists>s'. GetPlayerSession (run (room_step ex_env) (mark_session ex_env LR_DEAD 0 1 ex_room) [RUpdate, RRecall 1 2000 0]) 1 = Some s' \<and>
    ps_leaveReason s' = LR_DEAD"
proof -
  have "GetPlayerSession (mark_session ex_env LR_DEAD 0 1 ex_room) 1 =
     Some (MarkLeaving LR_DEAD 0 1000000000 (SetObjectId 0 ex_player_session))"
    by (simp add: mark_session_def read_clock_def GetPlayerSession_mod)
      (simp add: GetPlayerSession_def ex_room_def RegisterPlayerSession_def MakeGameRoom_def hm_insert_def hm_keys_def
        hm_find_def ex_env_def ex_player_session_def SetObjectId_def MakePlayerSession_def)
  from leave_reason_final [OF mark_session_ok [OF ex_room_ok] this, of ex_env "[RUpdate, RRecall 1 2000 0]"]
  show ?thesis by (auto simp: MarkLeaving_def ex_player_session_def MakePlayerSession_def SetObjectId_def)
qed

section \<open>Closing a room\<close>

text \<open>What a room is closed by: its id, the flag of \<open>CheckAllLeft\<close> and the requests sent so far.\<close>

fun is_destroy :: "Effect \<Rightarrow> bool" where
  "is_destroy (EffReserveRoomDestroy i) = True"
| "is_destroy _ = False"

definition destroys :: "Effect list \<Rightarrow> Effect list" where
  "destroys es = filter is_destroy es"

definition closing :: "GameRoom \<Rightarrow> i32 \<times> bool \<times> Effect list" where
  "closing r = (gr_roomId r, gr_allLeftReported r, destroys (gr_outbox r))"

lemma destroys_append [simp]: "destroys (es @ fs) = destroys es @ destroys fs"
  by (simp add: destroys_def)

lemma destroys_udp: "list_all is_udp es \<Longrightarrow> destroys es = []"
proof (induction es)
  case (Cons x es)
  then show ?case by (cases x) (simp_all add: destroys_def)
qed (simp add: destroys_def)

lemma closing_quiet: "quiet r r' \<Longrightarrow> closing r' = closing r"
  using quiet_objects(5,6) [of r r'] by (auto simp: closing_def quiet_def destroys_udp)

lemma closing_frame [simp]:
  "closing (mod_session sid f r) = closing r" "closing (mod_container oid cf r) = closing r"
  "closing (mod_npc oid nf r) = closing r" "closing (mod_player oid pf r) = closing r"
  "closing (r\<lparr>gr_dynamicObjects := d\<rparr>) = closing r" "closing (r\<lparr>gr_playerObjects := po\<rparr>) = closing r"
  "closing (r\<lparr>gr_nxtObjectId := z\<rparr>) = closing r" "closing (r\<lparr>gr_reads := k\<rparr>) = closing r"
  "closing (r\<lparr>gr_spawnSpotIndex := y\<rparr>) = closing r" "closing (r\<lparr>gr_lastRegenMs := u\<rparr>) = closing r"
  "closing (r\<lparr>gr_lifetimeExpired := b\<rparr>) = closing r" "closing (snd (read_clock e r)) = closing r"
  "closing (emit [EffTimer t a b' c] r) = closing r" "closing (emit [EffNotifyLeft m] r) = closing r"
  "closing (emit [] r) = closing r"
  by (simp_all add: closing_def mod_session_def mod_container_def mod_npc_def mod_nonplayer_def mod_player_def
      read_clock_def emit_def destroys_def)

lemma fold_send_closing [simp]: "closing (fold (send_to e sid) ms r) = closing r"
  by (rule closing_quiet [OF fold_send_quiet])

lemmas closing_sends [simp] =
  closing_quiet [OF send_to_quiet] closing_quiet [OF Broadcast_quiet] closing_quiet [OF BroadcastExcept_quiet]
  closing_quiet [OF NotifyNpcAuthority_quiet]

lemma closing_ops [simp]:
  "closing (ReleaseInteractingContainer sid r) = closing r" "closing (send_health e hs c reason a r) = closing r"
  "closing (SpawnPlayerObject e p sid r) = closing r" "closing (SpawnDynamicObject e x r) = closing r"
  "closing (SpawnPlayerLootContainer e p iv r) = closing r" "closing (CancelRecall e sid i why r) = closing r"
  "closing (equip_object e sid s ty iv r) = closing r" "closing (apply_npc_state oid mi r) = closing r"
  "closing (RemovePlayerObject oid' r) = closing r" "closing (mark_session e re q sid r) = closing r"
  "closing (DestroyDeadObject e oid' r) = closing r"
  by (simp_all add: ReleaseInteractingContainer_def send_health_def SpawnPlayerObject_def NotifySpawnPlayerObject_def
      SpawnDynamicObject_def NotifySpawnObject_def SpawnPlayerLootContainer_def GetNewObjectId_def CancelRecall_def
      SendRecallResult_def equip_object_def apply_npc_state_def RemovePlayerObject_def mark_session_def case_prod_beta'
      DestroyDeadObject_def Let_def split: option.split)

lemma fire_hit_closing [simp]: "closing (fire_hit e shooter w hit r) = closing r"
  by (simp add: fire_hit_def notify_hit_def Let_def case_prod_beta' split: option.split)

lemma handle_msg_closing: "closing (fst (handle_msg e sid addr msg r)) = closing r"
  by (cases msg) (auto simp: handler_defs guard_defs Let_def case_prod_beta' displace_holder_def
      fold_keep [of closing "apply_npc_state i" for i]
      finish_npc_request_def ScheduleRecallTick_def BroadcastReloadSequence_def SetSpawnSpot_def GetNewObjectId_def
      GetRemainingLifetimeMs_def read_clock_def split: option.split sum.split)

lemma receive_header_closing [simp]: "closing (fst (receive_header e sid h r)) = closing r"
  by (simp add: receive_header_def Let_def case_prod_beta' split: option.split)

lemma receive_packet_closing [simp]: "closing (fst (receive_packet e sid bytes addr r)) = closing r"
  using receive_packet_cases [of e sid bytes addr r] by (auto simp: handle_msg_closing)

lemma RecallTick_closing [simp]: "closing (RecallTick e sid uid gen r) = closing r"
  by (auto simp: RecallTick_def SendRecallResult_def ScheduleRecallTick_def Let_def case_prod_beta' split: option.split)

lemma periodic_closing [simp]: "closing (Update e r) = closing r" "closing (UpdateNpcStates e r) = closing r"
  by (simp_all add: Update_def BroadcastPlayerStates_def RegenPlayerShields_def UpdateNpcStates_def Let_def case_prod_beta'
      read_clock_def)

lemma ReleaseNpc_closing [simp]: "closing (ReleaseNpcAuthority e oid r) = closing r"
  by (auto simp: ReleaseNpcAuthority_def Let_def split: option.split prod.split intro!: fold_keep)

lemma detach_object_closing [simp]: "closing (detach_object e sid s p r) = closing r"
  by (simp add: detach_object_def Let_def)

lemma notify_session_closing [simp]:
  "closing (notify_session sid r) = closing r" "closing (finalize_session sid r) = closing r"
  by (auto simp: notify_session_def finalize_session_def NotifyLeftOnce_def FinalizeLeave_def Let_def split: option.split)

lemma DetachPlayer_closing [simp]: "closing (DetachPlayer e sid r) = closing r"
  by (simp add: DetachPlayer_def Let_def split: option.split)

lemma leave_session_closing [simp]: "closing (leave_session e now sid r) = closing r"
  by (auto simp: leave_session_def Let_def split: option.split)

lemma mark_dead_closing [simp]: "closing (mark_dead e oid r) = closing r"
  by (simp add: mark_dead_def split: option.split)

lemma pl_marked_closing [simp]: "closing (pl_marked e r) = closing r"
proof -
  have "closing (clear_pending r) = closing r" for r by (simp add: clear_pending_def closing_def)
  moreover have "closing (DetectDisconnectedSessions e r) = closing r" for r
    unfolding DetectDisconnectedSessions_def Let_def case_prod_beta'
    by (subst fold_keep [where P = closing]) (auto split: option.split)
  moreover have "closing (AllKill e r) = closing r" for r
    unfolding AllKill_def by (rule fold_keep) simp
  moreover have "closing (fold (mark_dead e) xs r) = closing r" for xs r by (rule fold_keep) simp
  ultimately show ?thesis by (simp add: pl_marked_def Let_def case_prod_beta')
qed

definition all_final :: "GameRoom \<Rightarrow> bool" where
  "all_final r \<longleftrightarrow> (\<forall>x\<in>set (gr_playerSessions r). ps_leaveState (snd x) = LS_FINALIZED)"

lemma ProcessLeaves_closing:
  "closing (ProcessLeaves e r) =
     (let (i, b, es) = closing r in
      if \<not> b \<and> all_final (ProcessLeaves e r) then (i, True, es @ [EffReserveRoomDestroy i]) else (i, b, es))"
proof -
  define r5 where "r5 = fold (leave_session e (fst (read_clock e r))) (hm_keys (gr_playerSessions (pl_marked e r))) (pl_marked e r)"
  have c: "closing r5 = closing r" unfolding r5_def by (subst fold_keep [where P = closing]) simp_all
  have a: "all_final (CheckAllLeft r5) = all_final r5" by (simp add: CheckAllLeft_def all_final_def emit_def)
  have "closing (CheckAllLeft r5) = (let (i, b, es) = closing r5 in
      if \<not> b \<and> all_final r5 then (i, True, es @ [EffReserveRoomDestroy i]) else (i, b, es))"
    by (auto simp: CheckAllLeft_def closing_def all_final_def emit_def destroys_def)
  then show ?thesis unfolding ProcessLeaves_alt r5_def [symmetric] a c .
qed

lemma room_step_closing:
  "closing (room_step e r i) =
     (if i = RUpdate then closing (ProcessLeaves e r) else closing r)"
  by (cases i) simp_all

text \<open>The flag of \<open>CheckAllLeft\<close> agrees with the requests sent.\<close>

definition closing_ok :: "GameRoom \<Rightarrow> bool" where
  "closing_ok r \<longleftrightarrow>
     destroys (gr_outbox r) = (if gr_allLeftReported r then [EffReserveRoomDestroy (gr_roomId r)] else []) \<and>
     (gr_allLeftReported r \<longrightarrow> all_final r)"

lemma all_final_rank: "room_ok r \<Longrightarrow> all_final r \<longleftrightarrow> (\<forall>sid\<in>set (hm_keys (gr_playerSessions r)). session_rank sid r = 3)"
proof -
  assume ok: "room_ok r"
  have r3: "leave_rank st = 3 \<longleftrightarrow> st = LS_FINALIZED" for st by (cases st) auto
  have "(sid, s) \<in> set (gr_playerSessions r) \<Longrightarrow> GetPlayerSession r sid = Some s" for sid s
    using room_okD(1) [OF ok] by (simp add: GetPlayerSession_def room_hm_ok_def hm_find_iff)
  then show ?thesis by (fastforce simp: all_final_def session_rank_def r3 hm_keys_def)
qed

lemma session_rank_le: "session_rank sid r \<le> 3"
proof -
  have "leave_rank st \<le> 3" for st by (cases st) auto
  then show ?thesis by (simp add: session_rank_def split: option.split)
qed

lemma all_final_mono:
  assumes "room_ok r" "room_ok r'" "room_leave\<^sup>*\<^sup>* (abs_leave r) (abs_leave r')" "all_final r"
  shows "all_final r'"
proof -
  have "hm_keys (gr_playerSessions r') = hm_keys (gr_playerSessions r)"
    using room_leave_keys [OF assms(3)] by (simp add: abs_leave_def)
  moreover have "session_rank sid r = 3 \<Longrightarrow> session_rank sid r' = 3" for sid
    using session_rank_mono [OF assms(1,3), of sid] session_rank_le [of sid r'] by simp
  ultimately show ?thesis using assms by (simp add: all_final_rank)
qed

lemma all_final_Update [simp]: "all_final (Update e r) = all_final r"
proof -
  have "map (\<lambda>x. leave_view_of (snd x)) (gr_playerSessions (Update e r)) = map (\<lambda>x. leave_view_of (snd x)) (gr_playerSessions r)"
    using arg_cong [OF Update_abs [of e r], of "\<lambda>a. map snd (fst a)"] by (simp add: abs_leave_def lv_def case_prod_beta' o_def)
  from arg_cong [OF this, of "list_all (\<lambda>x. fst x = LS_FINALIZED)"] show ?thesis
    by (simp add: all_final_def list_all_iff leave_view_of_def)
qed

lemma room_step_closing_ok:
  assumes ok: "room_ok r" and c: "closing_ok r"
  shows "closing_ok (room_step e r i)"
proof -
  have F: "all_final (room_step e r i)" if "gr_allLeftReported r"
    using all_final_mono [OF ok room_step_ok [OF ok] room_step_refines [OF ok]] c that by (simp add: closing_ok_def)
  show ?thesis
    using F c room_step_closing [of e r i] ProcessLeaves_closing [of e r]
    by (cases "i = RUpdate") (auto simp: closing_ok_def closing_def Let_def split: if_splits)
qed

interpretation room_closing: step_system "room_step e" "\<lambda>r. room_ok r \<and> closing_ok r" for e
  by unfold_locales (simp add: room_step_ok room_step_closing_ok)

text \<open>
  (safety) A room asks for its own destruction at most once in its life, under its own id,
  and only when every session of the room is finalized; from then on all of them stay so.
\<close>

theorem destroy_requested_once:
  assumes "room_ok r" "gr_outbox r = []" "\<not> gr_allLeftReported r"
  shows "let r' = run (room_step e) r is in
    destroys (gr_outbox r') = [] \<or>
    destroys (gr_outbox r') = [EffReserveRoomDestroy (gr_roomId r')] \<and> all_final r'"
proof -
  have "room_ok r \<and> closing_ok r" using assms by (simp add: closing_ok_def destroys_def)
  from room_closing.run_inv [OF this, of e "is"] have "closing_ok (run (room_step e) r is)" ..
  then show ?thesis by (auto simp: closing_ok_def Let_def split: if_splits)
qed

theorem destroy_requested_once_witness:
  "let r' = run (room_step ex_env) ex_room [RUpdate, RUpdate] in
    destroys (gr_outbox r') = [] \<or>
    destroys (gr_outbox r') = [EffReserveRoomDestroy (gr_roomId r')] \<and> all_final r'"
proof -
  have "gr_outbox ex_room = []" "\<not> gr_allLeftReported ex_room"
    by (simp_all add: ex_room_def RegisterPlayerSession_def MakeGameRoom_def)
  then show ?thesis by (rule destroy_requested_once [OF ex_room_ok])
qed

section \<open>A room comes to its end\<close>

lemma mark_session_rank:
  assumes "GetPlayerSession r sid \<noteq> None" "reason \<noteq> LR_NONE"
  shows "1 \<le> session_rank sid (mark_session e reason q sid r)"
proof -
  obtain s where s: "GetPlayerSession r sid = Some s" using assms(1) by auto
  have "GetPlayerSession (mark_session e reason q sid r) sid = Some (MarkLeaving reason q (fst (read_clock e r)) s)"
    using s by (simp add: mark_session_def case_prod_beta' Let_def GetPlayerSession_mod)
  then show ?thesis using assms(2)
    by (cases "ps_leaveState s") (auto simp: session_rank_def MarkLeaving_def)
qed

lemma session_exists: "room_leave\<^sup>*\<^sup>* (abs_leave r) (abs_leave r') \<Longrightarrow>
   (GetPlayerSession r' sid = None) = (GetPlayerSession r sid = None)"
  using room_leave_keys [of "abs_leave r" "abs_leave r'"] hm_find_None [of "gr_playerSessions r"]
    hm_find_None [of "gr_playerSessions r'"] by (simp add: GetPlayerSession_def abs_leave_def)

lemma AllKill_rank:
  assumes "room_ok r" "sid \<in> set xs" "GetPlayerSession r sid \<noteq> None"
  shows "1 \<le> session_rank sid (fold (mark_session e LR_DEAD 0) xs r)"
  using assms
proof (induction xs arbitrary: r)
  case (Cons x xs)
  let ?r = "mark_session e LR_DEAD 0 x r"
  have ok: "room_ok ?r" by (rule mark_session_ok [OF Cons.prems(1)])
  show ?case
  proof (cases "sid = x")
    case True
    have "room_leave\<^sup>*\<^sup>* (abs_leave ?r) (abs_leave (fold (mark_session e LR_DEAD 0) xs ?r))"
      by (rule fold_refines [OF mark_session_refines room_okD(1) [OF ok]])
    from session_rank_mono [OF ok this, of sid] mark_session_rank [of r x LR_DEAD e 0] True Cons.prems(3)
    show ?thesis by simp
  next
    case False
    have "GetPlayerSession ?r sid \<noteq> None"
      using Cons.prems(3) session_exists [OF mark_session_refines [OF room_okD(1) [OF Cons.prems(1)]], of e LR_DEAD 0 x sid] by simp
    with Cons.IH [OF ok] Cons.prems(2) False show ?thesis by simp
  qed
qed simp

text \<open>
  C21. (liveness) When the lifetime of the room is over, the next \<open>ProcessLeaves\<close> takes every
  player out: afterwards each session is detached or already finalized.
\<close>

theorem expired_room_detaches_all:
  assumes ok: "room_ok r" and live: "\<not> gr_lifetimeExpired r"
    and over: "ROOM_LIFETIME_MS \<le> ElapsedMs (gr_createdAt r) (e_clock e (gr_reads r))"
    and s: "GetPlayerSession (ProcessLeaves e r) sid = Some s"
  shows "ps_leaveState s = LS_DETACHED \<or> ps_leaveState s = LS_FINALIZED"
proof -
  let ?r0 = "(snd (read_clock e r))\<lparr>gr_lifetimeExpired := True\<rparr>"
  let ?r1 = "AllKill e ?r0"
  have ok0: "room_ok ?r0" using ok by (simp add: read_clock_def)
  have P: "pl_marked e r = clear_pending (DetectDisconnectedSessions e (fold (mark_dead e) (dead_object_ids ?r1) ?r1))"
    using live over by (simp add: pl_marked_def Let_def case_prod_beta' read_clock_def)
  have ok1: "room_ok ?r1" by (rule AllKill_ok [OF ok0])
  have ok2: "room_ok (fold (mark_dead e) (dead_object_ids ?r1) ?r1)" by (intro fold_ok mark_dead_ok ok1)
  have "room_leave\<^sup>*\<^sup>* (abs_leave ?r1) (abs_leave (pl_marked e r))" unfolding P clear_pending_abs
    by (rule rtranclp_trans [OF fold_refines [OF mark_dead_refines room_okD(1) [OF ok1]] Detect_refines [OF room_okD(1) [OF ok2]]])
  moreover have "room_leave\<^sup>*\<^sup>* (abs_leave (pl_marked e r)) (abs_leave (ProcessLeaves e r))"
    unfolding ProcessLeaves_alt CheckAllLeft_abs
    by (intro fold_refines) (use leave_session_cases pl_marked_ok [OF ok] room_okD(1) in blast)+
  ultimately have R: "room_leave\<^sup>*\<^sup>* (abs_leave ?r1) (abs_leave (ProcessLeaves e r))" by (rule rtranclp_trans)
  have A: "room_leave\<^sup>*\<^sup>* (abs_leave ?r0) (abs_leave ?r1)" by (rule AllKill_refines [OF room_okD(1) [OF ok0]])
  have ex: "GetPlayerSession ?r0 sid \<noteq> None" using session_exists [OF R, of sid] session_exists [OF A, of sid] s by auto
  then have "sid \<in> set (hm_keys (gr_playerSessions ?r0))" by (auto simp: GetPlayerSession_def hm_find_None)
  from AllKill_rank [OF ok0 this ex] session_rank_mono [OF ok1 R, of sid]
  have "1 \<le> session_rank sid (ProcessLeaves e r)" unfolding AllKill_def by (metis order_trans)
  moreover have "ps_leaveState s \<noteq> LS_PENDING"
    using ProcessLeaves_no_pending [OF room_okD(1) [OF ok], of e] s by (force simp: GetPlayerSession_def dest: hm_find_Some_in)
  ultimately show ?thesis using s by (cases "ps_leaveState s") (auto simp: session_rank_def)
qed

theorem expired_room_detaches_all_witness:
  "\<exists>s. GetPlayerSession (ProcessLeaves (ex_env\<lparr>e_clock := \<lambda>n. 700000000000 + int n\<rparr>) ex_room) 1 = Some s \<and>
     (ps_leaveState s = LS_DETACHED \<or> ps_leaveState s = LS_FINALIZED)"
proof -
  let ?e = "ex_env\<lparr>e_clock := \<lambda>n. 700000000000 + int n\<rparr>"
  have "GetPlayerSession ex_room 1 \<noteq> None" by code_simp
  then obtain s where "GetPlayerSession (ProcessLeaves ?e ex_room) 1 = Some s"
    using session_exists [OF ProcessLeaves_refines [OF room_okD(1) [OF ex_room_ok]], of ?e 1] by auto
  moreover have "\<not> gr_lifetimeExpired ex_room"
    "ROOM_LIFETIME_MS \<le> ElapsedMs (gr_createdAt ex_room) (e_clock ?e (gr_reads ex_room))" by code_simp+
  ultimately show ?thesis using expired_room_detaches_all [OF ex_room_ok] by blast
qed

text \<open>A session that is finalized, or detached and ready to be finalized at the given time.\<close>

definition ready :: "int \<Rightarrow> PlayerSession \<Rightarrow> bool" where
  "ready now s \<longleftrightarrow> ps_leaveState s = LS_FINALIZED \<or> ps_leaveState s = LS_DETACHED \<and> IsFinalizeReady s now"

lemma MarkLeaving_ready: "ready now s \<Longrightarrow> MarkLeaving reason q t s = s"
  unfolding ready_def by (elim disjE conjE) (simp_all add: MarkLeaving_def)

lemma hm_mod_fixed: "(\<And>v. (k, v) \<in> set m \<Longrightarrow> f v = v) \<Longrightarrow> hm_mod k f m = m"
  unfolding hm_mod_def by (rule map_idI) (clarsimp split: prod.split)

definition all_ready :: "int \<Rightarrow> GameRoom \<Rightarrow> bool" where
  "all_ready now r \<longleftrightarrow> (\<forall>x\<in>set (gr_playerSessions r). ready now (snd x))"

lemma mark_session_ready:
  assumes "all_ready now r"
  shows "gr_playerSessions (mark_session e reason q sid r) = gr_playerSessions r"
proof -
  have "hm_mod sid (MarkLeaving reason q t) (gr_playerSessions r) = gr_playerSessions r" for t
    using assms by (intro hm_mod_fixed) (force simp: all_ready_def intro: MarkLeaving_ready)
  then show ?thesis by (simp add: mark_session_def case_prod_beta' Let_def mod_session_def read_clock_def)
qed

lemma fold_sessions:
  assumes "\<And>x r. all_ready now r \<Longrightarrow> gr_playerSessions (f x r) = gr_playerSessions r" "all_ready now r"
  shows "gr_playerSessions (fold f xs r) = gr_playerSessions r"
  using assms(2)
proof (induction xs arbitrary: r)
  case (Cons x xs)
  then show ?case using assms(1) [OF Cons.prems, of x] by (simp add: all_ready_def)
qed simp

lemma pl_marked_ready:
  assumes "all_ready now r"
  shows "gr_playerSessions (pl_marked e r) = gr_playerSessions r"
proof -
  have md: "gr_playerSessions (mark_dead e oid r) = gr_playerSessions r" if "all_ready now r" for oid r
    using mark_session_ready [OF that] by (simp add: mark_dead_def split: option.split)
  have keep: "all_ready now r'" if "gr_playerSessions r' = gr_playerSessions r" for r'
    using assms that by (simp add: all_ready_def)
  define r0 where "r0 = snd (read_clock e r)"
  have s0: "gr_playerSessions r0 = gr_playerSessions r" by (simp add: r0_def read_clock_def)
  define r1 where "r1 = (if \<not> gr_lifetimeExpired r0 \<and> ROOM_LIFETIME_MS \<le> ElapsedMs (gr_createdAt r0) (fst (read_clock e r))
                then AllKill e (r0\<lparr>gr_lifetimeExpired := True\<rparr>) else r0)"
  have s1: "gr_playerSessions r1 = gr_playerSessions r"
    using fold_sessions [of now "mark_session e LR_DEAD 0", OF mark_session_ready keep [of "r0\<lparr>gr_lifetimeExpired := True\<rparr>"]] s0
    by (simp add: r1_def AllKill_def)
  define r2 where "r2 = fold (mark_dead e) (dead_object_ids r1) r1"
  have s2: "gr_playerSessions r2 = gr_playerSessions r"
    using fold_sessions [OF md keep [OF s1]] s1 by (simp add: r2_def)
  define r3 where "r3 = DetectDisconnectedSessions e r2"
  have k2: "all_ready now (snd (read_clock e r2))" using keep [of "snd (read_clock e r2)"] s2 by (simp add: read_clock_def)
  have s3: "gr_playerSessions r3 = gr_playerSessions r"
    unfolding r3_def DetectDisconnectedSessions_def Let_def case_prod_beta'
    by (subst fold_sessions [OF _ k2]) (auto simp: mark_session_ready s2 read_clock_def split: option.split)
  have "gr_playerSessions (clear_pending r3) = gr_playerSessions r3"
    using keep [OF s3] unfolding clear_pending_def by (auto simp: all_ready_def ready_def intro!: map_idI)
  moreover have "pl_marked e r = clear_pending r3"
    unfolding r3_def r2_def r1_def r0_def pl_marked_def Let_def case_prod_beta' ..
  ultimately show ?thesis using s3 by simp
qed

lemma leave_session_ready:
  assumes ok: "room_ok r" and rd: "all_ready now r"
  shows "all_ready now (leave_session e now sid r)"
    "GetPlayerSession r sid \<noteq> None \<Longrightarrow> session_rank sid (leave_session e now sid r) = 3"
proof -
  have F: "leave_session e now sid r = (case GetPlayerSession r sid of None \<Rightarrow> r
      | Some s \<Rightarrow> if ps_leaveState s = LS_DETACHED then finalize_session sid r else r) \<and>
    (\<forall>s. GetPlayerSession r sid = Some s \<longrightarrow> ready now s)"
    using rd by (force simp: leave_session_def Let_def all_ready_def ready_def GetPlayerSession_def dest: hm_find_Some_in
        split: option.split)
  have fin: "ps_leaveState (fst (FinalizeLeave s)) = LS_FINALIZED" for s
    by (simp add: FinalizeLeave_def NotifyLeftOnce_def ClearPendingReliableExcept_def Let_def)
  have "all_ready now (finalize_session sid r)"
    using rd by (fastforce simp: finalize_session_def all_ready_def emit_def mod_session_def hm_mod_def ready_def fin split: option.split)
  with F rd show "all_ready now (leave_session e now sid r)" by (simp split: option.split)
  have "session_rank sid (finalize_session sid r) = 3" if "GetPlayerSession r sid = Some s" for s
    using that by (simp add: finalize_session_def session_rank_def GetPlayerSession_mod fin)
      (simp add: emit_def GetPlayerSession_def mod_session_def hm_find_mod fin)
  moreover have "session_rank sid r = 3" if "GetPlayerSession r sid = Some s" "ps_leaveState s = LS_FINALIZED" for s
    using that by (simp add: session_rank_def)
  ultimately show "GetPlayerSession r sid \<noteq> None \<Longrightarrow> session_rank sid (leave_session e now sid r) = 3"
    using F by (auto simp: ready_def)
qed

lemma leave_fold_ready:
  assumes "room_ok r" "all_ready now r" "sid \<in> set xs" "GetPlayerSession r sid \<noteq> None"
  shows "session_rank sid (fold (leave_session e now) xs r) = 3"
  using assms
proof (induction xs arbitrary: r)
  case (Cons x xs)
  let ?r = "leave_session e now x r"
  have ok: "room_ok ?r" by (rule leave_session_ok [OF Cons.prems(1)])
  have R: "room_leave\<^sup>*\<^sup>* (abs_leave r) (abs_leave ?r)" using leave_session_cases [OF room_okD(1) [OF Cons.prems(1)]] by blast
  show ?case
  proof (cases "sid = x")
    case True
    have "room_leave\<^sup>*\<^sup>* (abs_leave ?r) (abs_leave (fold (leave_session e now) xs ?r))"
      by (rule fold_refines [OF _ room_okD(1) [OF ok]]) (use leave_session_cases in blast)
    from session_rank_mono [OF ok this, of sid] session_rank_le [of sid "fold (leave_session e now) xs ?r"]
      leave_session_ready(2) [OF Cons.prems(1,2), of x e] True Cons.prems(4)
    show ?thesis by simp
  next
    case False
    have "GetPlayerSession ?r sid \<noteq> None" using Cons.prems(4) session_exists [OF R, of sid] by simp
    with Cons.IH [OF ok leave_session_ready(1) [OF Cons.prems(1,2)]] Cons.prems(3) False show ?thesis by simp
  qed
qed simp

text \<open>
  (liveness) When every session of a room is finalized or detached with its grace period
  or its last notification settled, the next \<open>ProcessLeaves\<close> finalizes all of them and
  requests the destruction of the room.
\<close>

theorem ready_room_closes:
  assumes ok: "room_ok r" and rd: "all_ready (e_clock e (gr_reads r)) r" and nr: "\<not> gr_allLeftReported r"
  shows "all_final (ProcessLeaves e r) \<and> gr_allLeftReported (ProcessLeaves e r) \<and>
    destroys (gr_outbox (ProcessLeaves e r)) = destroys (gr_outbox r) @ [EffReserveRoomDestroy (gr_roomId r)]"
proof -
  let ?now = "fst (read_clock e r)" and ?p = "pl_marked e r"
  let ?r5 = "fold (leave_session e ?now) (hm_keys (gr_playerSessions ?p)) ?p"
  have S: "gr_playerSessions ?p = gr_playerSessions r" by (rule pl_marked_ready [OF rd])
  then have rp: "all_ready ?now ?p" using rd by (simp add: all_ready_def read_clock_def)
  have okp: "room_ok ?p" by (rule pl_marked_ok [OF ok])
  have R: "room_leave\<^sup>*\<^sup>* (abs_leave ?p) (abs_leave ?r5)"
    by (rule fold_refines [OF _ room_okD(1) [OF okp]]) (use leave_session_cases in blast)
  have ok5: "room_ok ?r5" by (rule fold_ok [OF leave_session_ok okp])
  have k: "hm_keys (gr_playerSessions ?r5) = hm_keys (gr_playerSessions ?p)"
    using room_leave_keys [OF R] by (simp add: abs_leave_def)
  have "session_rank sid ?r5 = 3" if "sid \<in> set (hm_keys (gr_playerSessions ?p))" for sid
    using leave_fold_ready [OF okp rp that, of e] that hm_find_None [of "gr_playerSessions ?p" sid]
    by (simp add: GetPlayerSession_def)
  then have "all_final ?r5" using all_final_rank [OF ok5] k by simp
  then have "all_final (ProcessLeaves e r)" unfolding ProcessLeaves_alt by (simp add: CheckAllLeft_def all_final_def emit_def)
  then show ?thesis using ProcessLeaves_closing [of e r] nr by (simp add: closing_def Let_def)
qed

theorem ready_room_closes_witness:
  "all_final (ProcessLeaves ex_env (MakeGameRoom 7 MAP_TUTORIAL [ex_origin] 0)) \<and>
   gr_outbox (ProcessLeaves ex_env (ex_room\<lparr>gr_playerSessions := [(0, (ex_session\<lparr>ps_sessionId := 0, ps_leaveState := LS_DETACHED,
      ps_sessionState := SS_LEFT\<rparr>))], gr_playerObjects := []\<rparr>)) \<noteq> []"
proof -
  let ?s = "ex_session\<lparr>ps_sessionId := 0, ps_leaveState := LS_DETACHED, ps_sessionState := SS_LEFT\<rparr>"
  let ?r = "ex_room\<lparr>gr_playerSessions := [(0, ?s)], gr_playerObjects := []\<rparr>"
  have "session_ok 0 ?s" by code_simp
  then have ok: "room_ok ?r" using ex_room_ok by (simp add: room_ok_def room_hm_ok_def hm_all_iff hm_ok_def hm_keys_def)
  have rd: "all_ready (e_clock ex_env (gr_reads ?r)) ?r"
    by (simp add: all_ready_def ready_def IsFinalizeReady_def ex_session_def MakePlayerSession_def)
  have nr: "\<not> gr_allLeftReported ?r" by (simp add: ex_room_def RegisterPlayerSession_def MakeGameRoom_def)
  have "room_ok (MakeGameRoom 7 MAP_TUTORIAL [ex_origin] 0)"
    by (simp add: room_ok_def room_hm_ok_def MakeGameRoom_def hm_all_iff)
  from ready_room_closes [OF this, of ex_env] ready_room_closes [OF ok rd nr] show ?thesis
    by (auto simp: MakeGameRoom_def all_ready_def destroys_def)
qed

end
