(* ===== verification/RoomItems.thy ===== *)
theory RoomItems
  imports RoomRun
begin

text \<open>
  The items of a room: what its players carry and what lies in its containers, counted by
  blueprint. Every operation of the room either keeps the count or lowers it (a round fired,
  a discarded magazine, the inventory of a player who disconnected), so items are never
  duplicated.
\<close>

section \<open>Counting\<close>

definition hm_sum :: "('v \<Rightarrow> int) \<Rightarrow> ('k, 'v) hmap \<Rightarrow> int" where
  "hm_sum f m = (\<Sum>x\<leftarrow>m. f (snd x))"

definition np_items :: "u32 \<Rightarrow> NonplayerObject \<Rightarrow> int" where
  "np_items b x = (case x of ContainerObj c \<Rightarrow> contents b c | NpcObj n \<Rightarrow> 0)"

definition room_items :: "u32 \<Rightarrow> GameRoom \<Rightarrow> int" where
  "room_items b r = hm_sum (\<lambda>s. carried b (ps_inventory s)) (gr_playerSessions r) +
     hm_sum (np_items b) (gr_staticObjects r) + hm_sum (np_items b) (gr_dynamicObjects r)"

lemma hm_sum_simps [simp]:
  "hm_sum f [] = 0" "hm_sum f (x # m) = f (snd x) + hm_sum f m" "hm_sum f (m @ m') = hm_sum f m + hm_sum f m'"
  by (simp_all add: hm_sum_def)

lemma hm_sum_map [simp]: "hm_sum f (map (\<lambda>(k, v). (k, g v)) m) = hm_sum (\<lambda>v. f (g v)) m"
  by (induction m) auto

lemma hm_sum_mod_same: "(\<And>v. f (g v) = f v) \<Longrightarrow> hm_sum f (hm_mod k g m) = hm_sum f m"
  by (induction m) (auto simp: hm_mod_def)

lemma hm_sum_mod:
  "hm_ok m \<Longrightarrow> hm_find m k = Some v \<Longrightarrow> hm_sum f (hm_mod k g m) = hm_sum f m - f v + f (g v)"
proof (induction m)
  case (Cons a m)
  obtain i w where a: "a = (i, w)" by (cases a)
  have "i = k \<Longrightarrow> hm_mod k g m = m"
    using Cons.prems a unfolding hm_mod_def by (intro map_idI) (auto simp: hm_ok_def hm_keys_def rev_image_eqI)
  then show ?case using Cons by (auto simp: a hm_mod_Cons hm_ok_def hm_keys_def hm_find_def)
qed (simp add: hm_find_def)

lemma hm_sum_insert: "hm_find m k = None \<Longrightarrow> hm_sum f (hm_insert k v m) = hm_sum f m + f v"
  by (simp add: hm_insert_def hm_find_None)

lemma hm_sum_erase: "(\<And>k v. (k, v) \<in> set m \<Longrightarrow> 0 \<le> f v) \<Longrightarrow> hm_sum f (hm_erase k m) \<le> hm_sum f m"
proof (induction m)
  case (Cons a m)
  have "0 \<le> f (snd a)" using Cons.prems [of "fst a" "snd a"] by simp
  moreover have "hm_sum f (hm_erase k m) \<le> hm_sum f m" using Cons.prems by (intro Cons.IH) (metis list.set_intros(2))
  ultimately show ?case by (simp add: hm_erase_def)
qed (simp add: hm_erase_def)

lemma slots_ok_nonneg: "slots_ok ss \<Longrightarrow> 0 \<le> qty_list b ss"
  by (intro qty_list_nonneg) (auto simp: slots_ok_def in_set_conv_nth)

lemma contents_nonneg: "np_ok k x \<Longrightarrow> 0 \<le> np_items b x"
  by (cases x) (auto simp: np_items_def contents_def container_ok_def intro!: slots_ok_nonneg)

lemma carried_nonneg: "inv_ok iv \<Longrightarrow> 0 \<le> carried b iv"
proof -
  assume ok: "inv_ok iv"
  have q: "slot_ok s \<Longrightarrow> 0 \<le> qty_of b s" for s using qty_list_nonneg [of "[s]" b] by simp
  have "typed_ok t s \<Longrightarrow> 0 \<le> qty_of b s" "mag_ok w s \<Longrightarrow> 0 \<le> qty_of b s" for t w s
    using q by (auto simp: typed_ok_def mag_ok_def)
  moreover have "\<forall>p. typed_ok IT_WEAPON (weapon_of p iv) \<and> mag_ok (weapon_of p iv) (magazine_of p iv)" "typed_ok IT_ARMOR (armorSlot iv)"
    using ok by (auto simp: inv_ok_def inv_core_def)
  ultimately have w: "0 \<le> qty_of b (weapon_of p iv)" and m: "0 \<le> qty_of b (magazine_of p iv)"
    and a: "0 \<le> qty_of b (armorSlot iv)" for p by blast+
  have "0 \<le> qty_list b (inventorySlots iv)"
    using ok by (intro slots_ok_nonneg) (auto simp: inv_ok_def inv_core_def)
  then show ?thesis using w [of True] w [of False] m [of True] m [of False] a
    by (simp add: carried_def weapon_of_def magazine_of_def)
qed

section \<open>Frame\<close>

lemma items_quiet: "quiet r r' \<Longrightarrow> room_items b r' = room_items b r"
proof -
  assume q: "quiet r r'"
  have "hm_sum (\<lambda>s. carried b (ps_inventory s)) (core_sessions m) = hm_sum (\<lambda>s. carried b (ps_inventory s)) m" for m
    unfolding core_sessions_def hm_sum_map by (simp add: core_def)
  then show ?thesis using quiet_objects [OF q] unfolding room_items_def by metis
qed

lemma items_mod_session:
  "(\<And>s. ps_inventory (f s) = ps_inventory s) \<Longrightarrow> room_items b (mod_session sid f r) = room_items b r"
  by (simp add: room_items_def mod_session_def hm_sum_mod_same)

lemma items_mod_nonplayer:
  "(\<And>x. np_items b (f x) = np_items b x) \<Longrightarrow> room_items b (mod_nonplayer oid f r) = room_items b r"
  by (simp add: room_items_def mod_nonplayer_def hm_sum_mod_same)

lemma items_mod_container: "(\<And>c. contents b (f c) = contents b c) \<Longrightarrow> room_items b (mod_container oid f r) = room_items b r"
  unfolding mod_container_def by (rule items_mod_nonplayer) (simp add: np_items_def split: NonplayerObject.split)

lemma items_frame [simp]:
  "room_items b (mod_npc oid nf r) = room_items b r" "room_items b (mod_player oid pf r) = room_items b r"
  "room_items b (emit es r) = room_items b r" "room_items b (r\<lparr>gr_playerObjects := po\<rparr>) = room_items b r"
  "room_items b (r\<lparr>gr_nxtObjectId := z\<rparr>) = room_items b r" "room_items b (r\<lparr>gr_reads := k\<rparr>) = room_items b r"
  "room_items b (r\<lparr>gr_spawnSpotIndex := y\<rparr>) = room_items b r" "room_items b (r\<lparr>gr_lastRegenMs := u\<rparr>) = room_items b r"
  "room_items b (r\<lparr>gr_lifetimeExpired := bb\<rparr>) = room_items b r" "room_items b (r\<lparr>gr_allLeftReported := bb\<rparr>) = room_items b r"
  "room_items b (snd (read_clock e r)) = room_items b r" "room_items b (RemovePlayerObject oid r) = room_items b r"
proof -
  show "room_items b (mod_npc oid nf r) = room_items b r"
    unfolding mod_npc_def by (rule items_mod_nonplayer) (simp add: np_items_def split: NonplayerObject.split)
qed (simp_all add: room_items_def mod_player_def read_clock_def emit_def RemovePlayerObject_def)

lemmas items_sends [simp] =
  items_quiet [OF send_to_quiet] items_quiet [OF Broadcast_quiet] items_quiet [OF BroadcastExcept_quiet]
  items_quiet [OF NotifyNpcAuthority_quiet] items_quiet [OF fold_send_quiet]

lemma inventory_setters [simp]:
  "ps_inventory (SetObjectId i s) = ps_inventory s" "ps_inventory (SetNextFireSequence q s) = ps_inventory s"
  "ps_inventory (SetPort pt s) = ps_inventory s" "ps_inventory (SetInteractingContainerId i s) = ps_inventory s"
  "ps_inventory (EndRecall s) = ps_inventory s" "ps_inventory (fst (BeginRecall u s)) = ps_inventory s"
  "ps_inventory (snd (AddRecallPass s)) = ps_inventory s" "ps_inventory (SetIp e ip s) = ps_inventory s"
  "ps_inventory (touch_sent now s) = ps_inventory s" "ps_inventory (ClearPendingReliableExcept q s) = ps_inventory s"
  "ps_inventory (MarkLeaving re q t s) = ps_inventory s" "ps_inventory (fst (NotifyLeftOnce s)) = ps_inventory s"
  "ps_inventory (fst (FinalizeLeave s)) = ps_inventory s"
  by (auto simp: SetObjectId_def SetNextFireSequence_def SetPort_def
      SetInteractingContainerId_def EndRecall_def BeginRecall_def AddRecallPass_def SetIp_def touch_sent_def
      ClearPendingReliableExcept_def MarkLeaving_def NotifyLeftOnce_def FinalizeLeave_def Let_def split: option.split)

lemma contents_setters [simp]:
  "contents b (SetInteractingPlayerId i c) = contents b c" "contents b (IncrementContainerVersion c) = contents b c"
  by (simp_all add: contents_def SetInteractingPlayerId_def IncrementContainerVersion_def)

lemma items_ops [simp]:
  "room_items b (ReleaseInteractingContainer sid r) = room_items b r" "room_items b (send_health e hs c reason a r) = room_items b r"
  "room_items b (SpawnPlayerObject e p sid r) = room_items b r" "room_items b (CancelRecall e sid i why r) = room_items b r"
  "room_items b (equip_object e sid s ty iv r) = room_items b r" "room_items b (apply_npc_state oid mi r) = room_items b r"
  "room_items b (mark_session e re q sid r) = room_items b r"
  "room_items b (notify_session sid r) = room_items b r" "room_items b (finalize_session sid r) = room_items b r"
  "room_items b (notify_hit e hit c a r) = room_items b r"
  by (simp_all add: ReleaseInteractingContainer_def send_health_def SpawnPlayerObject_def NotifySpawnPlayerObject_def
      CancelRecall_def notify_hit_def items_mod_container
      SendRecallResult_def equip_object_def apply_npc_state_def mark_session_def case_prod_beta' items_mod_session
      notify_session_def finalize_session_def Let_def split: option.split)

section \<open>Writes that move items\<close>

lemma items_set_inventory:
  assumes "room_ok r" "GetPlayerSession r sid = Some s"
  shows "room_items b (mod_session sid (set_inventory iv) r) = room_items b r - carried b (ps_inventory s) + carried b iv"
  using assms hm_sum_mod [of "gr_playerSessions r" sid s "\<lambda>s. carried b (ps_inventory s)" "set_inventory iv"]
  by (simp add: room_items_def mod_session_def room_ok_def room_hm_ok_def GetPlayerSession_def set_inventory_def)

lemma items_set_container:
  assumes "room_ok r" "FindNonplayerObject r cid = Some (ContainerObj c)"
  shows "room_items b (mod_container cid f r) = room_items b r - contents b c + contents b (f c)"
proof -
  let ?g = "\<lambda>x. case x of ContainerObj c \<Rightarrow> ContainerObj (f c) | NpcObj n \<Rightarrow> NpcObj n"
  have i: "np_items b (ContainerObj c) = contents b c" for c by (simp add: np_items_def)
  have "hm_ok (gr_staticObjects r)" "hm_ok (gr_dynamicObjects r)" using assms(1) by (simp_all add: room_ok_def)
  then show ?thesis
    using assms(2) hm_sum_mod [of "gr_staticObjects r" cid "ContainerObj c" "np_items b" ?g]
      hm_sum_mod [of "gr_dynamicObjects r" cid "ContainerObj c" "np_items b" ?g]
    by (auto simp: FindNonplayerObject_def mod_container_def mod_nonplayer_def room_items_def i split: option.splits)
qed

lemma Find_mod_session [simp]: "FindNonplayerObject (mod_session sid f r) cid = FindNonplayerObject r cid"
  by (simp add: FindNonplayerObject_def mod_session_def cong: option.case_cong)

lemma items_DestroyDead: "room_ok r \<Longrightarrow> room_items b (DestroyDeadObject e oid r) \<le> room_items b r"
proof -
  assume ok: "room_ok r"
  have "hm_sum (np_items b) (hm_erase oid (gr_dynamicObjects r)) \<le> hm_sum (np_items b) (gr_dynamicObjects r)"
    using ok by (intro hm_sum_erase) (auto simp: room_ok_def hm_all_iff intro: contents_nonneg)
  then show ?thesis by (auto simp: DestroyDeadObject_def room_items_def Let_def items_quiet [OF Broadcast_quiet, unfolded room_items_def]
        split: option.split)
qed

lemma items_fire_hit: "room_ok r \<Longrightarrow> room_items b (fire_hit e shooter w hit r) \<le> room_items b r"
proof -
  assume ok: "room_ok r"
  have d: "0 \<le> baseDamage spec" if "GetWeaponSpec w = Some spec" for spec
    using weapon_spec_cases [OF that] by simp
  have n: "room_ok (notify_hit e hit c a (mod_npc hit (\<lambda>_. TakeDamage (baseDamage spec) a' n) r))"
    if "FindHostileNpc r hit = Some n" "GetWeaponSpec w = Some spec" for n spec a a' and c :: HostileNPC
    using room_okD(4) [OF ok, of hit "NpcObj n"] that d [OF that(2)]
    by (intro notify_hit_ok mod_npc_ok [OF ok] TakeDamage_np_ok) (simp_all add: FindHostileNpc_Some del: np_ok.simps)
  show ?thesis
    by (auto simp: fire_hit_def Let_def case_prod_beta' split: option.split
        dest!: n intro!: order_trans [OF items_DestroyDead])
qed

section \<open>Handlers\<close>

lemma interact_items:
  assumes ok: "room_ok r" and b: "b \<noteq> 0"
  shows "room_items b (fst (Handle_C2D_RequestInteractContainerObject e sid q r)) = room_items b r"
proof -
  have X: "room_items b (if \<not> S \<or> \<not> E
       then mod_container (to_u32 cid) (\<lambda>c. IncrementContainerVersion (c\<lparr>c_slots := snd st\<rparr>)) (mod_session sid (set_inventory i) r)
       else mod_session sid (set_inventory i) r) = room_items b r"
    if s: "GetPlayerSession r sid = Some s" and res: "interact_result r s q = Inr (cid, co, st)"
      and S: "S = (ii_start_object_id q = PLAYER_OBJECT_ID_SENTINEL)" and E: "E = (ii_end_object_id q = PLAYER_OBJECT_ID_SENTINEL)"
      and i: "i = (if S \<or> E then IncrementInventoryVersion (UpdateFirstEmptySlotIndex (fst st)) else fst st)"
    for s cid co st i S E
  proof -
    have iv: "inv_ok (ps_inventory s)" using room_okD(2) [OF ok s] by (simp add: session_ok_def)
    have co: "slots_ok (c_slots c)" if "co = Some c" for c
      using interact_result_cont(1) [OF res that] room_okD(4) [OF ok] by (fastforce simp: container_ok_def)
    note R = interact_result_Inr [OF res iv co]
    have ci: "carried b i = carried b (fst st)" by (simp add: i carried_def IncrementInventoryVersion_def UpdateFirstEmptySlotIndex_def)
    have t: "carried b (fst st) + qty_list b (snd st) = carried b (ps_inventory s) + (case co of Some c \<Rightarrow> contents b c | None \<Rightarrow> 0)"
      using R b by (simp add: store_total_def)
    let ?r1 = "mod_session sid (set_inventory i) r"
    have m: "room_items b ?r1 = room_items b r - carried b (ps_inventory s) + carried b (fst st)"
      using items_set_inventory [OF ok s, of b i] ci by simp
    have o1: "room_ok ?r1" using R iv interact_result_cont(3) [OF res]
      by (intro mod_session_ok [OF ok] set_inventory_ok) (auto simp: i S E)
    show ?thesis
    proof (cases "\<not> S \<or> \<not> E")
      case True
      then obtain c where c: "co = Some c" using interact_result_cont(2) [OF res] S E by auto
      have "FindNonplayerObject ?r1 (to_u32 cid) = Some (ContainerObj c)" using interact_result_cont(1) [OF res c] by simp
      from items_set_container [OF o1 this] True t m c show ?thesis by (simp add: contents_def IncrementContainerVersion_def)
    next
      case False
      show ?thesis
      proof (cases co)
        case None
        then show ?thesis using False t m R by simp
      next
        case (Some c)
        then show ?thesis using False res S E
          by (auto simp: interact_result_def interact_container_def Let_def map_sum_def
              split: if_splits sum.splits prod.splits option.splits)
      qed
    qed
  qed
  note X = X [OF _ _ refl refl refl]
  show ?thesis unfolding Handle_C2D_RequestInteractContainerObject_def on_active_def
    using X by (auto simp: Let_def split: option.split sum.split)
qed

lemma discarded_nonneg: "slot_ok (magazine_of p iv) \<Longrightarrow> 0 \<le> discarded p b iv"
  using qty_list_nonneg [of "[magazine_of p iv]" b] by (simp add: discarded_def)

lemma equip_apply_total:
  assumes "store_ok st" "valid_ref st ref" "equip_apply q ref st = (st', ok, d, u)" "b \<noteq> 0"
  shows "store_total b st' \<le> store_total b st"
proof -
  have mag: "slot_ok (magazine_of p (fst st))" for p using store_okD(7) [OF assms(1), of p] by (auto simp: mag_ok_def)
  moreover have "magazine_of p (fst (swap_weapon p' ref st)) = magazine_of p (fst st)" for p p'
    by (cases st; cases ref) (simp_all add: swap_weapon_def Let_def)
  ultimately have n: "0 \<le> discarded p b (fst st)" "0 \<le> discarded p b (fst (swap_weapon p ref st))" for p
    by (simp_all add: discarded_nonneg)
  have "(\<exists>p. EquipWeaponFromSlot ref p 0 (- 1) st = (st', ok, d, u)) \<or> (\<exists>p. UnequipWeaponToSlot ref p 0 (- 1) st = (st', ok, d, u)) \<or>
      EquipArmorFromSlot ref 0 st = (st', ok, d) \<or> UnequipArmorToSlot ref 0 st = (st', ok, d)"
    using assms(3) by (auto simp: equip_apply_def Let_def split: if_splits prod.splits)
  then have "\<exists>lost. exchange_ok st lost 0 st' ok d \<and> 0 \<le> lost b"
    using EquipWeapon_exchange [OF assms(1,2)] UnequipWeapon_exchange [OF assms(1,2)] Armor_exchange [OF assms(1,2)] n
    by (metis order_refl)
  then show ?thesis using assms(4) by (auto simp: exchange_ok_def split: if_splits)
qed

lemma equip_items:
  assumes ok: "room_ok r" and b: "b \<noteq> 0"
  shows "room_items b (fst (Handle_C2D_RequestEquipItem e sid q r)) \<le> room_items b r"
proof -
  have X: "room_items b (case co of None \<Rightarrow> mod_session sid (set_inventory (fst st)) r
          | Some (cid, c) \<Rightarrow> mod_container (to_u32 cid) (\<lambda>c. c\<lparr>c_slots := snd st\<rparr>) (mod_session sid (set_inventory (fst st)) r))
      \<le> room_items b r"
    if s: "GetPlayerSession r sid = Some s" and e: "equip_slot r s q = Inr (ref, co)"
      and a: "equip_apply q ref (ps_inventory s, case co of Some (cid, c) \<Rightarrow> c_slots c | None \<Rightarrow> []) = (st, k, d, u)"
    for s ref co st k d u
  proof -
    let ?st = "(ps_inventory s, case co of Some (cid, c) \<Rightarrow> c_slots c | None \<Rightarrow> [])"
    let ?r1 = "mod_session sid (set_inventory (fst st)) r"
    have iv: "inv_ok (ps_inventory s)" using room_okD(2) [OF ok s] by (simp add: session_ok_def)
    have c: "container_ok c" if "co = Some (cid, c)" for cid c
      using equip_slot_Inr(2) [OF e that] room_okD(4) [OF ok] by fastforce
    have so: "store_ok ?st" using iv c by (auto simp: store_ok_def container_ok_def slots_ok_def split: option.split)
    note v = equip_slot_Inr(1) [OF e]
    obtain lost where "exchange_ok ?st lost 0 st k d" using equip_apply_exchange [OF so v a] ..
    then have st: "store_ok st" using so by (auto simp: exchange_ok_def split: if_splits)
    have t: "carried b (fst st) + qty_list b (snd st) \<le> carried b (ps_inventory s) + (case co of Some (cid, c) \<Rightarrow> contents b c | None \<Rightarrow> 0)"
      using equip_apply_total [OF so v a b] by (auto simp: store_total_def contents_def split: option.splits)
    have m: "room_items b ?r1 = room_items b r - carried b (ps_inventory s) + carried b (fst st)"
      by (rule items_set_inventory [OF ok s])
    have o1: "room_ok ?r1" using st by (intro mod_session_ok [OF ok] set_inventory_ok) (simp_all add: store_ok_def)
    show ?thesis
    proof (cases co)
      case None
      have "0 \<le> qty_list b (snd st)" using st by (intro slots_ok_nonneg) (simp add: store_ok_def)
      with None t m show ?thesis by simp
    next
      case (Some x)
      obtain cid cc where x: "x = (cid, cc)" by (cases x)
      have "FindNonplayerObject ?r1 (to_u32 cid) = Some (ContainerObj cc)" using equip_slot_Inr(2) [OF e] Some x by simp
      from items_set_container [OF o1 this, of b "\<lambda>c. c\<lparr>c_slots := snd st\<rparr>"] t m Some x show ?thesis by (simp add: contents_def)
    qed
  qed
  have Y: "room_items b (case co of None \<Rightarrow> x | Some (cid, c) \<Rightarrow> mod_container (to_u32 cid) IncrementContainerVersion x) = room_items b x"
    for x and co :: "(i32 \<times> Container) option" by (simp add: items_mod_container split: option.split)
  note D = Handle_C2D_RequestEquipItem_def on_active_def Let_def
  show ?thesis
  proof (cases "GetPlayerSession r sid")
    case (Some s)
    show ?thesis
    proof (cases "equip_slot r s q")
      case (Inr x)
      obtain ref co where x: "x = (ref, co)" by (cases x)
      obtain st k d u where a: "equip_apply q ref (ps_inventory s, case co of Some (cid, c) \<Rightarrow> c_slots c | None \<Rightarrow> []) = (st, k, d, u)"
        by (metis prod_cases4)
      note le = X [OF Some Inr [unfolded x] a]
      show ?thesis using le by (simp add: D Some Inr x a Y)
    qed (simp add: D Some)
  qed (simp add: D)
qed

lemma fire_items:
  assumes ok: "room_ok r" and b: "b \<noteq> 0"
  shows "room_items b (fst (Handle_C2D_RequestWeaponFire e sid fs w hp hit r)) \<le> room_items b r"
proof -
  have X: "room_ok r2 \<and> room_items b r2 \<le> room_items b r"
    if s: "GetPlayerSession r sid = Some s" and m: "\<not> IsEmpty (magazine_of p (ps_inventory s))"
      and r2: "r2 = mod_session sid (set_inventory (set_magazine p (take_from 1 (magazine_of p (ps_inventory s))) (ps_inventory s)))
        (mod_session sid (SetNextFireSequence (fs + 1)) r)" for s p r2
  proof -
    let ?r1 = "mod_session sid (SetNextFireSequence (fs + 1)) r"
    have iv: "inv_ok (ps_inventory s)" using room_okD(2) [OF ok s] by (simp add: session_ok_def)
    have o1: "room_ok ?r1" using ok by (intro mod_session_ok) (auto simp: session_ok_def gone_ok_def SetNextFireSequence_def)
    have s1: "GetPlayerSession ?r1 sid = Some (SetNextFireSequence (fs + 1) s)" using s by (simp add: GetPlayerSession_mod)
    have "slot_ok (magazine_of p (ps_inventory s))"
      using iv by (auto simp: inv_ok_def inv_core_def mag_ok_def)
    then have "qty_of b (take_from 1 (magazine_of p (ps_inventory s))) \<le> qty_of b (magazine_of p (ps_inventory s))"
      using m b by (subst take_from_simps(3)) (auto simp: slot_ok_def IsEmpty_def)
    then have "room_items b r2 \<le> room_items b r"
      using items_set_inventory [OF o1 s1, of b] by (simp add: r2 total_set_magazine items_mod_session)
    moreover have "room_ok r2" unfolding r2 using iv m by (intro mod_session_ok [OF o1] set_inventory_ok fire_magazine_ok)
    ultimately show ?thesis by simp
  qed
  note X = X [OF _ _ refl]
  have H: "room_items b (fire_hit e k w hit r2) \<le> room_items b r" if "room_ok r2 \<and> room_items b r2 \<le> room_items b r" for k r2
    using items_fire_hit [of r2 b e k w hit] that by linarith
  show ?thesis unfolding Handle_C2D_RequestWeaponFire_def on_player_def on_active_def
    using X by (auto simp: Let_def items_mod_session H split: option.split)
qed

lemma reload_items:
  assumes ok: "room_ok r"
  shows "room_items b (fst (Handle_C2D_RequestReload e sid v r)) = room_items b r"
proof -
  have "room_items b (mod_session sid (set_inventory (ps_inventory s)) r) = room_items b r"
    "room_items b (mod_session sid (set_inventory (LoadMagazineFromInventory p (ps_inventory s))) r) = room_items b r"
    if s: "GetPlayerSession r sid = Some s" for s p
    using items_set_inventory [OF ok s] Load_total [OF inv_ok_core, of "ps_inventory s" b p] room_okD(2) [OF ok s]
    by (auto simp: session_ok_def)
  then show ?thesis
    by (simp add: Handle_C2D_RequestReload_def guard_defs Let_def ReloadMagazine_def BroadcastReloadSequence_def split: option.split)
qed

text \<open>No packet creates items.\<close>

lemma handle_msg_items:
  assumes "room_ok r" "b \<noteq> 0"
  shows "room_items b (fst (handle_msg e sid addr msg r)) \<le> room_items b r"
proof (cases msg)
  case (C_RequestInteractContainerObject x)
  then show ?thesis using interact_items [OF assms] by simp
next
  case (C_RequestEquipItem x)
  then show ?thesis using equip_items [OF assms] by simp
next
  case (C_RequestWeaponFire x y z w)
  then show ?thesis using fire_items [OF assms] by simp
next
  case (C_RequestReload x)
  then show ?thesis using reload_items [OF assms(1)] by simp
qed (auto simp: handler_defs guard_defs Let_def case_prod_beta' displace_holder_def items_mod_session items_mod_container
      fold_keep [of "room_items b" "apply_npc_state i" for i]
      finish_npc_request_def ScheduleRecallTick_def BroadcastReloadSequence_def SetSpawnSpot_def GetNewObjectId_def
      GetRemainingLifetimeMs_def read_clock_def split: option.split)

section \<open>Leaving\<close>


lemma carried_Clear: "b \<noteq> 0 \<Longrightarrow> carried b (InvClear iv) = 0"
proof -
  assume "b \<noteq> 0"
  then have "qty_of b (Clear s) = 0" for s by (simp add: qty_of_def)
  then have "qty_of b (Clear s) = 0" "qty_list b (map Clear ss) = 0" for s ss by (induction ss) simp_all
  then show ?thesis by (simp add: carried_def InvClear_def IncrementInventoryVersion_def UpdateFirstEmptySlotIndex_def)
qed


lemma items_ReleaseNpc:
  assumes "room_ok r"
  shows "room_items b (ReleaseNpcAuthority e oid r) = room_items b r"
proof -
  define f where "f = (\<lambda>oid' r'. case as_npc (hm_find (gr_dynamicObjects r') oid') of None \<Rightarrow> r'
          | Some n \<Rightarrow>
              if \<not> IsAuthority oid n then r'
              else let (n', released) = ReleaseAuthority n in
                   if \<not> released then r'
                   else NotifyNpcAuthority e n' (r'\<lparr>gr_dynamicObjects := hm_mod oid' (\<lambda>_. NpcObj n') (gr_dynamicObjects r')\<rparr>))"
  have "hm_ok (gr_dynamicObjects (f i r)) \<and> room_items b (f i r) = room_items b r" if "hm_ok (gr_dynamicObjects r)" for i r
  proof (cases "as_npc (hm_find (gr_dynamicObjects r) i)")
    case (Some n)
    then have n: "hm_find (gr_dynamicObjects r) i = Some (NpcObj n)"
      by (cases "hm_find (gr_dynamicObjects r) i" rule: as_npc.cases) auto
    have "room_items b (r\<lparr>gr_dynamicObjects := hm_mod i (\<lambda>_. NpcObj n') (gr_dynamicObjects r)\<rparr>) = room_items b r" for n'
      using hm_sum_mod [OF that n, of "np_items b" "\<lambda>_. NpcObj n'"] by (simp add: np_items_def room_items_def)
    then show ?thesis using that quiet_objects(2) [OF NotifyNpcAuthority_quiet]
      by (simp add: f_def Some case_prod_beta' Let_def)
  qed (simp add: f_def that)
  then have "hm_ok (gr_dynamicObjects r) \<Longrightarrow> room_items b (fold f xs r) = room_items b r" for xs r
    by (induction xs arbitrary: r) auto
  then show ?thesis using assms by (simp add: ReleaseNpcAuthority_def f_def [symmetric] room_ok_def)
qed

lemma items_SpawnDynamic:
  "room_items b (SpawnDynamicObject e x r) =
     room_items b r + (if hm_find (gr_dynamicObjects r) (np_objectId x) = None then np_items b x else 0)"
  using items_quiet [OF Broadcast_quiet] by (simp add: SpawnDynamicObject_def NotifySpawnObject_def room_items_def hm_sum_insert)

text \<open>
  The removal of a dead player's object moves the whole inventory into the loot container,
  provided the new object id is not in use; a disconnected player's inventory is dropped.
\<close>

lemma MakeLoot_id [simp]: "objectId (MakePlayerLootContainer oid pos yaw iv) = oid"
  by (simp add: MakePlayerLootContainer_def Let_def MakeContainer_def InitializeSlots_def)

lemma detach_object_items:
  assumes ok: "room_ok r" and b: "b \<noteq> 0" and s': "GetPlayerSession r sid = Some s'" "ps_inventory s' = ps_inventory s"
  shows "room_items b (detach_object e sid s p r) = room_items b r
    - (if ps_leaveReason s = LR_DISCONNECTED \<or> ps_leaveReason s = LR_DEAD \<and> hm_find (gr_dynamicObjects r) (gr_nxtObjectId r) \<noteq> None
       then carried b (ps_inventory s) else 0)"
proof -
  have iv: "inv_ok (ps_inventory s)" using room_okD(2) [OF ok s'(1)] s'(2) by (simp add: session_ok_def)
  define H where "H r' \<longleftrightarrow> sess_at (\<lambda>x. ps_inventory x = ps_inventory s) sid r' \<and> GetPlayerSession r' sid \<noteq> None" for r'
  have C: "room_items b (mod_session sid (\<lambda>x. set_inventory (InvClear (ps_inventory x)) x) r') =
      room_items b r' - carried b (ps_inventory s)" if q: "H r'" "room_ok r'" for r'
  proof -
    obtain x where x: "GetPlayerSession r' sid = Some x" "ps_inventory x = ps_inventory s" using q(1) by (auto simp: sess_at_def H_def)
    have "hm_ok (gr_playerSessions r')" "hm_find (gr_playerSessions r') sid = Some x"
      using x(1) q(2) by (simp_all add: room_ok_def room_hm_ok_def GetPlayerSession_def)
    from hm_sum_mod [OF this, of "\<lambda>s. carried b (ps_inventory s)" "\<lambda>x. set_inventory (InvClear (ps_inventory x)) x"]
    show ?thesis using carried_Clear [OF b] x(2) by (simp add: room_items_def mod_session_def set_inventory_def)
  qed
  have Q: "H r''" if "quiet r' r''" "H r'" for r' r''
  proof -
    have "core s1 = core s2 \<Longrightarrow> (ps_inventory s1 = ps_inventory s) = (ps_inventory s2 = ps_inventory s)" for s1 s2
      by (drule core_fields(1)) simp
    from sess_at_quiet [OF that(1), of "\<lambda>x. ps_inventory x = ps_inventory s" sid, OF this]
      sess_at_quiet [OF that(1), of "\<lambda>x. False" sid, OF refl] that(2)
    show ?thesis by (simp add: sess_at_def H_def)
  qed
  have L: "room_items b (SpawnPlayerLootContainer e p (ps_inventory s) r) = room_items b r +
      (if hm_find (gr_dynamicObjects r) (gr_nxtObjectId r) = None then carried b (ps_inventory s) else 0)"
    using PlayerLoot_contents [OF inv_ok_core [OF iv] b]
    by (simp add: SpawnPlayerLootContainer_def GetNewObjectId_def items_SpawnDynamic np_items_def)
  have S: "H r'" if "gr_playerSessions r' = gr_playerSessions r" for r'
    using that s' by (auto simp: sess_at_def GetPlayerSession_def H_def)
  have SL: "H (SpawnPlayerLootContainer e p (ps_inventory s) r)"
    unfolding SpawnPlayerLootContainer_def GetNewObjectId_def SpawnDynamicObject_def NotifySpawnObject_def
    by (auto intro!: Q [OF Broadcast_quiet] intro: S simp: Let_def)
  show ?thesis
  proof (cases "ps_leaveReason s")
    case LR_DEAD
    have "room_ok (SpawnPlayerLootContainer e p (ps_inventory s) r)" by (rule SpawnPlayerLootContainer_ok [OF ok iv])
    then show ?thesis using L C [OF Q [OF Broadcast_quiet SL]]
      by (simp add: detach_object_def LR_DEAD Let_def)
  next
    case LR_DISCONNECTED
    then show ?thesis using C [of r] S ok by (simp add: detach_object_def Let_def)
  qed (simp_all add: detach_object_def Let_def)
qed

lemma sess_at_carried_quiet:
  assumes "quiet r r'"
  shows "sess_at (\<lambda>x. P (ps_inventory x)) sid r' = sess_at (\<lambda>x. P (ps_inventory x)) sid r"
proof -
  have "core s1 = core s2 \<Longrightarrow> P (ps_inventory s1) = P (ps_inventory s2)" for s1 s2 by (drule core_fields(1)) simp
  then show ?thesis by (rule sess_at_quiet [OF assms])
qed

text \<open>The state of \<open>DetachPlayer\<close> when the object is about to be removed.\<close>

definition shape :: "GameRoom \<Rightarrow> i32 list \<times> (u32, PlayerObject) hmap \<times> u32 \<times> u32 list" where
  "shape r = (hm_keys (gr_playerSessions r), gr_playerObjects r, gr_nxtObjectId r, hm_keys (gr_dynamicObjects r))"

lemma shape_frame [simp]:
  "shape (mod_session sid f r) = shape r" "shape (mod_container i g r) = shape r"
  "shape (r\<lparr>gr_dynamicObjects := hm_mod j k (gr_dynamicObjects r)\<rparr>) = shape r"
  by (simp_all add: shape_def mod_session_def mod_container_def mod_nonplayer_def)

lemma shape_quiet: "quiet r r' \<Longrightarrow> shape r' = shape r"
  using quiet_objects [of r r'] sess_rel_keys [OF quiet_sess_rel [of r r' "\<lambda>_ _. True"]] by (simp add: shape_def)

lemma shape_release [simp]:
  "shape (ReleaseInteractingContainer sid r) = shape r" "shape (ReleaseNpcAuthority e oid r) = shape r"
  by (auto simp: ReleaseInteractingContainer_def ReleaseNpcAuthority_def Let_def shape_quiet [OF NotifyNpcAuthority_quiet]
      split: option.split prod.split intro!: fold_keep)

lemma DetachPlayer_object:
  assumes ok: "room_ok r" and s: "GetPlayerSession r sid = Some s"
  obtains r3 s3 where "room_ok r3" "room_items b r3 = room_items b r" "GetPlayerSession r3 sid = Some s3"
    "ps_inventory s3 = ps_inventory s" "gr_playerObjects r3 = gr_playerObjects r" "gr_nxtObjectId r3 = gr_nxtObjectId r"
    "\<forall>i. hm_find (gr_dynamicObjects r3) i = None \<longleftrightarrow> hm_find (gr_dynamicObjects r) i = None"
    "DetachPlayer e sid r = notify_session sid (mod_session sid (\<lambda>x. (SetObjectId (- 1) x)\<lparr>ps_leaveState := LS_DETACHED\<rparr>)
       (case (if ps_objectId s \<noteq> - 1 then FindPlayerObject r3 (to_u32 (ps_objectId s)) else None) of
          None \<Rightarrow> r3 | Some p \<Rightarrow> detach_object e sid s p r3))"
proof -
  define r1 where "r1 = mod_session sid (\<lambda>x. (EndRecall x)\<lparr>ps_sessionState :=
                     (if ps_leaveReason s = LR_DEAD then SS_SPECTATING else SS_LEFT)\<rparr>) r"
  define r2 where "r2 = ReleaseInteractingContainer sid r1"
  define r3 where "r3 = ReleaseNpcAuthority e (ps_objectId s) r2"
  have o1: "room_ok r1"
    using ok unfolding r1_def by (rule mod_session_ok) (auto simp: session_ok_def gone_ok_def EndRecall_def)
  have o2: "room_ok r2" unfolding r2_def by (rule ReleaseInteractingContainer_ok [OF o1])
  have o3: "room_ok r3" unfolding r3_def by (rule ReleaseNpcAuthority_ok [OF o2])
  have i: "room_items b r3 = room_items b r"
    unfolding r3_def items_ReleaseNpc [OF o2] by (simp add: r2_def r1_def items_mod_session)
  let ?P = "\<lambda>x. ps_inventory x = ps_inventory s"
  have "sess_at ?P sid r1" using s by (simp add: r1_def sess_at_def GetPlayerSession_mod)
  then have "sess_at ?P sid r2"
    by (auto simp: r2_def ReleaseInteractingContainer_def Let_def split: option.split intro!: sess_at_mod)
  then have p3: "sess_at ?P sid r3"
    unfolding r3_def ReleaseNpcAuthority_def
    by (simp, intro impI) (subst fold_keep [where P = "sess_at ?P sid"], auto simp: Let_def
        sess_at_carried_quiet [OF NotifyNpcAuthority_quiet, of "\<lambda>x. x = ps_inventory s"] split: option.split prod.split)
  have sh: "shape r3 = shape r" by (simp add: r3_def r2_def r1_def)
  then have "GetPlayerSession r3 sid \<noteq> None"
    using s hm_find_None [of "gr_playerSessions r3" sid] hm_find_None [of "gr_playerSessions r" sid]
    by (simp add: shape_def GetPlayerSession_def)
  then obtain s3 where s3: "GetPlayerSession r3 sid = Some s3" "ps_inventory s3 = ps_inventory s"
    using p3 by (auto simp: sess_at_def)
  have D: "DetachPlayer e sid r = notify_session sid (mod_session sid (\<lambda>x. (SetObjectId (- 1) x)\<lparr>ps_leaveState := LS_DETACHED\<rparr>)
       (case (if ps_objectId s \<noteq> - 1 then FindPlayerObject r3 (to_u32 (ps_objectId s)) else None) of
          None \<Rightarrow> r3 | Some p \<Rightarrow> detach_object e sid s p r3))"
    unfolding r3_def r2_def r1_def by (simp only: DetachPlayer_def s option.case Let_def)
  show thesis
    by (rule that [OF o3 i s3 _ _ _ D]) (use sh in \<open>simp_all add: shape_def hm_find_None\<close>)
qed

lemma DetachPlayer_items:
  assumes ok: "room_ok r" and s: "GetPlayerSession r sid = Some s" and b: "b \<noteq> 0"
  shows "room_items b (DetachPlayer e sid r) = room_items b r -
    (if ps_objectId s \<noteq> - 1 \<and> FindPlayerObject r (to_u32 (ps_objectId s)) \<noteq> None \<and>
        (ps_leaveReason s = LR_DISCONNECTED \<or>
         ps_leaveReason s = LR_DEAD \<and> hm_find (gr_dynamicObjects r) (gr_nxtObjectId r) \<noteq> None)
     then carried b (ps_inventory s) else 0)"
proof -
  obtain r3 s3 where r3: "room_ok r3" "room_items b r3 = room_items b r" "GetPlayerSession r3 sid = Some s3"
    "ps_inventory s3 = ps_inventory s" "gr_playerObjects r3 = gr_playerObjects r" "gr_nxtObjectId r3 = gr_nxtObjectId r"
    "\<forall>i. hm_find (gr_dynamicObjects r3) i = None \<longleftrightarrow> hm_find (gr_dynamicObjects r) i = None"
    "DetachPlayer e sid r = notify_session sid (mod_session sid (\<lambda>x. (SetObjectId (- 1) x)\<lparr>ps_leaveState := LS_DETACHED\<rparr>)
       (case (if ps_objectId s \<noteq> - 1 then FindPlayerObject r3 (to_u32 (ps_objectId s)) else None) of
          None \<Rightarrow> r3 | Some p \<Rightarrow> detach_object e sid s p r3))"
    using DetachPlayer_object [OF ok s, of b e] .
  have F: "FindPlayerObject r3 oid = FindPlayerObject r oid" for oid using r3(5) by (simp add: FindPlayerObject_def)
  have "room_items b (DetachPlayer e sid r) = room_items b
       (case (if ps_objectId s \<noteq> - 1 then FindPlayerObject r (to_u32 (ps_objectId s)) else None) of
          None \<Rightarrow> r3 | Some p \<Rightarrow> detach_object e sid s p r3)"
    unfolding r3(8) F by (simp add: items_mod_session)
  then show ?thesis
    using detach_object_items [OF r3(1) b r3(3,4)] r3(2,6) r3(7)
    by (auto split: option.splits)
qed


lemma DetachPlayer_items_le: "room_ok r \<Longrightarrow> b \<noteq> 0 \<Longrightarrow> room_items b (DetachPlayer e sid r) \<le> room_items b r"
proof (cases "GetPlayerSession r sid")
  case (Some s)
  assume "room_ok r" "b \<noteq> 0"
  then show ?thesis using DetachPlayer_items [OF _ Some, of b e] room_okD(2) [OF _ Some]
    by (auto simp: session_ok_def carried_nonneg)
qed (simp add: DetachPlayer_def)

lemma leave_session_items: "room_ok r \<Longrightarrow> b \<noteq> 0 \<Longrightarrow> room_items b (leave_session e now sid r) \<le> room_items b r"
  using DetachPlayer_items_le [of r b e sid] by (auto simp: leave_session_def Let_def split: option.split)

lemma fold_items:
  assumes "\<And>x r. room_ok r \<Longrightarrow> room_ok (f x r) \<and> room_items b (f x r) \<le> room_items b r" "room_ok r"
  shows "room_items b (fold f xs r) \<le> room_items b r"
  using assms(2)
proof (induction xs arbitrary: r)
  case (Cons x xs)
  have "room_items b (fold f xs (f x r)) \<le> room_items b (f x r)" using Cons assms(1) by blast
  also have "\<dots> \<le> room_items b r" using Cons.prems assms(1) by blast
  finally show ?case by simp
qed simp

lemma pl_marked_items [simp]: "room_items b (pl_marked e r) = room_items b r"
proof -
  have "room_items b (clear_pending r) = room_items b r" for r
  proof -
    have "carried b (ps_inventory (if c then ClearPendingReliableExcept q s else s)) = carried b (ps_inventory s)" for c q s by simp
    then show ?thesis unfolding clear_pending_def room_items_def by simp
  qed
  moreover have "room_items b (DetectDisconnectedSessions e r) = room_items b r" for r
    unfolding DetectDisconnectedSessions_def Let_def case_prod_beta'
    by (subst fold_keep [where P = "room_items b"]) (auto split: option.split)
  moreover have "room_items b (AllKill e r) = room_items b r" for r
    unfolding AllKill_def by (rule fold_keep) simp
  moreover have "room_items b (fold (mark_dead e) xs r) = room_items b r" for xs r
    by (rule fold_keep) (simp add: mark_dead_def split: option.split)
  ultimately show ?thesis by (simp add: pl_marked_def Let_def case_prod_beta')
qed

lemma ProcessLeaves_items:
  assumes "room_ok r" "b \<noteq> 0"
  shows "room_items b (ProcessLeaves e r) \<le> room_items b r"
proof -
  have "room_items b (CheckAllLeft r') = room_items b r'" for r' by (simp add: CheckAllLeft_def)
  then show ?thesis unfolding ProcessLeaves_alt
    using fold_items [OF _ pl_marked_ok [OF assms(1), of e], of "leave_session e (fst (read_clock e r))" b]
    by (simp add: leave_session_ok leave_session_items assms(2))
qed

section \<open>Properties\<close>

lemma receive_header_items [simp]: "room_items b (fst (receive_header e sid h r)) = room_items b r" if "room_ok r"
proof (cases "GetPlayerSession r sid")
  case (Some s)
  obtain s' r' where c: "recv_core s' = recv_core s" "r' = r \<or> r' = snd (read_clock e r)"
    "fst (receive_header e sid h r) = mod_session sid (\<lambda>_. s') r'" by (rule receive_header_cases [OF Some])
  have "hm_ok (gr_playerSessions r')" "hm_find (gr_playerSessions r') sid = Some s"
    using c(2) that Some by (auto simp: room_ok_def room_hm_ok_def GetPlayerSession_def read_clock_def)
  from hm_sum_mod [OF this, of "\<lambda>s. carried b (ps_inventory s)" "\<lambda>_. s'"] recv_core_fields(3) [OF c(1)]
  have "room_items b (mod_session sid (\<lambda>_. s') r') = room_items b r'" by (simp add: room_items_def mod_session_def)
  then show ?thesis unfolding c(3) using c(2) by auto
qed (simp add: receive_header_def)

lemma room_step_items:
  assumes ok: "room_ok r" and b: "b \<noteq> 0"
  shows "room_items b (room_step e r i) \<le> room_items b r"
proof (cases i)
  case (RPacket sid bytes addr)
  have "room_items b (fst (handle_msg e sid addr msg (fst (receive_header e sid (parse_header bytes) r)))) \<le> room_items b r" for msg
    using handle_msg_items [OF receive_header_ok(1) [OF ok] b] ok by (metis receive_header_items)
  then show ?thesis using receive_packet_cases [of e sid bytes addr r] RPacket ok by auto
next
  case (RRecall sid uid gen)
  then show ?thesis
    by (auto simp: RecallTick_def SendRecallResult_def ScheduleRecallTick_def Let_def case_prod_beta' items_mod_session split: option.split)
next
  case RUpdate
  have "room_items b (Update e r') = room_items b r'" for r'
    by (simp add: Update_def BroadcastPlayerStates_def RegenPlayerShields_def Let_def case_prod_beta' read_clock_def)
  then show ?thesis using ProcessLeaves_items [OF ok b] RUpdate by simp
qed (simp_all add: UpdateNpcStates_def Let_def items_mod_session)

interpretation room_stock: step_system "room_step e" "\<lambda>r. room_ok r \<and> (b \<noteq> 0 \<longrightarrow> room_items b r \<le> n)" for e b n
  by unfold_locales (use room_step_ok room_step_items order_trans in blast)

text \<open>
  C1. (safety) Items are never duplicated: whatever packets, timers and updates a room receives,
  in whatever order, the amount of every blueprint carried by its players (in slots, equipped
  and loaded) and lying in its containers never grows.
\<close>

theorem items_never_duplicated:
  assumes "room_ok r" "b \<noteq> 0"
  shows "room_items b (run (room_step e) r is) \<le> room_items b r"
  using room_stock.run_inv [of r b "room_items b r" e "is"] assms by simp

theorem items_never_duplicated_witness:
  "room_items 6 (run (room_step ex_env) ex_room [RUpdate, RRecall 1 2000 0, RUpdate]) \<le> 80"
proof -
  have "room_items 6 ex_room = 80" by code_simp
  with items_never_duplicated [OF ex_room_ok, of 6 ex_env "[RUpdate, RRecall 1 2000 0, RUpdate]"] show ?thesis by simp
qed

text \<open>
  C22. (invariant) Removing a dead player conserves items: as long as the next object id is not
  taken, everything the player carried is in the room afterwards and nothing is lost.
\<close>

theorem death_conserves_items:
  assumes "room_ok r" "GetPlayerSession r sid = Some s" "ps_leaveReason s = LR_DEAD"
    "hm_find (gr_dynamicObjects r) (gr_nxtObjectId r) = None" "b \<noteq> 0"
  shows "room_items b (DetachPlayer e sid r) = room_items b r"
  using DetachPlayer_items [OF assms(1,2,5), of e] assms(3,4) by simp

theorem death_conserves_items_witness:
  "room_items 6 (DetachPlayer ex_env 1 (mark_session ex_env LR_DEAD 0 1 ex_room)) = 80"
proof -
  have s: "GetPlayerSession (mark_session ex_env LR_DEAD 0 1 ex_room) 1 =
     Some (MarkLeaving LR_DEAD 0 1000000000 (SetObjectId 0 ex_player_session))"
    by (simp add: mark_session_def read_clock_def GetPlayerSession_mod)
      (simp add: GetPlayerSession_def ex_room_def RegisterPlayerSession_def MakeGameRoom_def hm_insert_def hm_keys_def
        hm_find_def ex_env_def ex_player_session_def SetObjectId_def MakePlayerSession_def)
  have d: "ps_leaveReason (MarkLeaving LR_DEAD 0 1000000000 (SetObjectId 0 ex_player_session)) = LR_DEAD"
    by (simp add: MarkLeaving_def ex_player_session_def MakePlayerSession_def SetObjectId_def)
  have n: "hm_find (gr_dynamicObjects (mark_session ex_env LR_DEAD 0 1 ex_room))
      (gr_nxtObjectId (mark_session ex_env LR_DEAD 0 1 ex_room)) = None" by code_simp
  have i: "room_items 6 ex_room = 80" by code_simp
  from death_conserves_items [OF mark_session_ok [OF ex_room_ok] s d n, of 6 ex_env] i show ?thesis by simp
qed

end
