(* ===== verification/HandlerProps.thy ===== *)
theory HandlerProps
  imports RoomItems
begin

text \<open>
  What single operations of a room promise to the clients: how object lists are cut into
  packets, who receives a broadcast, what a shot costs and that refused requests change nothing.
\<close>

section \<open>Object lists\<close>

definition chunk_size :: "(PbUnityGameObject \<Rightarrow> nat) \<Rightarrow> PbUnityGameObject list \<Rightarrow> int" where
  "chunk_size sz os = (\<Sum>o1\<leftarrow>os. int (sz o1) + 5)"

lemma chunk_size_simps [simp]:
  "chunk_size sz [] = 0" "chunk_size sz (x # xs) = int (sz x) + 5 + chunk_size sz xs"
  "chunk_size sz (xs @ ys) = chunk_size sz xs + chunk_size sz ys"
  by (simp_all add: chunk_size_def)

lemma chunk_size_pos: "xs \<noteq> [] \<Longrightarrow> 0 < chunk_size sz xs"
proof -
  have "0 \<le> chunk_size sz ys" for ys by (induction ys) auto
  then show "xs \<noteq> [] \<Longrightarrow> ?thesis" by (cases xs) (auto simp: add_pos_nonneg)
qed

text \<open>What a list of chunks has to satisfy to carry the objects \<open>os\<close>, numbered from \<open>i\<close>.\<close>

definition good_chunks :: "(PbUnityGameObject \<Rightarrow> nat) \<Rightarrow> u32 \<Rightarrow> PbUnityGameObject list \<Rightarrow> (u32 \<times> bool \<times> PbUnityGameObject list) list \<Rightarrow> bool" where
  "good_chunks sz i os ch \<longleftrightarrow>
     ch \<noteq> [] \<and> concat (map (snd \<circ> snd) ch) = os \<and> map fst ch = map (\<lambda>j. i + of_nat j) [0..<length ch] \<and>
     map (fst \<circ> snd) ch = replicate (length ch - 1) False @ [True] \<and>
     (\<forall>x\<in>set ch. 2 \<le> length (snd (snd x)) \<longrightarrow> chunk_size sz (snd (snd x)) \<le> SAFE_PAYLOAD_LIMIT)"

lemma good_chunks_Cons:
  assumes "good_chunks sz (i + 1) os ch" "2 \<le> length c \<longrightarrow> chunk_size sz c \<le> SAFE_PAYLOAD_LIMIT"
  shows "good_chunks sz i (c @ os) ((i, False, c) # ch)"
proof -
  have "map (\<lambda>j. i + of_nat j) [0..<Suc (length ch)] = i # map (\<lambda>j. i + 1 + of_nat j) [0..<length ch]"
    by (simp add: upt_conv_Cons map_Suc_upt [symmetric] add.assoc del: upt_Suc)
  moreover obtain n where "length ch = Suc n" using assms(1) by (cases ch) (auto simp: good_chunks_def)
  ultimately show ?thesis using assms by (auto simp: good_chunks_def simp del: upt_Suc)
qed

lemma chunk_loop_good:
  assumes "cur \<noteq> [] \<or> os \<noteq> []" "2 \<le> length cur \<longrightarrow> chunk_size sz cur \<le> SAFE_PAYLOAD_LIMIT"
  shows "\<exists>ch. chunk_loop sz os cur (chunk_size sz cur) i out = out @ ch \<and> good_chunks sz i (cur @ os) ch"
  using assms
proof (induction os arbitrary: cur i out)
  case Nil
  then have "0 < chunk_size sz cur" by (simp add: chunk_size_pos)
  then show ?case using Nil by (intro exI [of _ "[(i, True, cur)]"]) (simp add: good_chunks_def)
next
  case (Cons x os)
  show ?case
  proof (cases "chunk_size sz cur + (int (sz x) + 5) > SAFE_PAYLOAD_LIMIT")
    case True
    obtain ch where ch: "chunk_loop sz os [x] (chunk_size sz [x]) (i + 1) (out @ [(i, False, cur)]) = (out @ [(i, False, cur)]) @ ch"
      "good_chunks sz (i + 1) ([x] @ os) ch" using Cons.IH [of "[x]" "i + 1" "out @ [(i, False, cur)]"] by auto
    from good_chunks_Cons [OF ch(2) Cons.prems(2)] ch(1) True show ?thesis
      by (intro exI [of _ "(i, False, cur) # ch"]) (simp add: Let_def)
  next
    case False
    obtain ch where "chunk_loop sz os (cur @ [x]) (chunk_size sz (cur @ [x])) i out = out @ ch"
      "good_chunks sz i ((cur @ [x]) @ os) ch" using Cons.IH [of "cur @ [x]" i out] False by auto
    then show ?thesis using False by (intro exI [of _ ch]) (simp add: Let_def)
  qed
qed

text \<open>
  (functional) The packets a client gets for the static or dynamic objects of a room carry
  every object exactly once and in order, are numbered consecutively from zero, only the last
  one is marked as last, and a packet with more than one object stays within the payload limit.
\<close>

theorem object_chunks_complete: "good_chunks sz 0 os (fill_chunks sz os)"
proof (cases "os = []")
  case True
  then show ?thesis by (simp add: fill_chunks_def good_chunks_def)
next
  case False
  then show ?thesis using chunk_loop_good [of "[]" os sz 0 "[]"] by (auto simp: fill_chunks_def)
qed

section \<open>Broadcasts\<close>

definition carries :: "D2CMsg \<Rightarrow> Effect \<Rightarrow> sockaddr_in \<Rightarrow> bool" where
  "carries msg ef a \<longleftrightarrow> (\<exists>b. ef = EffUdp b a \<and> sb_msg b = msg)"

lemma carries_udp [simp]: "carries msg (EffUdp b a) a' \<longleftrightarrow> a' = a \<and> sb_msg b = msg"
  by (auto simp: carries_def)

lemma send_to_other: "k \<noteq> sid \<Longrightarrow> GetPlayerSession (send_to e sid msg r) k = GetPlayerSession r k"
  by (auto simp: send_to_def Let_def case_prod_beta' read_clock_def emit_def mod_session_def GetPlayerSession_def hm_find_mod
      split: option.split)

lemma send_to_effect:
  assumes "GetPlayerSession r sid = Some s" "\<not> oversized e msg"
  shows "\<exists>b. gr_outbox (send_to e sid msg r) = gr_outbox r @ [EffUdp b (ps_clientAddr s)] \<and> sb_msg b = msg"
proof -
  have "sb_msg (snd (MakeD2CPacketImpl e now msg s)) = msg" for now
    by (simp add: MakeD2CPacketImpl_def Let_def case_prod_beta')
  then show ?thesis using assms by (auto simp: send_to_def Let_def case_prod_beta' read_clock_def emit_def mod_session_def)
qed

lemma broadcast_fold:
  assumes "\<not> oversized e msg" "distinct ks" "\<forall>k\<in>set ks. GetPlayerSession r k \<noteq> None"
  shows "\<exists>es. gr_outbox (fold (\<lambda>sid r'. case GetPlayerSession r' sid of
                      Some s \<Rightarrow> if CanReceiveBroadcast s \<and> sid \<noteq> x then send_to e sid msg r' else r'
                    | None \<Rightarrow> r') ks r) = gr_outbox r @ es \<and>
    list_all2 (carries msg) es (map (\<lambda>k. ps_clientAddr (the (GetPlayerSession r k)))
      (filter (\<lambda>k. CanReceiveBroadcast (the (GetPlayerSession r k)) \<and> k \<noteq> x) ks))"
  using assms(2,3)
proof (induction ks arbitrary: r)
  case (Cons k ks)
  let ?f = "\<lambda>sid r'. case GetPlayerSession r' sid of
                      Some s \<Rightarrow> if CanReceiveBroadcast s \<and> sid \<noteq> x then send_to e sid msg r' else r' | None \<Rightarrow> r'"
  obtain s where s: "GetPlayerSession r k = Some s" using Cons.prems(2) by auto
  have same: "GetPlayerSession (?f k r) j = GetPlayerSession r j" if "j \<in> set ks" for j
    using that Cons.prems(1) s send_to_other [of j k e msg r] by auto
  have eq: "map (\<lambda>j. ps_clientAddr (the (GetPlayerSession (?f k r) j)))
      (filter (\<lambda>j. CanReceiveBroadcast (the (GetPlayerSession (?f k r) j)) \<and> j \<noteq> x) ks) =
    map (\<lambda>j. ps_clientAddr (the (GetPlayerSession r j))) (filter (\<lambda>j. CanReceiveBroadcast (the (GetPlayerSession r j)) \<and> j \<noteq> x) ks)"
    by (rule map_cong [OF filter_cong [OF refl]]) (simp_all only: same set_filter mem_Collect_eq)
  have "\<forall>j\<in>set ks. GetPlayerSession (?f k r) j \<noteq> None" using same Cons.prems(2) by simp
  then obtain es where es: "gr_outbox (fold ?f ks (?f k r)) = gr_outbox (?f k r) @ es"
    "list_all2 (carries msg) es (map (\<lambda>k. ps_clientAddr (the (GetPlayerSession r k)))
      (filter (\<lambda>k. CanReceiveBroadcast (the (GetPlayerSession r k)) \<and> k \<noteq> x) ks))"
    using Cons.IH [of "?f k r"] Cons.prems(1) unfolding eq by auto
  show ?case
  proof (cases "CanReceiveBroadcast s \<and> k \<noteq> x")
    case True
    obtain b where "gr_outbox (send_to e k msg r) = gr_outbox r @ [EffUdp b (ps_clientAddr s)]" "sb_msg b = msg"
      using send_to_effect [OF s assms(1)] by blast
    then show ?thesis using es True s by (intro exI [of _ "EffUdp b (ps_clientAddr s) # es"]) simp
  next
    case False
    then show ?thesis using es s by (intro exI [of _ es]) auto
  qed
qed simp

text \<open>
  (functional) A broadcast sends the message exactly once to every session that is in play or
  spectating, except the excluded one, to the address of that session and in table order, and
  nothing else.
\<close>

theorem broadcast_reaches_exactly:
  assumes "room_ok r" "\<not> oversized e msg"
  shows "\<exists>es. gr_outbox (BroadcastExcept e msg x r) = gr_outbox r @ es \<and>
    list_all2 (carries msg) es (map (ps_clientAddr \<circ> snd)
      (filter (\<lambda>(sid, s). CanReceiveBroadcast s \<and> sid \<noteq> x) (gr_playerSessions r)))"
proof -
  let ?m = "gr_playerSessions r"
  have h: "hm_ok ?m" using assms(1) by (simp add: room_ok_def room_hm_ok_def)
  have g: "the (GetPlayerSession r (fst a)) = snd a" if "a \<in> set ?m" for a
    using that hm_find_iff [OF h, of "fst a" "snd a"] by (simp add: GetPlayerSession_def)
  have "map (\<lambda>k. ps_clientAddr (the (GetPlayerSession r k)))
      (filter (\<lambda>k. CanReceiveBroadcast (the (GetPlayerSession r k)) \<and> k \<noteq> x) (hm_keys ?m)) =
    map (ps_clientAddr \<circ> snd) (filter (\<lambda>(sid, s). CanReceiveBroadcast s \<and> sid \<noteq> x) ?m)"
    using g by (simp add: hm_keys_def filter_map o_def case_prod_beta' cong: filter_cong)
  moreover have "\<forall>k\<in>set (hm_keys ?m). GetPlayerSession r k \<noteq> None" by (simp add: GetPlayerSession_def hm_find_None)
  ultimately show ?thesis using broadcast_fold [OF assms(2), of "hm_keys ?m" r x] h
    by (simp add: BroadcastExcept_def hm_ok_def)
qed

theorem broadcast_reaches_exactly_witness:
  "\<exists>ef. gr_outbox (BroadcastExcept ex_env D_HeartBeat 5 ex_room) = [ef] \<and> carries D_HeartBeat ef \<lparr>sin_family = 0, sin_port = 0, sin_addr = 0\<rparr>"
proof -
  have o: "\<not> oversized ex_env D_HeartBeat" by code_simp
  have f: "map (ps_clientAddr \<circ> snd) (filter (\<lambda>(sid, s). CanReceiveBroadcast s \<and> sid \<noteq> 5) (gr_playerSessions ex_room)) =
      [\<lparr>sin_family = 0, sin_port = 0, sin_addr = 0\<rparr>]" by code_simp
  have "gr_outbox ex_room = []" by (simp add: ex_room_def RegisterPlayerSession_def MakeGameRoom_def)
  with broadcast_reaches_exactly [OF ex_room_ok o, of 5] show ?thesis unfolding f by (auto simp: list_all2_Cons2)
qed

section \<open>Firing\<close>

text \<open>A property of the session that neither sending nor the hit changes.\<close>

lemma notify_hit_sess:
  assumes "\<And>s s'. core s' = core s \<Longrightarrow> P s' = P s" "\<And>s q. P (s\<lparr>ps_leaveNotifyRSeq := q\<rparr>) = P s"
  shows "sess_at P sid (notify_hit e hit c a r) = sess_at P sid r"
proof -
  have m: "sess_at P sid (mod_session k (\<lambda>s. s\<lparr>ps_leaveNotifyRSeq := ps_sendRSeq s\<rparr>) r') = sess_at P sid r'" for k r'
    by (auto simp: sess_at_def GetPlayerSession_mod assms(2))
  show ?thesis
    by (simp add: notify_hit_def send_health_def Let_def m sess_at_quiet [OF send_to_quiet assms(1)] split: option.split)
qed

lemma sess_at_objects [simp]: "sess_at P sid (mod_npc oid nf r) = sess_at P sid r" "sess_at P sid (mod_player oid pf r) = sess_at P sid r"
  by (simp_all add: sess_at_def GetPlayerSession_def mod_npc_def mod_nonplayer_def mod_player_def)

lemma fire_hit_sess:
  assumes "\<And>s s'. core s' = core s \<Longrightarrow> P s' = P s" "\<And>s q. P (s\<lparr>ps_leaveNotifyRSeq := q\<rparr>) = P s"
  shows "sess_at P sid (fire_hit e k w hit r) = sess_at P sid r"
  by (simp add: fire_hit_def Let_def case_prod_beta' notify_hit_sess [OF assms] DestroyDeadObject_def
      sess_at_quiet [OF Broadcast_quiet assms(1)] sess_at_quiet [OF NotifyNpcAuthority_quiet assms(1)] split: option.split)

lemma fire_accepted:
  assumes s: "GetPlayerSession r sid = Some s" and h: "Handle_C2D_RequestWeaponFire e sid fs w hp hit r = (r', True)"
  obtains p where "FindPlayerObject r (to_u32 (ps_objectId s)) = Some p" "GetCurrentWeaponId p = w"
    "0 < quantity (magazine_of (isUsingPrimary p) (ps_inventory s))"
    "sess_at (\<lambda>x. p_fireSequence (ps_player x) = fs + 1 \<and> ps_inventory x = set_magazine (isUsingPrimary p)
      (take_from 1 (magazine_of (isUsingPrimary p) (ps_inventory s))) (ps_inventory s)) sid r'"
proof -
  let ?r1 = "mod_session sid (SetNextFireSequence (fs + 1)) r"
  have F: "FindPlayerObject ?r1 oid = FindPlayerObject r oid" for oid by (simp add: FindPlayerObject_def mod_session_def)
  obtain p where p: "FindPlayerObject r (to_u32 (ps_objectId s)) = Some p" "GetCurrentWeaponId p = w"
    "0 < quantity (magazine_of (isUsingPrimary p) (ps_inventory s))"
    and r': "r' = BroadcastExcept e (D_BroadcastWeaponFire (to_u32 (ps_objectId s)) hp) sid
      (let r2 = mod_session sid (set_inventory (set_magazine (isUsingPrimary p)
          (take_from 1 (magazine_of (isUsingPrimary p) (ps_inventory s))) (ps_inventory s))) ?r1
       in if hit \<noteq> 0xFFFFFFFF then fire_hit e (ps_objectId s) w hit r2 else r2)"
    using h s F by (auto simp: Handle_C2D_RequestWeaponFire_def on_player_def on_active_def Let_def split: if_splits option.splits)
  define iv where "iv = set_magazine (isUsingPrimary p) (take_from 1 (magazine_of (isUsingPrimary p) (ps_inventory s))) (ps_inventory s)"
  define P where "P x \<longleftrightarrow> p_fireSequence (ps_player x) = fs + 1 \<and> ps_inventory x = iv" for x
  have C: "core s1 = core s2 \<Longrightarrow> P s1 = P s2" for s1 s2 by (drule core_fields(1)) (simp add: P_def)
  have N: "P (x\<lparr>ps_leaveNotifyRSeq := q\<rparr>) = P x" for x q by (simp add: P_def)
  have "sess_at P sid (mod_session sid (set_inventory iv) ?r1)"
    using s by (simp add: sess_at_def GetPlayerSession_mod set_inventory_def SetNextFireSequence_def P_def)
  moreover have "sess_at P sid (BroadcastExcept e m sid x) = sess_at P sid x"
    "sess_at P sid (fire_hit e (ps_objectId s) w hit x) = sess_at P sid x" for m x
    by (rule sess_at_quiet [OF BroadcastExcept_quiet C], assumption) (rule fire_hit_sess [OF C N], assumption)
  ultimately have "sess_at P sid r'" unfolding r' iv_def [symmetric] Let_def by simp
  then show thesis using p that [of p] by (simp add: sess_at_def P_def iv_def)
qed

text \<open>
  C25. (functional) A shot that the server accepts costs exactly one round: the magazine of the
  weapon in use had a round, the shooter carries one less of that ammunition and as much of
  everything else, and the fire sequence moves past the accepted number.
\<close>

theorem accepted_shot_costs_one_round:
  assumes ok: "room_ok r" and s: "GetPlayerSession r sid = Some s"
    and h: "Handle_C2D_RequestWeaponFire e sid fs w hp hit r = (r', True)" and b: "b \<noteq> 0"
  shows "\<exists>p. FindPlayerObject r (to_u32 (ps_objectId s)) = Some p \<and> GetCurrentWeaponId p = w \<and>
    0 < quantity (magazine_of (isUsingPrimary p) (ps_inventory s)) \<and>
    sess_at (\<lambda>x. p_fireSequence (ps_player x) = fs + 1 \<and> carried b (ps_inventory x) =
      carried b (ps_inventory s) - (if b = bp (magazine_of (isUsingPrimary p) (ps_inventory s)) then 1 else 0)) sid r'"
proof -
  obtain p where p: "FindPlayerObject r (to_u32 (ps_objectId s)) = Some p" "GetCurrentWeaponId p = w"
    "0 < quantity (magazine_of (isUsingPrimary p) (ps_inventory s))"
    "sess_at (\<lambda>x. p_fireSequence (ps_player x) = fs + 1 \<and> ps_inventory x = set_magazine (isUsingPrimary p)
      (take_from 1 (magazine_of (isUsingPrimary p) (ps_inventory s))) (ps_inventory s)) sid r'"
    by (rule fire_accepted [OF s h])
  let ?mag = "magazine_of (isUsingPrimary p) (ps_inventory s)"
  have "inv_ok (ps_inventory s)" using room_okD(2) [OF ok s] by (simp add: session_ok_def)
  then have "slot_ok ?mag" by (auto simp: inv_ok_def inv_core_def mag_ok_def)
  then have "qty_of b (take_from 1 ?mag) = qty_of b ?mag - (if b = bp ?mag then 1 else 0)"
    using take_from_simps(3) [of ?mag 1 b] p(3) b by auto
  then show ?thesis using p by (intro exI [of _ p]) (auto simp: sess_at_def total_set_magazine)
qed

definition ex_fire_room :: GameRoom where
  "ex_fire_room = ex_room\<lparr>gr_playerSessions := [(1, (SetObjectId 0 ex_player_session))]\<rparr>"

lemma ex_fire_room_ok: "room_ok ex_fire_room" "GetPlayerSession ex_fire_room 1 = Some (SetObjectId 0 ex_player_session)"
  using ex_room_ok ex_sessions_ok(2)
  by (simp_all add: ex_fire_room_def room_ok_def room_hm_ok_def hm_all_iff hm_ok_def hm_keys_def GetPlayerSession_def hm_find_def)

lemma ex_shot: "snd (Handle_C2D_RequestWeaponFire ex_env 1 0 1 None 0xFFFFFFFF ex_fire_room) = True"
  by code_simp

theorem accepted_shot_costs_one_round_witness:
  "\<exists>p. FindPlayerObject ex_fire_room 0 = Some p \<and> GetCurrentWeaponId p = 1"
proof -
  obtain r' where h: "Handle_C2D_RequestWeaponFire ex_env 1 0 1 None 0xFFFFFFFF ex_fire_room = (r', True)"
    using ex_shot by (metis prod.collapse)
  have "to_u32 (ps_objectId (SetObjectId 0 ex_player_session)) = 0" by (simp add: SetObjectId_def to_u32_def)
  with accepted_shot_costs_one_round [OF ex_fire_room_ok h, of 6] show ?thesis by auto
qed

text \<open>
  (error) A shot with a fire sequence number that was already used is refused and changes
  nothing at all, so a duplicated or replayed shot neither costs ammunition nor does damage.
\<close>

theorem replayed_shot_refused:
  assumes "Handle_C2D_RequestWeaponFire e sid fs w hp hit r = (r', True)"
  shows "Handle_C2D_RequestWeaponFire e sid fs w' hp' hit' r' = (r', False)"
proof -
  obtain s where s: "GetPlayerSession r sid = Some s"
    using assms by (auto simp: Handle_C2D_RequestWeaponFire_def guard_defs split: option.splits)
  have q: "sess_at (\<lambda>x. p_fireSequence (ps_player x) = fs + 1) sid r'"
    by (rule fire_accepted [OF s assms]) (auto simp: sess_at_def)
  have "sint (fs - (fs + 1)) < 0" by simp
  then show ?thesis using q
    by (auto simp: Handle_C2D_RequestWeaponFire_def guard_defs sess_at_def split: option.split)
qed

theorem replayed_shot_refused_witness:
  "\<exists>r'. Handle_C2D_RequestWeaponFire ex_env 1 0 1 None 0xFFFFFFFF ex_fire_room = (r', True) \<and>
     Handle_C2D_RequestWeaponFire ex_env 1 0 1 None 0xFFFFFFFF r' = (r', False)"
proof -
  obtain r' where h: "Handle_C2D_RequestWeaponFire ex_env 1 0 1 None 0xFFFFFFFF ex_fire_room = (r', True)"
    using ex_shot by (metis prod.collapse)
  from replayed_shot_refused [OF h] h show ?thesis by blast
qed

section \<open>Refused interactions\<close>

text \<open>
  (error) A container interaction that is refused changes no slot, no version and no session:
  the client only gets a denial, and when the session is not active not even that.
\<close>

theorem refused_interaction_changes_nothing:
  assumes "Handle_C2D_RequestInteractContainerObject e sid q r = (r', False)"
  shows "quiet r r' \<and> (r' = r \<or> (\<exists>s d. GetPlayerSession r sid = Some s \<and> interact_result r s q = Inl d \<and>
    r' = send_to e sid (D_InteractDeny d) r))"
  using assms send_to_quiet
  by (auto simp: Handle_C2D_RequestInteractContainerObject_def on_active_def Let_def split: option.splits if_splits sum.splits)

theorem refused_interaction_changes_nothing_witness:
  "let q = \<lparr>ii_interact_type = 0, ii_start_object_id = 5, ii_start_version = 0, ii_start_slot_idx = 0, ii_quantity = 1,
      ii_end_object_id = 5, ii_end_version = 0, ii_end_slot_idx = 1\<rparr>
   in quiet ex_fire_room (fst (Handle_C2D_RequestInteractContainerObject ex_env 1 q ex_fire_room))"
proof -
  let ?q = "\<lparr>ii_interact_type = 0, ii_start_object_id = 5, ii_start_version = 0, ii_start_slot_idx = 0, ii_quantity = 1,
      ii_end_object_id = 5, ii_end_version = 0, ii_end_slot_idx = 1\<rparr>"
  have "snd (Handle_C2D_RequestInteractContainerObject ex_env 1 ?q ex_fire_room) = False" by code_simp
  then obtain r' where "Handle_C2D_RequestInteractContainerObject ex_env 1 ?q ex_fire_room = (r', False)"
    by (metis prod.collapse)
  from refused_interaction_changes_nothing [OF this] this show ?thesis by simp
qed

end
