(* ===== verification/DediServer.thy ===== *)
theory DediServer
  imports RoomRun
begin

text \<open>
  \<open>src/DedicateProcess/DediServerService.h\<close> and \<open>DediServerService.cpp\<close>: the table of
  sessions, the rooms, the entry tokens and the periodic work of the dedicated process. A
  \<open>PlayerSession*\<close> of the source is the pair of the session id and the room that owns the
  session; \<open>ds_players\<close> has the room of each session slot. What the process sends is
  appended to \<open>ds_out\<close>. The sockets are not modelled.
\<close>

section \<open>State\<close>

record D2MUpdateEntryToken =
  ut_size :: i32
  ut_port :: i32
  ut_ticket_ids :: "string list"
  ut_session_ids :: "i32 list"
  ut_entry_tokens :: "string list"
  ut_security_keys :: "i32 list"

datatype DediOut =
  OutRoom Effect
| OutEntryToken D2MUpdateEntryToken
| OutRoomDestroyed i32 i32

record DediServerService =
  ds_udpPort :: u16
  ds_gameRooms :: "(i32, GameRoom) hmap"
  ds_players :: "i32 option list"
  ds_tokenToPlayerSession :: "(string, i32) hmap"
  ds_retransmitPhase :: nat
  ds_lastRetransmitTime :: int
  ds_updatePhase :: int
  ds_lastRoomUpdateTime :: int
  ds_freePlayerIds :: "i32 list"
  ds_pendingDestroyRooms :: "i32 list"
  ds_lastRoomDestroyTime :: int
  ds_roomId :: i32
  ds_reads :: nat
  ds_draws :: nat
  ds_out :: "DediOut list"

definition MakeDediServerService :: "u16 \<Rightarrow> int \<Rightarrow> DediServerService" where
  "MakeDediServerService port now =
     \<lparr>ds_udpPort = port, ds_gameRooms = [], ds_players = replicate 51 None, ds_tokenToPlayerSession = [],
      ds_retransmitPhase = 0, ds_lastRetransmitTime = now, ds_updatePhase = 0, ds_lastRoomUpdateTime = now,
      ds_freePlayerIds = map int [0..<50], ds_pendingDestroyRooms = [], ds_lastRoomDestroyTime = now,
      ds_roomId = 0, ds_reads = 0, ds_draws = 0, ds_out = []\<rparr>"

definition ds_clock :: "env \<Rightarrow> DediServerService \<Rightarrow> int \<times> DediServerService" where
  "ds_clock e d = (e_clock e (ds_reads d), d\<lparr>ds_reads := Suc (ds_reads d)\<rparr>)"

definition ReserveRoomDestroy :: "i32 \<Rightarrow> DediServerService \<Rightarrow> DediServerService" where
  "ReserveRoomDestroy roomId d = d\<lparr>ds_pendingDestroyRooms := ds_pendingDestroyRooms d @ [roomId]\<rparr>"

definition reserve_all :: "Effect list \<Rightarrow> DediServerService \<Rightarrow> DediServerService" where
  "reserve_all es d = fold (\<lambda>ef d'. case ef of EffReserveRoomDestroy i \<Rightarrow> ReserveRoomDestroy i d' | _ \<Rightarrow> d') es d"

text \<open>
  An operation of a room inside the process: the room reads the clock of the process, and what
  it emitted is carried out.
\<close>

definition on_room :: "i32 \<Rightarrow> (GameRoom \<Rightarrow> GameRoom) \<Rightarrow> DediServerService \<Rightarrow> DediServerService" where
  "on_room rid f d =
     (case hm_find (ds_gameRooms d) rid of None \<Rightarrow> d
      | Some r \<Rightarrow>
          let r' = f (r\<lparr>gr_reads := ds_reads d, gr_outbox := []\<rparr>)
          in reserve_all (gr_outbox r')
               (d\<lparr>ds_gameRooms := hm_mod rid (\<lambda>_. r') (ds_gameRooms d), ds_reads := gr_reads r',
                  ds_out := ds_out d @ map OutRoom (gr_outbox r')\<rparr>))"

section \<open>Sessions and tokens\<close>

definition GetFreeSessionId :: "DediServerService \<Rightarrow> i32 \<times> DediServerService" where
  "GetFreeSessionId d =
     (case ds_freePlayerIds d of
        i # is \<Rightarrow> (i, d\<lparr>ds_freePlayerIds := is\<rparr>)
      | [] \<Rightarrow> (int (length (ds_players d)), d\<lparr>ds_players := ds_players d @ [None]\<rparr>))"

text \<open>\<open>GetPlayerSession(int16_t)\<close>: a negative id compares as a huge \<open>size_t\<close>.\<close>

definition FindPlayer :: "DediServerService \<Rightarrow> 16 word \<Rightarrow> (i32 \<times> i32) option" where
  "FindPlayer d w =
     (let i = sint w in
      if i < 0 \<or> int (length (ds_players d)) \<le> i then None
      else map_option (\<lambda>rid. (i, rid)) (ds_players d ! nat i))"

definition alphanum :: string where
  "alphanum = ''0123456789ABCDEFGHIJKLMNOPQRSTUVWXYZabcdefghijklmnopqrstuvwxyz''"

text \<open>The token built from sixteen draws starting with draw \<open>n\<close>.\<close>

definition token_at :: "rng \<Rightarrow> nat \<Rightarrow> string" where
  "token_at rng n = ''token_'' @ map (\<lambda>i. alphanum ! nat (rng (n + i) 0 61)) [0..<16]"

text \<open>The loop of \<open>GetUniqueToken\<close>: it draws tokens until one is unused.\<close>

partial_function (option) GetUniqueToken :: "rng \<Rightarrow> (string, i32) hmap \<Rightarrow> nat \<Rightarrow> (string \<times> nat) option" where
  "GetUniqueToken rng m n =
     (let t = token_at rng n in
      if hm_find m t = None then Some (t, n + 16) else GetUniqueToken rng m (n + 16))"

declare GetUniqueToken.simps [code]

section \<open>Making rooms\<close>

record PlayerInfo =
  pi_ticket_id :: string
  pi_uid :: i32
  pi_user_id :: string
  pi_rating :: i32
  pi_inventory_items :: "IpcItemSlot list"
  pi_equipment_items :: "IpcItemSlot list"
  pi_character_type :: i32

definition slot_of_ipc :: "IpcItemSlot \<Rightarrow> Slot" where
  "slot_of_ipc s = \<lparr>slot_item = Item_default\<lparr>blueprintId := is_item_id s\<rparr>, slotIndex = is_slot_index s, quantity = is_quantity s\<rparr>"

definition MakeD2MUpdateEntryTokenPkt :: "i32 \<Rightarrow> string list \<Rightarrow> i32 list \<Rightarrow> string list \<Rightarrow> i32 list \<Rightarrow> D2MUpdateEntryToken" where
  "MakeD2MUpdateEntryTokenPkt port tickets sids tokens keys =
     (if length tickets = length sids \<and> length sids = length tokens \<and> length tokens = length keys
      then \<lparr>ut_size = int (length tickets), ut_port = port, ut_ticket_ids = tickets, ut_session_ids = sids,
            ut_entry_tokens = tokens, ut_security_keys = keys\<rparr>
      else \<lparr>ut_size = - 1, ut_port = 0, ut_ticket_ids = [], ut_session_ids = [], ut_entry_tokens = [], ut_security_keys = []\<rparr>)"

text \<open>
  One iteration of the loop over the players: token, session id, session (the constructor
  draws the security key), registration in the room and in the tables of the process.
\<close>

definition make_session ::
  "rng \<Rightarrow> i32 \<Rightarrow> PlayerInfo \<Rightarrow> DediServerService \<times> GameRoom \<Rightarrow> (DediServerService \<times> GameRoom \<times> PlayerSession) option" where
  "make_session rng roomId info st =
     (let (d, r) = st in
      case GetUniqueToken rng (ds_tokenToPlayerSession d) (ds_draws d) of None \<Rightarrow> None
      | Some (tok, n) \<Rightarrow>
          let (sid, d1) = GetFreeSessionId d;
              s = MakePlayerSession (pi_ticket_id info) tok sid roomId (pi_uid info) (pi_user_id info) (pi_rating info)
                    (map slot_of_ipc (pi_inventory_items info)) (map slot_of_ipc (pi_equipment_items info))
                    (pi_character_type info) (word_of_int (rng n 1 2147483647))
          in Some (d1\<lparr>ds_draws := n + 1, ds_players := (ds_players d1)[nat sid := Some roomId],
                      ds_tokenToPlayerSession := hm_set (ps_entryToken s) sid (ds_tokenToPlayerSession d1)\<rparr>,
                   RegisterPlayerSession s r, s))"

fun make_sessions ::
  "rng \<Rightarrow> i32 \<Rightarrow> PlayerInfo list \<Rightarrow> DediServerService \<times> GameRoom \<Rightarrow> (DediServerService \<times> GameRoom \<times> PlayerSession list) option" where
  "make_sessions rng roomId [] st = Some (fst st, snd st, [])"
| "make_sessions rng roomId (i # is) st =
     (case make_session rng roomId i st of None \<Rightarrow> None
      | Some (d, r, s) \<Rightarrow> map_option (\<lambda>(d', r', ss). (d', r', s # ss)) (make_sessions rng roomId is (d, r)))"

text \<open>The room of the map id, if there is one.\<close>

definition new_room :: "env \<Rightarrow> rng \<Rightarrow> i32 \<Rightarrow> i32 \<Rightarrow> DediServerService \<Rightarrow> (DediServerService \<times> GameRoom) option" where
  "new_room e rng mapId roomId d =
     (let (now, d1) = ds_clock e d in
      if mapId = MAP_TUTORIAL then Some (d1, MakeTestGameRoom e roomId now)
      else if mapId = MAP_TENERIFE then
        (let (n, r) = MakeTenerifeGameRoom e rng roomId now (ds_draws d1) in Some (d1\<lparr>ds_draws := n\<rparr>, r))
      else None)"

text \<open>\<open>None\<close> stands for not returning (the token loop).\<close>

definition MakeRoomForThisGroup :: "env \<Rightarrow> rng \<Rightarrow> i32 \<Rightarrow> PlayerInfo list \<Rightarrow> DediServerService \<Rightarrow> (DediServerService \<times> bool) option" where
  "MakeRoomForThisGroup e rng mapId infos d =
     (let roomId = ds_roomId d + 1; d0 = d\<lparr>ds_roomId := roomId\<rparr> in
      case new_room e rng mapId roomId d0 of None \<Rightarrow> Some (d0, False)
      | Some (d1, r) \<Rightarrow>
          (case make_sessions rng roomId infos (d1, r) of None \<Rightarrow> None
           | Some (d2, r2, ss) \<Rightarrow>
               Some (d2\<lparr>ds_gameRooms := hm_insert roomId r2 (ds_gameRooms d2),
                        ds_out := ds_out d2 @ [OutEntryToken (MakeD2MUpdateEntryTokenPkt (uint (ds_udpPort d2))
                          (map ps_ticket ss) (map ps_sessionId ss) (map ps_entryToken ss)
                          (map (to_i32 \<circ> ps_securityKey) ss))]\<rparr>, True)))"

definition Handle_H2M2D_BCITSpkt :: "env \<Rightarrow> string \<Rightarrow> string \<Rightarrow> DediServerService \<Rightarrow> DediServerService \<times> bool" where
  "Handle_H2M2D_BCITSpkt e token ip d =
     (case hm_find (ds_tokenToPlayerSession d) token of None \<Rightarrow> (d, False)
      | Some sid \<Rightarrow>
          let d1 = (case ds_players d ! nat sid of None \<Rightarrow> d
                    | Some rid \<Rightarrow> d\<lparr>ds_gameRooms := hm_mod rid (mod_session sid (SetIp e ip)) (ds_gameRooms d)\<rparr>)
          in (d1\<lparr>ds_tokenToPlayerSession := hm_erase token (ds_tokenToPlayerSession d)\<rparr>, True))"

section \<open>Packets and timers\<close>

definition HandleClientPacket :: "env \<Rightarrow> u8 list \<Rightarrow> sockaddr_in \<Rightarrow> DediServerService \<Rightarrow> DediServerService" where
  "HandleClientPacket e bytes addr d =
     (if length bytes < HEADER_SIZE then d
      else if PKT_ID_MAX \<le> h_packetId (parse_header bytes) then d
      else case FindPlayer d (h_sessionId (parse_header bytes)) of None \<Rightarrow> d
        | Some (sid, rid) \<Rightarrow> on_room rid (\<lambda>r. fst (receive_packet e sid bytes addr r)) d)"

text \<open>The callback of a recall timer.\<close>

definition FireRecallTimer :: "env \<Rightarrow> i32 \<Rightarrow> i32 \<Rightarrow> u32 \<Rightarrow> DediServerService \<Rightarrow> DediServerService" where
  "FireRecallTimer e sid uid gen d =
     (case FindPlayer d (word_of_int sid) of None \<Rightarrow> d
      | Some (sid', rid) \<Rightarrow> on_room rid (RecallTick e sid' uid gen) d)"

section \<open>Periodic work\<close>

definition elapsed_ms :: "int \<Rightarrow> int \<Rightarrow> int" where
  "elapsed_ms now before = (now - before) sdiv 1000000"

definition retransmit_session :: "u32 \<Rightarrow> nat \<Rightarrow> DediServerService \<times> bool \<Rightarrow> DediServerService \<times> bool" where
  "retransmit_session nowMs i st =
     (let d = fst st in
      case ds_players d ! i of None \<Rightarrow> st
      | Some rid \<Rightarrow>
          (case Option.bind (hm_find (ds_gameRooms d) rid) (\<lambda>r. GetPlayerSession r (int i)) of None \<Rightarrow> st
           | Some s \<Rightarrow>
               if ps_leaveState s = LS_FINALIZED then st
               else
                 let cs = GetRetransmitCandidates nowMs s
                 in (d\<lparr>ds_gameRooms := hm_mod rid (mod_session (int i) (touch_sent nowMs)) (ds_gameRooms d),
                       ds_out := ds_out d @ map (\<lambda>p. OutRoom (EffUdp (pp_data p) (pp_destAddr p))) cs\<rparr>,
                     snd st \<or> cs \<noteq> [])))"

definition CheckRetransmits :: "env \<Rightarrow> u32 \<Rightarrow> DediServerService \<Rightarrow> DediServerService \<times> bool" where
  "CheckRetransmits e nowMs d =
     (let (now, d1) = ds_clock e d in
      if elapsed_ms now (ds_lastRetransmitTime d1) < 50 then (d1, False)
      else
        let phase = ds_retransmitPhase d1;
            d2 = d1\<lparr>ds_lastRetransmitTime := now, ds_retransmitPhase := 1 - phase\<rparr>
        in fold (retransmit_session nowMs) (filter (\<lambda>i. i mod 2 = phase mod 2) [phase..<length (ds_players d2)]) (d2, False))"

definition update_room :: "env \<Rightarrow> int \<Rightarrow> i32 \<Rightarrow> DediServerService \<Rightarrow> DediServerService" where
  "update_room e phase rid d =
     (let d1 = (if rid smod 4 = phase then on_room rid (\<lambda>r. Update e (ProcessLeaves e r)) d else d)
      in if rid smod 4 = (phase + 2) mod 4 then on_room rid (UpdateNpcStates e) d1 else d1)"

definition UpdateGameRooms :: "env \<Rightarrow> DediServerService \<Rightarrow> DediServerService \<times> bool" where
  "UpdateGameRooms e d =
     (let (now, d1) = ds_clock e d in
      if elapsed_ms now (ds_lastRoomUpdateTime d1) < 25 then (d1, False)
      else
        let d2 = d1\<lparr>ds_lastRoomUpdateTime := now\<rparr>;
            d3 = fold (update_room e (ds_updatePhase d2)) (hm_keys (ds_gameRooms d2)) d2
        in (d3\<lparr>ds_updatePhase := (ds_updatePhase d3 + 1) mod 4\<rparr>, True))"

text \<open>The loop of \<open>DestroyRoom\<close> over the sessions of the room.\<close>

definition release_session :: "i32 \<times> PlayerSession \<Rightarrow> DediServerService \<Rightarrow> DediServerService" where
  "release_session x d =
     d\<lparr>ds_tokenToPlayerSession := hm_erase (ps_entryToken (snd x)) (ds_tokenToPlayerSession d),
       ds_players := (if 0 \<le> fst x \<and> fst x < int (length (ds_players d))
                      then (ds_players d)[nat (fst x) := None] else ds_players d),
       ds_freePlayerIds := ds_freePlayerIds d @ [fst x]\<rparr>"

definition DestroyRoom :: "i32 \<Rightarrow> DediServerService \<Rightarrow> DediServerService" where
  "DestroyRoom rid d =
     (case hm_find (ds_gameRooms d) rid of None \<Rightarrow> d
      | Some r \<Rightarrow>
          let d1 = d\<lparr>ds_out := ds_out d @ [OutRoomDestroyed rid (int (length (gr_playerSessions r)))]\<rparr>;
              d2 = fold release_session (gr_playerSessions r) d1
          in d2\<lparr>ds_gameRooms := hm_erase rid (ds_gameRooms d2)\<rparr>)"

definition DestroyPendingRooms :: "env \<Rightarrow> DediServerService \<Rightarrow> DediServerService \<times> bool" where
  "DestroyPendingRooms e d =
     (let (now, d1) = ds_clock e d in
      if elapsed_ms now (ds_lastRoomDestroyTime d1) < 1000 then (d1, False)
      else
        let d2 = d1\<lparr>ds_lastRoomDestroyTime := now\<rparr> in
        if ds_pendingDestroyRooms d2 = [] then (d2, False)
        else
          let d3 = fold DestroyRoom (ds_pendingDestroyRooms d2) d2
          in (d3\<lparr>ds_pendingDestroyRooms := []\<rparr>, True))"

end
