(* ===== verification/Matchmaker.thy ===== *)
theory Matchmaker
  imports Prelude
begin

text \<open>
  \<open>src/Matchmaker.h\<close>, the queueing and grouping half of \<open>src/Matchmaker.cpp\<close> and
  \<open>src/ObjectPool.h\<close>. A \<open>MatchTicket*\<close> is an address of the ticket pool, whose live
  objects are a hash map from addresses to tickets; the matchmaker holds addresses only, as
  the source does, so that the same ticket is shared by the queue, its bucket and its group.
\<close>

section \<open>Tickets and their pool\<close>

type_synonym ptr = nat

record MatchTicket =
  mt_ticketId :: string
  mt_uId :: i32
  mt_aggression :: i32
  mt_mapId :: i32
  mt_characterType :: i32
  mt_startTime :: int
  mt_isMatched :: bool
  mt_isValid :: bool

definition MakeMatchTicket :: "string \<Rightarrow> i32 \<Rightarrow> i32 \<Rightarrow> i32 \<Rightarrow> i32 \<Rightarrow> int \<Rightarrow> MatchTicket" where
  "MakeMatchTicket tid uid aggr mid cType now =
     \<lparr>mt_ticketId = tid, mt_uId = uid, mt_aggression = aggr, mt_mapId = mid, mt_characterType = cType,
      mt_startTime = now, mt_isMatched = False, mt_isValid = True\<rparr>"

text \<open>Clock readings are in nanoseconds; the count of seconds is narrowed to \<open>int32_t\<close>.\<close>

definition GetWaitTimeSeconds :: "int \<Rightarrow> MatchTicket \<Rightarrow> i32" where
  "GetWaitTimeSeconds now t = to_i32 (to_u32 ((now - mt_startTime t) sdiv 1000000000))"

type_synonym tickets = "(ptr, MatchTicket) hmap"

record TicketPool =
  tp_live :: tickets
  tp_pool :: "ptr list"
  tp_fresh :: ptr

definition nullptr :: ptr where
  "nullptr = 0"

definition Acquire :: "MatchTicket \<Rightarrow> TicketPool \<Rightarrow> ptr \<times> TicketPool" where
  "Acquire t tp =
     (if tp_pool tp = [] then
        (tp_fresh tp, tp\<lparr>tp_fresh := Suc (tp_fresh tp), tp_live := hm_set (tp_fresh tp) t (tp_live tp)\<rparr>)
      else
        (last (tp_pool tp),
         tp\<lparr>tp_pool := butlast (tp_pool tp), tp_live := hm_set (last (tp_pool tp)) t (tp_live tp)\<rparr>))"

definition Release :: "ptr \<Rightarrow> TicketPool \<Rightarrow> TicketPool" where
  "Release p tp =
     (if p = nullptr then tp
      else tp\<lparr>tp_live := hm_erase p (tp_live tp), tp_pool := tp_pool tp @ [p]\<rparr>)"

text \<open>The object a pointer leads to.\<close>

definition tk :: "tickets \<Rightarrow> ptr \<Rightarrow> MatchTicket" where
  "tk h p = the (hm_find h p)"

abbreviation aggr :: "tickets \<Rightarrow> ptr \<Rightarrow> i32" where
  "aggr h p \<equiv> mt_aggression (tk h p)"

abbreviation started :: "tickets \<Rightarrow> ptr \<Rightarrow> int" where
  "started h p \<equiv> mt_startTime (tk h p)"

abbreviation matched :: "tickets \<Rightarrow> ptr \<Rightarrow> bool" where
  "matched h p \<equiv> mt_isMatched (tk h p)"

section \<open>The matchmaker of a map\<close>

record MatchMaker =
  mm_mapId :: i32
  mm_maxAgression :: i32
  mm_ticketsToAdd :: "ptr list"
  mm_ticketsToRelease :: "ptr list"
  mm_ticketsToDelete :: "ptr list"
  mm_timeSorted :: "ptr list"
  mm_bucket :: "ptr list list"
  mm_matchedGroups :: "ptr list list"
  mm_pivotFlags :: "bool list"

definition MakeMatchMaker :: "i32 \<Rightarrow> i32 \<Rightarrow> MatchMaker" where
  "MakeMatchMaker mapId maxAgression =
     \<lparr>mm_mapId = mapId, mm_maxAgression = maxAgression, mm_ticketsToAdd = [], mm_ticketsToRelease = [],
      mm_ticketsToDelete = [], mm_timeSorted = [], mm_bucket = replicate (nat (maxAgression + 1)) [],
      mm_matchedGroups = [], mm_pivotFlags = replicate (nat (maxAgression + 1)) False\<rparr>"

definition AddSingleMatchTicket :: "ptr \<Rightarrow> MatchMaker \<Rightarrow> MatchMaker" where
  "AddSingleMatchTicket p mm = mm\<lparr>mm_ticketsToAdd := mm_ticketsToAdd mm @ [p]\<rparr>"

text \<open>
  \<open>std::merge\<close>: an element of the second range goes first only when it is strictly smaller.
  \<open>std::stable_sort\<close> is \<^term>\<open>sort_key\<close>.
\<close>

fun std_merge :: "('a \<Rightarrow> int) \<Rightarrow> 'a list \<Rightarrow> 'a list \<Rightarrow> 'a list" where
  "std_merge f [] ys = ys"
| "std_merge f xs [] = xs"
| "std_merge f (x # xs) (y # ys) =
     (if f y < f x then y # std_merge f (x # xs) ys else x # std_merge f xs (y # ys))"

text \<open>\<open>_bucket[ticket->aggression]\<close> is not range-checked: \<open>None\<close> is undefined behaviour.\<close>

fun push_buckets :: "tickets \<Rightarrow> ptr list \<Rightarrow> ptr list list \<Rightarrow> ptr list list option" where
  "push_buckets h [] b = Some b"
| "push_buckets h (p # ps) b =
     (let a = aggr h p in
      if 0 \<le> a \<and> a < int (length b) then push_buckets h ps (b[nat a := b ! nat a @ [p]]) else None)"

definition AddNewMatchTickets :: "tickets \<Rightarrow> MatchMaker \<Rightarrow> MatchMaker option" where
  "AddNewMatchTickets h mm =
     (if mm_ticketsToAdd mm = [] then Some mm
      else
        let new = sort_key (started h) (mm_ticketsToAdd mm) in
        map_option (\<lambda>b. mm\<lparr>mm_bucket := b, mm_timeSorted := std_merge (started h) (mm_timeSorted mm) new,
                          mm_ticketsToAdd := []\<rparr>)
          (push_buckets h new (mm_bucket mm)))"

section \<open>Grouping\<close>

text \<open>The allowed difference in aggression and the least size of a group, by waiting time.\<close>

definition match_rule :: "i32 \<Rightarrow> i32 \<times> i32" where
  "match_rule waitTime =
     (if 60 \<le> waitTime then (1, 1)
      else if 40 \<le> waitTime then (1, 2)
      else if 20 \<le> waitTime then (0, 3)
      else (0, 4))"

text \<open>A loop over the candidates of one bucket; the bucket of the pivot skips the pivot itself.\<close>

fun pick :: "tickets \<Rightarrow> ptr option \<Rightarrow> ptr list \<Rightarrow> ptr list \<Rightarrow> ptr list" where
  "pick h skip [] g = g"
| "pick h skip (c # cs) g =
     (if length g = 4 then g
      else if skip = Some c \<or> matched h c then pick h skip cs g
      else pick h skip cs (g @ [c]))"

text \<open>One turn of the search loop.\<close>

definition search_turn :: "tickets \<Rightarrow> ptr list list \<Rightarrow> ptr \<Rightarrow> i32 \<Rightarrow> i32 \<Rightarrow> i32 \<Rightarrow> i32 \<Rightarrow> ptr list \<Rightarrow> ptr list" where
  "search_turn h b pivot pivotAggr searchMin searchMax searchRange g =
     (if searchRange = 0 then pick h (Some pivot) (b ! nat pivotAggr) g
      else
        let uaggr = pivotAggr + searchRange;
            daggr = pivotAggr - searchRange;
            g1 = (if length g < 4 \<and> uaggr \<le> searchMax then pick h None (b ! nat uaggr) g else g)
        in if length g1 < 4 \<and> searchMin \<le> daggr then pick h None (b ! nat daggr) g1 else g1)"

function search :: "tickets \<Rightarrow> ptr list list \<Rightarrow> ptr \<Rightarrow> i32 \<Rightarrow> i32 \<Rightarrow> i32 \<Rightarrow> i32 \<Rightarrow> i32 \<Rightarrow> ptr list \<Rightarrow> ptr list" where
  "search h b pivot pivotAggr searchMin searchMax allowedDiff searchRange g =
     (if \<not> searchRange \<le> allowedDiff then g
      else
        let g1 = search_turn h b pivot pivotAggr searchMin searchMax searchRange g
        in if length g1 = 4 then g1
           else search h b pivot pivotAggr searchMin searchMax allowedDiff (searchRange + 1) g1)"
  by pat_completeness auto

termination
  by (relation "measure (\<lambda>(h, b, p, a, lo, hi, ad, sr, g). nat (ad + 1 - sr))") auto

definition find_group :: "tickets \<Rightarrow> ptr list list \<Rightarrow> i32 \<Rightarrow> ptr \<Rightarrow> i32 \<Rightarrow> ptr list" where
  "find_group h b maxAgression pivot allowedDiff =
     (let pivotAggr = aggr h pivot;
          searchMin = max 0 (pivotAggr - allowedDiff);
          searchMax = min maxAgression (pivotAggr + allowedDiff)
      in search h b pivot pivotAggr searchMin searchMax allowedDiff 0 [pivot])"

definition set_matched :: "bool \<Rightarrow> ptr list \<Rightarrow> tickets \<Rightarrow> tickets" where
  "set_matched m ps h = fold (\<lambda>p. hm_mod p (\<lambda>t. t\<lparr>mt_isMatched := m\<rparr>)) ps h"

text \<open>
  The body of the loop over the pivots, on the tickets, the groups, the flags and the number of
  clock readings.
\<close>

type_synonym pivot_state = "tickets \<times> ptr list list \<times> bool list \<times> nat"

definition try_pivot :: "(nat \<Rightarrow> int) \<Rightarrow> ptr list list \<Rightarrow> i32 \<Rightarrow> ptr \<Rightarrow> pivot_state \<Rightarrow> pivot_state" where
  "try_pivot clk b maxAgression pivot st =
     (case st of (h, gs, flags, n) \<Rightarrow>
        if matched h pivot then st
        else if flags ! nat (aggr h pivot) then st
        else
          let waitTime = GetWaitTimeSeconds (clk n) (tk h pivot);
              (allowedDiff, targetMinPlayers) = match_rule waitTime;
              g = find_group h b maxAgression pivot allowedDiff
          in if targetMinPlayers \<le> int (length g)
             then (set_matched True g h, gs @ [g], flags, Suc n)
             else (h, gs, flags[nat (aggr h pivot) := True], Suc n))"

definition FindMatchGroup :: "(nat \<Rightarrow> int) \<Rightarrow> nat \<Rightarrow> tickets \<Rightarrow> MatchMaker \<Rightarrow> tickets \<times> MatchMaker \<times> nat" where
  "FindMatchGroup clk n h mm =
     (let flags0 = replicate (length (mm_pivotFlags mm)) False;
          (h', gs, flags, n') =
            fold (try_pivot clk (mm_bucket mm) (mm_maxAgression mm)) (mm_timeSorted mm) (h, [], flags0, n)
      in (h', mm\<lparr>mm_matchedGroups := gs, mm_pivotFlags := flags\<rparr>, n'))"

declare search.simps [simp del]

section \<open>Merging and buckets\<close>

lemma mset_std_merge: "mset (std_merge f xs ys) = mset xs + mset ys"
  by (induction f xs ys rule: std_merge.induct) auto

lemma set_std_merge [simp]: "set (std_merge f xs ys) = set xs \<union> set ys"
  by (metis mset_std_merge set_mset_mset set_mset_union)

lemma distinct_std_merge [simp]:
  "distinct (std_merge f xs ys) \<longleftrightarrow> distinct xs \<and> distinct ys \<and> set xs \<inter> set ys = {}"
  using mset_eq_imp_distinct_iff [of "std_merge f xs ys" "xs @ ys"] by (simp add: mset_std_merge)

lemma sorted_std_merge:
  "sorted (map f xs) \<Longrightarrow> sorted (map f ys) \<Longrightarrow> sorted (map f (std_merge f xs ys))"
  by (induction f xs ys rule: std_merge.induct) (auto intro: order_trans less_imp_le)

text \<open>Pushing tickets whose aggression is in range succeeds and appends each to its bucket.\<close>

lemma push_buckets_Some:
  assumes "\<And>p. p \<in> set ps \<Longrightarrow> 0 \<le> aggr h p \<and> aggr h p < int (length b)"
  shows "push_buckets h ps b = Some (map (\<lambda>a. b ! a @ filter (\<lambda>p. aggr h p = int a) ps) [0..<length b])"
  using assms
proof (induction ps arbitrary: b)
  case Nil
  then show ?case by (simp add: map_nth)
next
  case (Cons p ps)
  define b' where "b' = b[nat (aggr h p) := b ! nat (aggr h p) @ [p]]"
  have p: "0 \<le> aggr h p" "aggr h p < int (length b)" using Cons.prems [of p] by simp_all
  have [simp]: "length b' = length b" by (simp add: b'_def)
  have "push_buckets h (p # ps) b = push_buckets h ps b'" using p by (simp add: b'_def Let_def)
  also have "\<dots> = Some (map (\<lambda>a. b' ! a @ filter (\<lambda>p. aggr h p = int a) ps) [0..<length b])"
    using Cons.prems by (subst Cons.IH) auto
  also have "map (\<lambda>a. b' ! a @ filter (\<lambda>p. aggr h p = int a) ps) [0..<length b] =
      map (\<lambda>a. b ! a @ filter (\<lambda>p. aggr h p = int a) (p # ps)) [0..<length b]"
    using p by (auto simp: b'_def nth_list_update nat_eq_iff)
  finally show ?case .
qed

lemma push_buckets_None:
  assumes "p \<in> set ps" "aggr h p < 0 \<or> int (length b) \<le> aggr h p"
  shows "push_buckets h ps b = None"
  using assms by (induction ps arbitrary: b) (auto simp: Let_def)

section \<open>Invariant\<close>

definition in_range :: "tickets \<Rightarrow> MatchMaker \<Rightarrow> ptr \<Rightarrow> bool" where
  "in_range h mm p \<longleftrightarrow> p \<in> set (hm_keys h) \<and> 0 \<le> aggr h p \<and> aggr h p \<le> mm_maxAgression mm"

text \<open>
  The queue is sorted by starting time and has every ticket once; the bucket of an aggression
  has the queued tickets of that aggression, each once; the new tickets are not queued yet;
  all pointers are live and the aggressions of the queued tickets index a bucket.
\<close>

definition mm_ok :: "tickets \<Rightarrow> MatchMaker \<Rightarrow> bool" where
  "mm_ok h mm \<longleftrightarrow>
     0 \<le> mm_maxAgression mm \<and>
     length (mm_bucket mm) = nat (mm_maxAgression mm + 1) \<and>
     length (mm_pivotFlags mm) = nat (mm_maxAgression mm + 1) \<and>
     distinct (mm_timeSorted mm) \<and> distinct (mm_ticketsToAdd mm) \<and>
     set (mm_timeSorted mm) \<inter> set (mm_ticketsToAdd mm) = {} \<and>
     sorted (map (started h) (mm_timeSorted mm)) \<and>
     (\<forall>p\<in>set (mm_timeSorted mm). in_range h mm p) \<and>
     set (mm_ticketsToAdd mm) \<subseteq> set (hm_keys h) \<and>
     (\<forall>a<length (mm_bucket mm). distinct (mm_bucket mm ! a) \<and>
        set (mm_bucket mm ! a) = {p\<in>set (mm_timeSorted mm). aggr h p = int a})"

lemma mm_okD:
  assumes "mm_ok h mm"
  shows "0 \<le> mm_maxAgression mm"
    "length (mm_bucket mm) = nat (mm_maxAgression mm + 1)"
    "length (mm_pivotFlags mm) = nat (mm_maxAgression mm + 1)"
    "distinct (mm_timeSorted mm)" "sorted (map (started h) (mm_timeSorted mm))"
    "p \<in> set (mm_timeSorted mm) \<Longrightarrow> p \<in> set (hm_keys h) \<and> 0 \<le> aggr h p \<and> aggr h p \<le> mm_maxAgression mm"
    "0 \<le> a \<Longrightarrow> a \<le> mm_maxAgression mm \<Longrightarrow> distinct (mm_bucket mm ! nat a)"
    "0 \<le> a \<Longrightarrow> a \<le> mm_maxAgression mm \<Longrightarrow>
       set (mm_bucket mm ! nat a) = {p\<in>set (mm_timeSorted mm). aggr h p = a}"
  using assms by (auto simp: mm_ok_def in_range_def nat_less_iff)

lemma mm_ok_new: "0 \<le> m \<Longrightarrow> mm_ok h (MakeMatchMaker i m)"
  by (simp add: mm_ok_def MakeMatchMaker_def)

lemma mm_ok_AddSingle:
  assumes "mm_ok h mm" "p \<in> set (hm_keys h)" "p \<notin> set (mm_timeSorted mm) \<union> set (mm_ticketsToAdd mm)"
  shows "mm_ok h (AddSingleMatchTicket p mm)"
  using assms by (auto simp: mm_ok_def AddSingleMatchTicket_def in_range_def)

lemma mm_ok_AddNew:
  assumes ok: "mm_ok h mm" and add: "AddNewMatchTickets h mm = Some mm'"
  shows "mm_ok h mm'" "mm_ticketsToAdd mm' = []"
    "set (mm_timeSorted mm') = set (mm_timeSorted mm) \<union> set (mm_ticketsToAdd mm)"
    "mm' = mm\<lparr>mm_bucket := mm_bucket mm', mm_timeSorted := mm_timeSorted mm', mm_ticketsToAdd := []\<rparr>"
proof -
  define new where "new = sort_key (started h) (mm_ticketsToAdd mm)"
  have new [simp]: "set new = set (mm_ticketsToAdd mm)" "distinct new = distinct (mm_ticketsToAdd mm)"
    "sorted (map (started h) new)" by (simp_all add: new_def)
  have "mm_ok h mm' \<and> mm_ticketsToAdd mm' = [] \<and>
      set (mm_timeSorted mm') = set (mm_timeSorted mm) \<union> set (mm_ticketsToAdd mm) \<and>
      mm' = mm\<lparr>mm_bucket := mm_bucket mm', mm_timeSorted := mm_timeSorted mm', mm_ticketsToAdd := []\<rparr>"
  proof (cases "mm_ticketsToAdd mm = []")
    case True
    then show ?thesis using ok add by (auto simp: AddNewMatchTickets_def)
  next
    case False
    define b where "b = map (\<lambda>a. mm_bucket mm ! a @ filter (\<lambda>p. aggr h p = int a) new) [0..<length (mm_bucket mm)]"
    have range: "0 \<le> aggr h p \<and> aggr h p < int (length (mm_bucket mm))" if "p \<in> set (mm_ticketsToAdd mm)" for p
    proof -
      have "push_buckets h new (mm_bucket mm) \<noteq> None"
        using add False by (auto simp: AddNewMatchTickets_def Let_def new_def [symmetric])
      then show ?thesis using push_buckets_None [of p new h "mm_bucket mm"] that by fastforce
    qed
    then have "push_buckets h new (mm_bucket mm) = Some b"
      unfolding b_def by (intro push_buckets_Some) simp
    with False add have mm': "mm' = mm\<lparr>mm_bucket := b, mm_timeSorted := std_merge (started h) (mm_timeSorted mm) new,
        mm_ticketsToAdd := []\<rparr>"
      by (simp add: AddNewMatchTickets_def new_def Let_def)
    moreover have "mm_ok h mm'"
      using ok range by (auto simp: mm_ok_def mm' b_def in_range_def sorted_std_merge)
    ultimately show ?thesis by simp
  qed
  then show "mm_ok h mm'" "mm_ticketsToAdd mm' = []"
    "set (mm_timeSorted mm') = set (mm_timeSorted mm) \<union> set (mm_ticketsToAdd mm)"
    "mm' = mm\<lparr>mm_bucket := mm_bucket mm', mm_timeSorted := mm_timeSorted mm', mm_ticketsToAdd := []\<rparr>"
    by blast+
qed

lemma AddNew_succeeds:
  assumes "mm_ok h mm" and "\<And>p. p \<in> set (mm_ticketsToAdd mm) \<Longrightarrow> in_range h mm p"
  shows "\<exists>mm'. AddNewMatchTickets h mm = Some mm'"
proof -
  have "push_buckets h (sort_key (started h) (mm_ticketsToAdd mm)) (mm_bucket mm) \<noteq> None"
    using assms by (subst push_buckets_Some) (auto simp: mm_ok_def in_range_def)
  then show ?thesis by (auto simp: AddNewMatchTickets_def Let_def)
qed

section \<open>The group of a pivot\<close>

text \<open>
  The reference: everybody who may join the pivot, in the order in which they are asked: the
  pivot's own bucket, the bucket above and the bucket below.
\<close>

definition unmatched_in :: "tickets \<Rightarrow> ptr list list \<Rightarrow> i32 \<Rightarrow> i32 \<Rightarrow> ptr list" where
  "unmatched_in h b m a = (if 0 \<le> a \<and> a \<le> m then filter (\<lambda>c. \<not> matched h c) (b ! nat a) else [])"

definition candidates :: "tickets \<Rightarrow> ptr list list \<Rightarrow> i32 \<Rightarrow> ptr \<Rightarrow> i32 \<Rightarrow> ptr list" where
  "candidates h b m pivot ad =
     filter (\<lambda>c. c \<noteq> pivot) (unmatched_in h b m (aggr h pivot)) @
     (if ad = 0 then [] else unmatched_in h b m (aggr h pivot + 1) @ unmatched_in h b m (aggr h pivot - 1))"

lemma pick_take:
  "length g \<le> 4 \<Longrightarrow>
   pick h skip cs g = g @ take (4 - length g) (filter (\<lambda>c. skip \<noteq> Some c \<and> \<not> matched h c) cs)"
proof (induction cs arbitrary: g)
  case (Cons c cs)
  show ?case
  proof (cases "length g = 4")
    case False
    with Cons.prems have "4 - length g = Suc (4 - Suc (length g))" by simp
    with False Cons show ?thesis by auto
  qed simp
qed simp

lemma search_stop: "allowedDiff < r \<Longrightarrow> search h b p a lo hi allowedDiff r g = g"
  by (subst search.simps) simp

lemma search_exact:
  "search h b p a lo hi 0 0 g = search_turn h b p a lo hi 0 g"
  by (subst search.simps) (simp add: search_stop Let_def)

lemma search_wider:
  "search h b p a lo hi 1 0 g =
     (let g1 = search_turn h b p a lo hi 0 g in
      if length g1 = 4 then g1 else search_turn h b p a lo hi 1 g1)"
proof -
  have "search h b p a lo hi 1 1 g' = search_turn h b p a lo hi 1 g'" for g'
    by (subst search.simps) (simp add: search_stop Let_def)
  then show ?thesis by (subst search.simps) (simp add: Let_def)
qed

lemma find_group_take:
  assumes a: "0 \<le> aggr h pivot" "aggr h pivot \<le> m" and ad: "ad = 0 \<or> ad = 1"
  shows "find_group h b m pivot ad = pivot # take 3 (candidates h b m pivot ad)"
proof -
  let ?a = "aggr h pivot"
  define own where "own = filter (\<lambda>c. c \<noteq> pivot) (unmatched_in h b m ?a)"
  define up where "up = unmatched_in h b m (?a + 1)"
  define dn where "dn = unmatched_in h b m (?a - 1)"
  have own: "pick h (Some pivot) (b ! nat ?a) [pivot] = pivot # take 3 own"
    using a by (auto simp: pick_take own_def unmatched_in_def intro!: arg_cong [where f = "take 3"] filter_cong)
  have up: "pick h None (b ! nat (?a + 1)) g = g @ take (4 - length g) up"
    if "length g \<le> 4" "?a + 1 \<le> m" for g using that a by (simp add: pick_take up_def unmatched_in_def)
  have dn: "pick h None (b ! nat (?a - 1)) g = g @ take (4 - length g) dn"
    if "length g \<le> 4" "1 \<le> ?a" for g using that a by (simp add: pick_take dn_def unmatched_in_def)
  have none: "\<not> ?a + 1 \<le> m \<Longrightarrow> up = []" "\<not> 1 \<le> ?a \<Longrightarrow> dn = []"
    by (auto simp: up_def dn_def unmatched_in_def)
  show ?thesis
  proof (cases "ad = 0")
    case True
    then show ?thesis using a
      by (simp add: find_group_def search_exact search_turn_def own candidates_def own_def [symmetric] Let_def)
  next
    case False
    with ad have [simp]: "ad = 1" by simp
    have turn: "search_turn h b pivot ?a (max 0 (?a - 1)) (min m (?a + 1)) 1 g =
        (let g1 = g @ take (4 - length g) up in g1 @ take (4 - length g1) dn)" if "length g < 4" for g
      using that none a
      by (cases "?a + 1 \<le> m"; cases "1 \<le> ?a") (simp_all add: search_turn_def up dn Let_def)
    have "find_group h b m pivot ad = pivot # take 3 (own @ up @ dn)"
      using a by (auto simp: find_group_def search_wider turn Let_def search_turn_def [where searchRange = 0] own
            intro!: arg_cong [where f = "\<lambda>k. take k dn"])
    then show ?thesis by (simp add: candidates_def own_def up_def dn_def)
  qed
qed

lemma match_rule_cases: "fst (match_rule w) = 0 \<or> fst (match_rule w) = 1"
  by (auto simp: match_rule_def)

lemma match_rule_target: "1 \<le> snd (match_rule w)" "snd (match_rule w) \<le> 4"
  by (auto simp: match_rule_def)

lemma match_rule_antimono: "v \<le> w \<Longrightarrow> fst (match_rule v) \<le> fst (match_rule w) \<and> snd (match_rule w) \<le> snd (match_rule v)"
  by (auto simp: match_rule_def)

lemma unmatched_in_set:
  assumes "mm_ok h mm"
  shows "set (unmatched_in h' (mm_bucket mm) (mm_maxAgression mm) a) =
     {p\<in>set (mm_timeSorted mm). aggr h p = a \<and> \<not> matched h' p}"
  using mm_okD(6-8) [OF assms] by (auto simp: unmatched_in_def)

lemma unmatched_in_distinct: "mm_ok h mm \<Longrightarrow> distinct (unmatched_in h' (mm_bucket mm) (mm_maxAgression mm) a)"
  by (auto simp: unmatched_in_def mm_okD(7))

section \<open>Grouping respects the rules\<close>

text \<open>
  A group that the rules allow: its first member is the pivot, who waited as long as some clock
  reading says; the group has at least the number of members the rule asks for and at most
  four, all queued, nobody grouped before, and nobody further from the pivot than allowed.
\<close>

definition rule_group :: "(nat \<Rightarrow> int) \<Rightarrow> tickets \<Rightarrow> MatchMaker \<Rightarrow> ptr list \<Rightarrow> bool" where
  "rule_group clk h mm g \<longleftrightarrow>
     g \<noteq> [] \<and> length g \<le> 4 \<and> set g \<subseteq> set (mm_timeSorted mm) \<and> (\<forall>p\<in>set g. \<not> matched h p) \<and>
     (\<exists>k. let (allowedDiff, targetMinPlayers) = match_rule (GetWaitTimeSeconds (clk k) (tk h (hd g)))
          in targetMinPlayers \<le> int (length g) \<and> (\<forall>p\<in>set g. \<bar>aggr h p - aggr h (hd g)\<bar> \<le> allowedDiff))"

text \<open>The tickets of \<open>h\<close> after the members of the groups are marked as matched.\<close>

definition mark_grouped :: "ptr list list \<Rightarrow> tickets \<Rightarrow> tickets \<Rightarrow> bool" where
  "mark_grouped gs h h' \<longleftrightarrow> hm_keys h' = hm_keys h \<and>
     (\<forall>p. hm_find h' p =
        map_option (\<lambda>t. t\<lparr>mt_isMatched := (mt_isMatched t \<or> p \<in> set (concat gs))\<rparr>) (hm_find h p))"

lemma hm_keys_set_matched [simp]: "hm_keys (set_matched m ps h) = hm_keys h"
  by (induction ps arbitrary: h) (simp_all add: set_matched_def)

lemma hm_find_set_matched:
  "hm_find (set_matched m ps h) p =
     (if p \<in> set ps then map_option (\<lambda>t. t\<lparr>mt_isMatched := m\<rparr>) (hm_find h p) else hm_find h p)"
proof (induction ps arbitrary: h)
  case (Cons q ps)
  then show ?case
    by (auto simp: set_matched_def hm_find_mod option.map_comp comp_def)
qed (simp add: set_matched_def)

lemma mark_grouped_tk:
  assumes "mark_grouped gs h h'" "p \<in> set (hm_keys h)"
  shows "tk h' p = (tk h p)\<lparr>mt_isMatched := (matched h p \<or> p \<in> set (concat gs))\<rparr>"
  using assms hm_find_None [of h p] by (auto simp: mark_grouped_def tk_def)

lemma mark_grouped_core:
  assumes "mark_grouped gs h h'" "p \<in> set (hm_keys h)"
  shows "aggr h' p = aggr h p" "started h' p = started h p"
    "matched h' p \<longleftrightarrow> matched h p \<or> p \<in> set (concat gs)"
    "GetWaitTimeSeconds now (tk h' p) = GetWaitTimeSeconds now (tk h p)"
  using mark_grouped_tk [OF assms] by (simp_all add: GetWaitTimeSeconds_def)

lemma mark_grouped_Nil: "mark_grouped [] h h"
  by (auto simp: mark_grouped_def option.map_ident map_option_cong intro!: option.map_ident [symmetric])

lemma mark_grouped_snoc:
  "mark_grouped gs h h' \<Longrightarrow> mark_grouped (gs @ [g]) h (set_matched True g h')"
  by (auto simp: mark_grouped_def hm_find_set_matched option.map_comp comp_def intro!: map_option_cong)

text \<open>The invariant depends on the tickets only through their fixed data.\<close>

lemma mm_ok_cong:
  assumes "mm_ok h mm" "set (hm_keys h') = set (hm_keys h)"
    "\<And>p. p \<in> set (hm_keys h) \<Longrightarrow> aggr h' p = aggr h p \<and> started h' p = started h p"
  shows "mm_ok h' mm"
proof -
  have live: "p \<in> set (mm_timeSorted mm) \<union> set (mm_ticketsToAdd mm) \<Longrightarrow> p \<in> set (hm_keys h)" for p
    using assms(1) by (auto simp: mm_ok_def in_range_def)
  then have "sorted (map (started h') (mm_timeSorted mm)) = sorted (map (started h) (mm_timeSorted mm))"
    using assms(3) by (intro arg_cong [where f = sorted] map_cong) auto
  moreover have "{p\<in>set (mm_timeSorted mm). aggr h' p = a} = {p\<in>set (mm_timeSorted mm). aggr h p = a}" for a
    using assms(3) live by auto
  ultimately show ?thesis using assms live by (auto simp: mm_ok_def in_range_def)
qed

text \<open>One pivot: what changes and why a new group is allowed.\<close>

lemma find_group_rule:
  assumes ok: "mm_ok h mm" and m: "mark_grouped gs h h'" and p: "p \<in> set (mm_timeSorted mm)" "\<not> matched h' p"
    and ad: "ad = 0 \<or> ad = 1"
    and g: "g = find_group h' (mm_bucket mm) (mm_maxAgression mm) p ad"
  shows "hd g = p" "g \<noteq> []" "length g \<le> 4" "distinct g" "set g \<subseteq> set (mm_timeSorted mm)"
    "\<forall>q\<in>set g. \<not> matched h' q \<and> \<bar>aggr h q - aggr h p\<bar> \<le> ad"
proof -
  let ?U = "unmatched_in h' (mm_bucket mm) (mm_maxAgression mm)"
  have range: "0 \<le> aggr h p" "aggr h p \<le> mm_maxAgression mm" "p \<in> set (hm_keys h)"
    using mm_okD(6) [OF ok p(1)] by simp_all
  have a: "aggr h' p = aggr h p" using mark_grouped_core(1) [OF m range(3)] .
  have g': "g = p # take 3 (candidates h' (mm_bucket mm) (mm_maxAgression mm) p ad)"
    unfolding g using range a ad by (intro find_group_take) simp_all
  have "distinct (candidates h' (mm_bucket mm) (mm_maxAgression mm) p ad)"
    using unmatched_in_distinct [OF ok] by (auto simp: candidates_def unmatched_in_set [OF ok])
  moreover have "p \<notin> set (candidates h' (mm_bucket mm) (mm_maxAgression mm) p ad)"
    by (auto simp: candidates_def unmatched_in_set [OF ok] a)
  ultimately show "distinct g" unfolding g' by (auto dest: in_set_takeD)
  show "hd g = p" "g \<noteq> []" "length g \<le> 4" by (simp_all add: g')
  have "q = p \<or> q \<in> set (candidates h' (mm_bucket mm) (mm_maxAgression mm) p ad)" if "q \<in> set g" for q
    using that by (auto simp: g' dest: in_set_takeD)
  then show "set g \<subseteq> set (mm_timeSorted mm)"
    "\<forall>q\<in>set g. \<not> matched h' q \<and> \<bar>aggr h q - aggr h p\<bar> \<le> ad"
    using p ad by (fastforce simp: candidates_def unmatched_in_set [OF ok] a split: if_splits)+
qed

definition grouping :: "(nat \<Rightarrow> int) \<Rightarrow> tickets \<Rightarrow> MatchMaker \<Rightarrow> pivot_state \<Rightarrow> bool" where
  "grouping clk h mm st \<longleftrightarrow>
     (case st of (h', gs, flags, n) \<Rightarrow>
        mark_grouped gs h h' \<and> distinct (concat gs) \<and> (\<forall>g\<in>set gs. rule_group clk h mm g) \<and>
        length flags = length (mm_pivotFlags mm))"

lemma try_pivot_grouping:
  assumes ok: "mm_ok h mm" and st: "grouping clk h mm st" and p: "p \<in> set (mm_timeSorted mm)"
  shows "grouping clk h mm (try_pivot clk (mm_bucket mm) (mm_maxAgression mm) p st)"
proof -
  obtain h' gs flags n where [simp]: "st = (h', gs, flags, n)" by (cases st)
  define w where "w = GetWaitTimeSeconds (clk n) (tk h' p)"
  define g where "g = find_group h' (mm_bucket mm) (mm_maxAgression mm) p (fst (match_rule w))"
  have m: "mark_grouped gs h h'" using st by (simp add: grouping_def)
  have live: "q \<in> set (mm_timeSorted mm) \<Longrightarrow> q \<in> set (hm_keys h)" for q using mm_okD(6) [OF ok] by blast
  have w: "w = GetWaitTimeSeconds (clk n) (tk h p)"
    unfolding w_def by (rule mark_grouped_core(4) [OF m live [OF p]])
  show ?thesis
  proof (cases "\<not> matched h' p \<and> \<not> flags ! nat (aggr h' p) \<and> snd (match_rule w) \<le> int (length g)")
    case False
    with st show ?thesis
      by (auto simp: try_pivot_def Let_def w_def [symmetric] g_def [symmetric] grouping_def case_prod_beta)
  next
    case True
    note gr = find_group_rule [OF ok m p _ match_rule_cases g_def]
    have new: "q \<notin> set (concat gs)" "\<not> matched h q" if "q \<in> set g" for q
      using gr(5,6) True that mark_grouped_core(3) [OF m live, of q] by blast+
    have "rule_group clk h mm g"
      unfolding rule_group_def using gr True new(2) w
      by (auto simp: Let_def case_prod_beta intro!: exI [of _ n])
    moreover have "distinct (concat (gs @ [g]))" using st gr(4) True new(1) by (auto simp: grouping_def)
    moreover have "mark_grouped (gs @ [g]) h (set_matched True g h')" by (rule mark_grouped_snoc [OF m])
    ultimately show ?thesis using st True
      by (auto simp: try_pivot_def Let_def w_def [symmetric] g_def [symmetric] grouping_def case_prod_beta)
  qed
qed

lemma FindMatchGroup_grouping:
  assumes ok: "mm_ok h mm" and f: "FindMatchGroup clk n h mm = (h', mm', n')"
  shows "mark_grouped (mm_matchedGroups mm') h h'" "distinct (concat (mm_matchedGroups mm'))"
    "\<forall>g\<in>set (mm_matchedGroups mm'). rule_group clk h mm g"
    "mm' = mm\<lparr>mm_matchedGroups := mm_matchedGroups mm', mm_pivotFlags := mm_pivotFlags mm'\<rparr>"
    "mm_ok h' mm'"
proof -
  let ?st0 = "(h, [], replicate (length (mm_pivotFlags mm)) False, n)"
  have "grouping clk h mm ?st0" by (simp add: grouping_def mark_grouped_Nil)
  from fold_invariant [where P = "grouping clk h mm" and Q = "\<lambda>p. p \<in> set (mm_timeSorted mm)", OF _ this
      try_pivot_grouping [OF ok]]
  have "grouping clk h mm (fold (try_pivot clk (mm_bucket mm) (mm_maxAgression mm)) (mm_timeSorted mm) ?st0)"
    by auto
  with f have *: "mark_grouped (mm_matchedGroups mm') h h'" "distinct (concat (mm_matchedGroups mm'))"
    "\<forall>g\<in>set (mm_matchedGroups mm'). rule_group clk h mm g"
    "length (mm_pivotFlags mm') = length (mm_pivotFlags mm)"
    "mm' = mm\<lparr>mm_matchedGroups := mm_matchedGroups mm', mm_pivotFlags := mm_pivotFlags mm'\<rparr>"
    by (auto simp: FindMatchGroup_def grouping_def Let_def split: prod.splits)
  then show "mark_grouped (mm_matchedGroups mm') h h'" "distinct (concat (mm_matchedGroups mm'))"
    "\<forall>g\<in>set (mm_matchedGroups mm'). rule_group clk h mm g"
    "mm' = mm\<lparr>mm_matchedGroups := mm_matchedGroups mm', mm_pivotFlags := mm_pivotFlags mm'\<rparr>"
    by simp_all
  have keys: "set (hm_keys h') = set (hm_keys h)" using *(1) by (simp add: mark_grouped_def)
  have "mm_ok h' mm"
    using mark_grouped_core [OF *(1)] by (intro mm_ok_cong [OF ok keys]) auto
  then show "mm_ok h' mm'" by (subst *(5)) (simp add: mm_ok_def in_range_def *(4))
qed

section \<open>Nobody waits longer than a minute\<close>

lemma wait_eq:
  assumes "mt_startTime t \<le> now" "now - mt_startTime t < 2 ^ 31 * 1000000000"
  shows "GetWaitTimeSeconds now t = (now - mt_startTime t) div 1000000000"
proof -
  let ?d = "now - mt_startTime t"
  have d: "?d sdiv 1000000000 = ?d div 1000000000" using assms by (simp add: signed_divide_int_def sgn_if)
  have "0 \<le> ?d div 1000000000" using assms by (intro pos_imp_zdiv_nonneg_iff [THEN iffD2]) simp_all
  moreover have "?d div 1000000000 < 2 ^ 31"
    using zdiv_mono1 [of ?d "2 ^ 31 * 1000000000 - 1" 1000000000] assms(2) by simp
  ultimately have "i32_ok (?d div 1000000000)" by (simp add: i32_ok_def)
  then show ?thesis by (simp only: GetWaitTimeSeconds_def d to_i32_to_u32)
qed

lemma wait_seconds:
  assumes "s \<le> now - mt_startTime t" "0 \<le> s" "now - mt_startTime t < 2 ^ 31 * 1000000000"
  shows "s div 1000000000 \<le> GetWaitTimeSeconds now t"
  using assms by (subst wait_eq) (simp_all add: zdiv_mono1)

text \<open>Who waited a minute by the time \<open>T\<close>.\<close>

definition overdue :: "tickets \<Rightarrow> int \<Rightarrow> ptr \<Rightarrow> bool" where
  "overdue h T p \<longleftrightarrow> started h p + 60000000000 \<le> T"

lemma try_pivot_overdue:
  assumes ok: "mm_ok h mm" and st: "grouping clk h mm (h', gs, flags, n)" and p: "p \<in> set (mm_timeSorted mm)"
    and o: "overdue h T p" and n: "T \<le> clk n" "clk n - started h p < 2 ^ 31 * 1000000000"
    and flag: "\<not> flags ! nat (aggr h p)"
    and r: "try_pivot clk (mm_bucket mm) (mm_maxAgression mm) p (h', gs, flags, n) = (h'', gs', flags', n')"
  shows "p \<in> set (concat gs') \<or> matched h p" "flags' = flags" "n \<le> n'"
proof -
  have m: "mark_grouped gs h h'" using st by (simp add: grouping_def)
  have live: "p \<in> set (hm_keys h)" using mm_okD(6) [OF ok p] by blast
  note core = mark_grouped_core [OF m live]
  have "60 \<le> GetWaitTimeSeconds (clk n) (tk h' p)"
    using wait_seconds [of 60000000000 "clk n" "tk h p"] o n by (simp add: core(4) overdue_def)
  then have rule: "match_rule (GetWaitTimeSeconds (clk n) (tk h' p)) = (1, 1)" by (simp add: match_rule_def)
  let ?g = "find_group h' (mm_bucket mm) (mm_maxAgression mm) p 1"
  note gr = find_group_rule [OF ok m p _ _ refl, of 1, simplified]
  have "\<not> matched h' p \<Longrightarrow> 1 \<le> int (length ?g) \<and> p \<in> set ?g"
    using gr(1,2) by (cases ?g) auto
  then show "p \<in> set (concat gs') \<or> matched h p" "flags' = flags" "n \<le> n'"
    using r flag rule core by (auto simp: try_pivot_def Let_def split: if_splits)
qed

lemma try_pivot_groups_mono:
  "try_pivot clk b m p (h, gs, flags, n) = (h', gs', flags', n') \<Longrightarrow> set (concat gs) \<subseteq> set (concat gs') \<and> n \<le> n'"
  by (auto simp: try_pivot_def Let_def case_prod_beta split: if_splits)

lemma fold_groups_mono:
  "fold (try_pivot clk b m) ps (h, gs, flags, n) = (h', gs', flags', n') \<Longrightarrow>
   set (concat gs) \<subseteq> set (concat gs') \<and> n \<le> n'"
proof (induction ps arbitrary: h gs flags n)
  case (Cons p ps)
  obtain h1 gs1 fl1 n1 where 1: "try_pivot clk b m p (h, gs, flags, n) = (h1, gs1, fl1, n1)" by (cases "try_pivot clk b m p (h, gs, flags, n)")
  with Cons.prems have "fold (try_pivot clk b m) ps (h1, gs1, fl1, n1) = (h', gs', flags', n')" by simp
  from Cons.IH [OF this] try_pivot_groups_mono [OF 1] show ?case by (meson order_trans)
qed simp

lemma fold_overdue:
  assumes ok: "mm_ok h mm" and clk: "mono clk"
    and lim0: "\<And>q k. q \<in> set (mm_timeSorted mm) \<Longrightarrow> clk k - started h q < 2 ^ 31 * 1000000000"
  shows "grouping clk h mm (h', gs, flags, n) \<Longrightarrow> set ps \<subseteq> set (mm_timeSorted mm) \<Longrightarrow>
    sorted (map (started h) ps) \<Longrightarrow> T \<le> clk n \<Longrightarrow>
    (\<And>q. q \<in> set ps \<Longrightarrow> overdue h T q \<Longrightarrow> \<not> flags ! nat (aggr h q)) \<Longrightarrow>
    fold (try_pivot clk (mm_bucket mm) (mm_maxAgression mm)) ps (h', gs, flags, n) = (h'', gs', flags', n') \<Longrightarrow>
    p \<in> set ps \<Longrightarrow> overdue h T p \<Longrightarrow> p \<in> set (concat gs') \<or> matched h p"
proof (induction ps arbitrary: h' gs flags n)
  case (Cons q ps)
  obtain h1 gs1 fl1 n1 where
    1: "try_pivot clk (mm_bucket mm) (mm_maxAgression mm) q (h', gs, flags, n) = (h1, gs1, fl1, n1)"
    by (metis prod.exhaust)
  with Cons.prems(6) have 2: "fold (try_pivot clk (mm_bucket mm) (mm_maxAgression mm)) ps (h1, gs1, fl1, n1) = (h'', gs', flags', n')"
    by simp
  have q: "q \<in> set (mm_timeSorted mm)" "overdue h T q"
    using Cons.prems(2,3,7,8) by (auto simp: overdue_def)
  note step = try_pivot_overdue [OF ok Cons.prems(1) q(1) q(2) Cons.prems(4) lim0 [OF q(1)] _ 1]
  have fq: "\<not> flags ! nat (aggr h q)" using Cons.prems(5) q(2) by simp
  show ?case
  proof (cases "p = q")
    case True
    with step(1) [OF fq] fold_groups_mono [OF 2] show ?thesis by blast
  next
    case False
    have "grouping clk h mm (h1, gs1, fl1, n1)"
      using try_pivot_grouping [OF ok Cons.prems(1) q(1)] by (simp add: 1)
    moreover have "T \<le> clk n1" using step(3) [OF fq] Cons.prems(4) monoD [OF clk] by (meson order_trans)
    ultimately show ?thesis
      using Cons.prems step(2) [OF fq] False 2 by (intro Cons.IH [of h1 gs1 fl1 n1]) auto
  qed
qed simp

section \<open>The memory of failed pivots\<close>

text \<open>
  The reference: the loop over the pivots without the flags that remember the aggressions for
  which a pivot failed in this pass.
\<close>

definition try_pivot_plain :: "int \<Rightarrow> ptr list list \<Rightarrow> i32 \<Rightarrow> ptr \<Rightarrow> tickets \<times> ptr list list \<Rightarrow> tickets \<times> ptr list list" where
  "try_pivot_plain now b m pivot st =
     (case st of (h, gs) \<Rightarrow>
        if matched h pivot then st
        else
          let (allowedDiff, targetMinPlayers) = match_rule (GetWaitTimeSeconds now (tk h pivot));
              g = find_group h b m pivot allowedDiff
          in if targetMinPlayers \<le> int (length g) then (set_matched True g h, gs @ [g]) else st)"

text \<open>How many may play together with a pivot of an aggression, the pivot included.\<close>

definition window_size :: "tickets \<Rightarrow> ptr list list \<Rightarrow> i32 \<Rightarrow> i32 \<Rightarrow> i32 \<Rightarrow> nat" where
  "window_size h b m a ad = length (unmatched_in h b m a) +
     (if ad = 0 then 0 else length (unmatched_in h b m (a + 1)) + length (unmatched_in h b m (a - 1)))"

lemma length_filter_le_filter: "(\<And>x. P x \<Longrightarrow> Q x) \<Longrightarrow> length (filter P xs) \<le> length (filter Q xs)"
  by (induction xs) auto

lemma length_filter_neq: "distinct xs \<Longrightarrow> p \<in> set xs \<Longrightarrow> length (filter (\<lambda>c. c \<noteq> p) xs) + 1 = length xs"
  by (induction xs) (auto intro!: arg_cong [where f = length] simp: filter_id_conv)

lemma matched_set_matched: "matched h q \<Longrightarrow> matched (set_matched True g h) q"
  by (cases "hm_find h q") (auto simp: tk_def hm_find_set_matched)

lemma window_size_set_matched: "window_size (set_matched True g h) b m a ad \<le> window_size h b m a ad"
proof -
  have "length (unmatched_in (set_matched True g h) b m x) \<le> length (unmatched_in h b m x)" for x
    using matched_set_matched by (auto simp: unmatched_in_def intro!: length_filter_le_filter)
  then show ?thesis by (auto simp: window_size_def intro!: add_mono)
qed

lemma window_size_mono: "0 \<le> d \<Longrightarrow> d \<le> e \<Longrightarrow> window_size h b m a d \<le> window_size h b m a e"
  by (simp add: window_size_def)

lemma group_length:
  assumes ok: "mm_ok h mm" and m: "mark_grouped gs h h'" and p: "p \<in> set (mm_timeSorted mm)" "\<not> matched h' p"
    and ad: "ad = 0 \<or> ad = 1"
  shows "length (find_group h' (mm_bucket mm) (mm_maxAgression mm) p ad) =
    min 4 (window_size h' (mm_bucket mm) (mm_maxAgression mm) (aggr h p) ad)"
proof -
  let ?U = "unmatched_in h' (mm_bucket mm) (mm_maxAgression mm) (aggr h p)"
  have range: "0 \<le> aggr h p" "aggr h p \<le> mm_maxAgression mm" "p \<in> set (hm_keys h)"
    using mm_okD(6) [OF ok p(1)] by simp_all
  have a: "aggr h' p = aggr h p" using mark_grouped_core(1) [OF m range(3)] .
  have "p \<in> set ?U" using p by (simp add: unmatched_in_set [OF ok])
  then have "length (filter (\<lambda>c. c \<noteq> p) ?U) + 1 = length ?U"
    by (rule length_filter_neq [OF unmatched_in_distinct [OF ok]])
  then show ?thesis
    using range ad by (subst find_group_take) (auto simp: a candidates_def window_size_def)
qed

text \<open>A set flag: nobody still to come can form a group with that aggression.\<close>

definition flags_sound :: "int \<Rightarrow> tickets \<Rightarrow> MatchMaker \<Rightarrow> ptr list \<Rightarrow> tickets \<Rightarrow> bool list \<Rightarrow> bool" where
  "flags_sound now h mm ps h' flags \<longleftrightarrow>
     (\<forall>p\<in>set ps. flags ! nat (aggr h p) \<longrightarrow>
        (\<exists>w\<ge>GetWaitTimeSeconds now (tk h p).
           int (min 4 (window_size h' (mm_bucket mm) (mm_maxAgression mm) (aggr h p) (fst (match_rule w)))) < snd (match_rule w)))"

lemma flagged_fails:
  assumes ok: "mm_ok h mm" and m: "mark_grouped gs h h'" and p: "p \<in> set (mm_timeSorted mm)"
    and f: "flags_sound now h mm (p # ps) h' flags" "flags ! nat (aggr h p)"
  shows "try_pivot_plain now (mm_bucket mm) (mm_maxAgression mm) p (h', gs) = (h', gs)"
proof (cases "matched h' p")
  case False
  have live: "p \<in> set (hm_keys h)" using mm_okD(6) [OF ok p] by blast
  define v where "v = GetWaitTimeSeconds now (tk h p)"
  define W where "W = window_size h' (mm_bucket mm) (mm_maxAgression mm) (aggr h p)"
  obtain w where w: "v \<le> w" "int (min 4 (W (fst (match_rule w)))) < snd (match_rule w)"
    using f by (auto simp: flags_sound_def v_def W_def)
  have "W (fst (match_rule v)) \<le> W (fst (match_rule w))"
    unfolding W_def using match_rule_cases [of v] match_rule_antimono [OF w(1)] by (intro window_size_mono) auto
  then have "int (min 4 (W (fst (match_rule v)))) < snd (match_rule v)"
    using w(2) match_rule_antimono [OF w(1)] by linarith
  then show ?thesis
    using False group_length [OF ok m p False match_rule_cases [of v]] mark_grouped_core(4) [OF m live]
    by (simp add: try_pivot_plain_def Let_def case_prod_beta v_def W_def)
qed (simp add: try_pivot_plain_def)

text \<open>A pivot that is not flagged does the same in both loops and keeps the flags sound.\<close>

lemma unflagged_same:
  assumes ok: "mm_ok h mm" and m: "mark_grouped gs h h'" and p: "p \<in> set (mm_timeSorted mm)"
    and f: "\<not> flags ! nat (aggr h p)"
    and r: "try_pivot (\<lambda>_. now) (mm_bucket mm) (mm_maxAgression mm) p (h', gs, flags, n) = (h1, gs1, flags1, n1)"
  shows "try_pivot_plain now (mm_bucket mm) (mm_maxAgression mm) p (h', gs) = (h1, gs1)"
proof -
  have live: "p \<in> set (hm_keys h)" using mm_okD(6) [OF ok p] by blast
  show ?thesis using r f mark_grouped_core(1) [OF m live]
    by (auto simp: try_pivot_def try_pivot_plain_def Let_def case_prod_beta split: if_splits)
qed

lemma flags_sound_step:
  assumes ok: "mm_ok h mm" and m: "mark_grouped gs h h'" and p: "p \<in> set (mm_timeSorted mm)"
    and f: "flags_sound now h mm (p # ps) h' flags" and len: "length flags = length (mm_pivotFlags mm)"
    and ps: "set ps \<subseteq> set (mm_timeSorted mm)"
    and w: "\<And>q. q \<in> set ps \<Longrightarrow> GetWaitTimeSeconds now (tk h q) \<le> GetWaitTimeSeconds now (tk h p)"
    and r: "try_pivot (\<lambda>_. now) (mm_bucket mm) (mm_maxAgression mm) p (h', gs, flags, n) = (h1, gs1, flags1, n1)"
  shows "flags_sound now h mm ps h1 flags1"
proof -
  define v where "v = GetWaitTimeSeconds now (tk h' p)"
  define g where "g = find_group h' (mm_bucket mm) (mm_maxAgression mm) p (fst (match_rule v))"
  have live: "p \<in> set (hm_keys h)" "0 \<le> aggr h p" "aggr h p \<le> mm_maxAgression mm" using mm_okD(6) [OF ok p] by simp_all
  note core = mark_grouped_core [OF m live(1)]
  have old: "flags_sound now h mm ps h' flags" using f by (simp add: flags_sound_def)
  have v: "v = GetWaitTimeSeconds now (tk h p)" by (simp add: v_def core)
  from r consider (same) "h1 = h'" "flags1 = flags"
    | (group) "h1 = set_matched True g h'" "flags1 = flags"
    | (failed) "\<not> matched h' p" "int (length g) < snd (match_rule v)" "h1 = h'" "flags1 = flags[nat (aggr h p) := True]"
    by (auto simp: try_pivot_def Let_def case_prod_beta v_def [symmetric] g_def [symmetric] core(1) split: if_splits)
  then show ?thesis
  proof cases
    case same
    with old show ?thesis by simp
  next
    case group
    then show ?thesis using old window_size_set_matched [of g h']
      by (auto simp: flags_sound_def) (meson le_less_trans min.mono of_nat_mono order_refl)
  next
    case failed
    have "int (min 4 (window_size h' (mm_bucket mm) (mm_maxAgression mm) (aggr h p) (fst (match_rule v)))) < snd (match_rule v)"
      using failed(2) group_length [OF ok m p failed(1) match_rule_cases [of v]] by (simp add: g_def)
    moreover have "nat (aggr h p) < length flags" using live len mm_okD(3) [OF ok] by simp
    ultimately show ?thesis
      using old w mm_okD(6) [OF ok] ps failed(3,4) live(2)
      by (fastforce simp: flags_sound_def nth_list_update v eq_nat_nat_iff)
  qed
qed

lemma fold_memo:
  assumes ok: "mm_ok h mm"
    and lim: "\<And>q. q \<in> set (mm_timeSorted mm) \<Longrightarrow> started h q \<le> now \<and> now - started h q < 2 ^ 31 * 1000000000"
  shows "grouping (\<lambda>_. now) h mm (h', gs, flags, n) \<Longrightarrow> set ps \<subseteq> set (mm_timeSorted mm) \<Longrightarrow>
    sorted (map (started h) ps) \<Longrightarrow> flags_sound now h mm ps h' flags \<Longrightarrow>
    fold (try_pivot (\<lambda>_. now) (mm_bucket mm) (mm_maxAgression mm)) ps (h', gs, flags, n) = (h2, gs2, flags2, n2) \<Longrightarrow>
    fold (try_pivot_plain now (mm_bucket mm) (mm_maxAgression mm)) ps (h', gs) = (h2, gs2)"
proof (induction ps arbitrary: h' gs flags n)
  case (Cons p ps)
  obtain h1 gs1 fl1 n1 where
    1: "try_pivot (\<lambda>_. now) (mm_bucket mm) (mm_maxAgression mm) p (h', gs, flags, n) = (h1, gs1, fl1, n1)"
    by (metis prod.exhaust)
  have m: "mark_grouped gs h h'" and len: "length flags = length (mm_pivotFlags mm)"
    using Cons.prems(1) by (simp_all add: grouping_def)
  have p: "p \<in> set (mm_timeSorted mm)" and ps: "set ps \<subseteq> set (mm_timeSorted mm)" using Cons.prems(2) by auto
  have "GetWaitTimeSeconds now (tk h q) \<le> GetWaitTimeSeconds now (tk h p)" if "q \<in> set ps" for q
    using that ps p lim Cons.prems(3) by (subst (1 2) wait_eq) (auto intro!: zdiv_mono1)
  from flags_sound_step [OF ok m p Cons.prems(4) len ps this 1]
  have "flags_sound now h mm ps h1 fl1" .
  moreover have "grouping (\<lambda>_. now) h mm (h1, gs1, fl1, n1)"
    using try_pivot_grouping [OF ok Cons.prems(1) p] by (simp add: 1)
  ultimately have "fold (try_pivot_plain now (mm_bucket mm) (mm_maxAgression mm)) ps (h1, gs1) = (h2, gs2)"
    using Cons.prems(2,3,5) 1 by (intro Cons.IH) auto
  moreover have "try_pivot_plain now (mm_bucket mm) (mm_maxAgression mm) p (h', gs) = (h1, gs1)"
  proof (cases "flags ! nat (aggr h p)")
    case True
    have "p \<in> set (hm_keys h)" using mm_okD(6) [OF ok p] by blast
    then have "(h1, gs1) = (h', gs)"
      using 1 True mark_grouped_core(1) [OF m] by (auto simp: try_pivot_def split: if_splits)
    then show ?thesis using flagged_fails [OF ok m p Cons.prems(4) True] by simp
  next
    case False
    then show ?thesis using unflagged_same [OF ok m p _ 1] by simp
  qed
  ultimately show ?case by simp
qed simp

section \<open>Properties\<close>

text \<open>A matchmaker with six tickets: four of aggression 5, one of 6 and one of 9.\<close>

definition ex_tickets :: tickets where
  "ex_tickets = map (\<lambda>(p, a, t). (p, MakeMatchTicket ''t'' (int p) a 1 0 t))
     [(1, 5, 0), (2, 5, 1), (3, 5, 2), (4, 5, 3), (5, 6, 4), (6, 9, 5)]"

definition ex_mm :: MatchMaker where
  "ex_mm = fold AddSingleMatchTicket [3, 1, 2, 6, 5, 4] (MakeMatchMaker 1 20)"

definition ex_queued :: MatchMaker where
  "ex_queued = the (AddNewMatchTickets ex_tickets ex_mm)"

lemma ex_queued_ok: "mm_ok ex_tickets ex_queued"
  by code_simp



text \<open>C15. Whoever has waited a minute when the pass starts is in a group after it, as long as the
  clock does not run backwards and no waiting time overflows.\<close>

theorem waited_minute_is_grouped:
  assumes "mm_ok h mm" and "mono clk" and "FindMatchGroup clk n h mm = (h', mm', n')"
    and "\<And>q k. q \<in> set (mm_timeSorted mm) \<Longrightarrow> clk k - started h q < 2 ^ 31 * 1000000000"
    and "p \<in> set (mm_timeSorted mm)" and "started h p + 60000000000 \<le> clk n" and "\<not> matched h p"
  shows "p \<in> set (concat (mm_matchedGroups mm'))"
proof -
  let ?st0 = "(h, [], replicate (length (mm_pivotFlags mm)) False, n)"
  obtain h2 gs fl n2 where
    f: "fold (try_pivot clk (mm_bucket mm) (mm_maxAgression mm)) (mm_timeSorted mm) ?st0 = (h2, gs, fl, n2)"
    by (metis prod.exhaust)
  then have gs: "mm_matchedGroups mm' = gs" using assms(3) by (auto simp: FindMatchGroup_def Let_def)
  have st0: "grouping clk h mm ?st0" by (simp add: grouping_def mark_grouped_Nil)
  have "\<not> replicate (length (mm_pivotFlags mm)) False ! nat (aggr h q)" if "q \<in> set (mm_timeSorted mm)" for q
    using mm_okD(1,3) [OF assms(1)] mm_okD(6) [OF assms(1) that] by (simp add: nat_less_iff)
  with fold_overdue [OF assms(1,2,4) st0 subset_refl mm_okD(5) [OF assms(1)] order_refl _ f assms(5)] assms(6,7)
  show ?thesis by (auto simp: gs overdue_def)
qed

theorem waited_minute_is_grouped_witness:
  "6 \<in> set (concat (mm_matchedGroups (fst (snd (FindMatchGroup (\<lambda>_. 61000000000) 0 ex_tickets ex_queued)))))"
proof -
  have "\<forall>q\<in>set (mm_timeSorted ex_queued). (61000000000::int) - started ex_tickets q < 2 ^ 31 * 1000000000"
    "6 \<in> set (mm_timeSorted ex_queued)" "started ex_tickets 6 + 60000000000 \<le> 61000000000" "\<not> matched ex_tickets 6"
    by code_simp+
  moreover obtain h' mm' n' where f: "FindMatchGroup (\<lambda>_. 61000000000) 0 ex_tickets ex_queued = (h', mm', n')"
    by (metis prod.exhaust)
  ultimately have "6 \<in> set (concat (mm_matchedGroups mm'))"
    by (intro waited_minute_is_grouped [OF ex_queued_ok _ f]) (auto simp: mono_def)
  then show ?thesis by (simp add: f)
qed



end
