(* ===== verification/Decimal.thy ===== *)
theory Decimal
  imports Prelude
begin

text \<open>
  \<open>std::stoi\<close> and \<open>std::to_string\<close> for \<open>int\<close>, which carry the numbers of the main
  process through the string fields of Redis. \<open>None\<close> is the exception of \<open>stoi\<close>
  (\<open>std::invalid_argument\<close> without a digit, \<open>std::out_of_range\<close> outside \<open>int\<close>).
\<close>

definition char_code :: "char \<Rightarrow> nat" where
  "char_code c = of_char c"

definition is_digit :: "char \<Rightarrow> bool" where
  "is_digit c \<longleftrightarrow> 48 \<le> char_code c \<and> char_code c \<le> 57"

definition is_space :: "char \<Rightarrow> bool" where
  "is_space c \<longleftrightarrow> char_code c = 32 \<or> 9 \<le> char_code c \<and> char_code c \<le> 13"

definition digit_value :: "char \<Rightarrow> nat" where
  "digit_value c = char_code c - 48"

definition digits_value :: "string \<Rightarrow> nat" where
  "digits_value ds = foldl (\<lambda>v c. 10 * v + digit_value c) 0 ds"

definition stoi :: "string \<Rightarrow> int option" where
  "stoi s =
     (let t = dropWhile is_space s;
          neg = (t \<noteq> [] \<and> hd t = CHR ''-'');
          u = (if t \<noteq> [] \<and> (hd t = CHR ''-'' \<or> hd t = CHR ''+'') then tl t else t);
          ds = takeWhile is_digit u;
          v = (if neg then - int (digits_value ds) else int (digits_value ds))
      in if ds = [] then None else if i32_ok v then Some v else None)"

definition digit_char :: "nat \<Rightarrow> char" where
  "digit_char d = char_of (48 + d)"

fun nat_digits :: "nat \<Rightarrow> string" where
  "nat_digits n = (if n < 10 then [digit_char n] else nat_digits (n div 10) @ [digit_char (n mod 10)])"

declare nat_digits.simps [simp del]

definition to_string :: "int \<Rightarrow> string" where
  "to_string x = (if x < 0 then CHR ''-'' # nat_digits (nat (- x)) else nat_digits (nat x))"

lemma char_code_digit: "d < 10 \<Longrightarrow> char_code (digit_char d) = 48 + d"
  by (simp add: char_code_def digit_char_def of_char_of)

lemma is_digit_nat_digits: "c \<in> set (nat_digits n) \<Longrightarrow> is_digit c"
proof (induction n rule: nat_digits.induct)
  case (1 n)
  show ?case
  proof (cases "n < 10")
    case True
    then show ?thesis using "1.prems" by (auto simp: nat_digits.simps [of n] is_digit_def char_code_digit)
  next
    case False
    then show ?thesis using "1.IH" "1.prems"
      by (auto simp: nat_digits.simps [of n] is_digit_def char_code_digit)
  qed
qed

lemma nat_digits_not_Nil [simp]: "nat_digits n \<noteq> []"
  by (subst nat_digits.simps) simp

lemma digits_value_nat_digits: "digits_value (nat_digits n) = n"
proof (induction n rule: nat_digits.induct)
  case (1 n)
  show ?case
  proof (cases "n < 10")
    case True
    then show ?thesis by (simp add: nat_digits.simps [of n] digits_value_def digit_value_def char_code_digit)
  next
    case False
    then have "digits_value (nat_digits n) = 10 * digits_value (nat_digits (n div 10)) + n mod 10"
      by (simp add: nat_digits.simps [of n] digits_value_def digit_value_def char_code_digit)
    then show ?thesis using "1.IH" [OF False] by simp
  qed
qed

text \<open>Printing a number and reading it back.\<close>

lemma stoi_to_string: "i32_ok x \<Longrightarrow> stoi (to_string x) = Some x"
proof -
  assume x: "i32_ok x"
  have dig: "takeWhile is_digit (nat_digits n) = nat_digits n" for n
    by (simp add: takeWhile_eq_all_conv is_digit_nat_digits)
  have hd: "is_digit (hd (nat_digits n))" for n by (rule is_digit_nat_digits) (rule hd_in_set [OF nat_digits_not_Nil])
  have ns: "\<not> is_space c" "c \<noteq> CHR ''-''" "c \<noteq> CHR ''+''" if "is_digit c" for c
    using that by (auto simp: is_digit_def is_space_def char_code_def)
  have drop: "dropWhile is_space (nat_digits n) = nat_digits n" for n
    using hd [of n] ns(1) by (cases "nat_digits n") auto
  have minus: "\<not> is_space (CHR ''-'')" by (simp add: is_space_def char_code_def)
  show ?thesis
    using x ns(2,3) [OF hd] minus
    by (cases "x < 0") (auto simp: stoi_def to_string_def drop dig digits_value_nat_digits Let_def)
qed

end
