(* ===== verification/MainServer.thy ===== *)
theory MainServer
  imports DediServer Matchmaker Decimal
begin

text \<open>
  The main process: \<open>src/M2DSessions.h\<close> and \<open>.cpp\<close> (its view of a dedicated process),
  \<open>src/DediManager.h\<close> and \<open>.cpp\<close>, the half of \<open>src/Matchmaker.cpp\<close> that talks to
  Redis and to the dedicated processes, the handlers of \<open>src/PacketHandler.cpp\<close> and
  \<open>src/DBProxyRequest.h\<close> and \<open>.cpp\<close>. Redis, MySQL, the JSON parser, \<open>fork\<close>, the
  clock, the environment variable \<open>MY_INSTANCE_IP\<close> and the network interfaces are parameters (\<open>menv\<close>). An exception that no
  handler of the source catches ends the process: it is a value of \<open>MainError\<close>, as is
  the undefined behaviour of an unchecked index. The sockets are not modelled: a sent packet is
  appended to the list of the session.
\<close>

section \<open>Parameters\<close>

datatype RedisCmd =
  HSet string "(string \<times> string) list"
| SetEx string string int
| Expire string int

text \<open>
  The client of Redis over an unknown state. \<open>None\<close> (\<open>False\<close>) is \<open>sw::redis::Error\<close>.
\<close>

record 'r redis =
  rd_eval :: "string list \<Rightarrow> string list \<Rightarrow> 'r \<Rightarrow> int option \<times> 'r"
  rd_hget :: "string \<Rightarrow> string \<Rightarrow> 'r \<Rightarrow> string option option \<times> 'r"
  rd_hgetall :: "string \<Rightarrow> 'r \<Rightarrow> (string \<times> string) list option \<times> 'r"
  rd_pipe :: "RedisCmd list \<Rightarrow> 'r \<Rightarrow> bool \<times> 'r"
  rd_del :: "string list \<Rightarrow> 'r \<Rightarrow> bool \<times> 'r"

text \<open>The prepared statements of the source, and the connection to MySQL. \<open>False\<close> is \<open>sql::SQLException\<close>.\<close>

datatype SqlStmt =
  DeleteInventory i32 i32
| InsertInventory i32 i32 i32 i32

record 'd mysql =
  sq_get :: "'d \<Rightarrow> bool \<times> 'd"
  sq_autocommit :: "bool \<Rightarrow> 'd \<Rightarrow> bool \<times> 'd"
  sq_update :: "SqlStmt \<Rightarrow> 'd \<Rightarrow> bool \<times> 'd"
  sq_commit :: "'d \<Rightarrow> bool \<times> 'd"
  sq_rollback :: "'d \<Rightarrow> bool \<times> 'd"

record ('r, 'd) menv =
  me_redis :: "'r redis"
  me_mysql :: "'d mysql"
  me_clock :: "nat \<Rightarrow> int"
  me_fork :: "nat \<Rightarrow> i32"
  me_inventory :: "string \<Rightarrow> (u32 \<times> i32 \<times> i32) list option"
  me_equipment :: "string \<Rightarrow> (u32 \<times> i32) list option"
  me_instanceIp :: "string option"
  me_interfaces :: "(bool \<times> string \<times> string) list"

datatype MainError = RedisException | MissingField | BadNumber | JsonException | LengthError | WildIndex

definition bnd :: "'e + 'a \<Rightarrow> ('a \<Rightarrow> 'e + 'b) \<Rightarrow> 'e + 'b" where
  "bnd x f = (case x of Inl er \<Rightarrow> Inl er | Inr a \<Rightarrow> f a)"

definition or_error :: "'e \<Rightarrow> 'a option \<Rightarrow> 'e + 'a" where
  "or_error er x = (case x of None \<Rightarrow> Inl er | Some a \<Rightarrow> Inr a)"

lemma bnd_Inr [simp]: "bnd (Inr a) f = f a"
  by (simp add: bnd_def)

lemma bnd_eq_Inr: "bnd x f = Inr b \<longleftrightarrow> (\<exists>a. x = Inr a \<and> f a = Inr b)"
  by (cases x) (auto simp: bnd_def)

lemma or_error_eq_Inr: "or_error er x = Inr a \<longleftrightarrow> x = Some a"
  by (cases x) (auto simp: or_error_def)

section \<open>The sessions of the dedicated processes\<close>

datatype M2DState = Initializing | Ready | Terminated

record M2DMakeRoomForThisGroup =
  mr_map_id :: i32
  mr_player_infos :: "PlayerInfo list"

datatype IpcToDedi =
  MakeRoomPkt M2DMakeRoomForThisGroup
| BindIpPkt string string

record M2DSession =
  md_pid :: i32
  md_fd :: i32
  md_allocatedPlayers :: i32
  md_state :: M2DState
  md_tempMatchPkts :: "M2DMakeRoomForThisGroup list"
  md_sent :: "IpcToDedi list"

definition MAX_PLAYER_PER_PROCESS :: i32 where
  "MAX_PLAYER_PER_PROCESS = 50"

definition MakeM2DSession :: "i32 \<Rightarrow> M2DSession" where
  "MakeM2DSession pid =
     \<lparr>md_pid = pid, md_fd = - 1, md_allocatedPlayers = 0, md_state = Initializing, md_tempMatchPkts = [], md_sent = []\<rparr>"

definition BindSocket :: "i32 \<Rightarrow> M2DSession \<Rightarrow> M2DSession" where
  "BindSocket fd s = s\<lparr>md_fd := fd, md_state := Ready\<rparr>"

definition M2DSend :: "IpcToDedi \<Rightarrow> M2DSession \<Rightarrow> M2DSession" where
  "M2DSend pkt s = s\<lparr>md_sent := md_sent s @ [pkt]\<rparr>"

definition GetAffordablePlayers :: "M2DSession \<Rightarrow> i32" where
  "GetAffordablePlayers s = MAX_PLAYER_PER_PROCESS - md_allocatedPlayers s"

definition FlushPendingTickets :: "M2DSession \<Rightarrow> M2DSession" where
  "FlushPendingTickets s =
     (fold (\<lambda>pkt. M2DSend (MakeRoomPkt pkt)) (md_tempMatchPkts s) s)\<lparr>md_tempMatchPkts := []\<rparr>"

definition ReleasePlayers :: "i32 \<Rightarrow> M2DSession \<Rightarrow> M2DSession" where
  "ReleasePlayers cnt s =
     (let n = md_allocatedPlayers s - cnt in s\<lparr>md_allocatedPlayers := (if n < 0 then 0 else n)\<rparr>)"

text \<open>The loadout of a ticket, read from the fields of its Redis table.\<close>

definition field_at :: "(string \<times> string) list \<Rightarrow> string \<Rightarrow> MainError + string" where
  "field_at val k = or_error MissingField (map_of val k)"

definition number_at :: "(string \<times> string) list \<Rightarrow> string \<Rightarrow> MainError + i32" where
  "number_at val k = bnd (field_at val k) (\<lambda>s. or_error BadNumber (stoi s))"

definition ipc_slot :: "u32 \<Rightarrow> i32 \<Rightarrow> i32 \<Rightarrow> IpcItemSlot" where
  "ipc_slot item i q = \<lparr>is_item_id = item, is_slot_index = i, is_quantity = q\<rparr>"

definition player_info :: "('r, 'd) menv \<Rightarrow> MatchTicket \<Rightarrow> (string \<times> string) list \<Rightarrow> MainError + PlayerInfo" where
  "player_info e t val =
     bnd (number_at val ''uid'') (\<lambda>uid.
     bnd (field_at val ''user_id'') (\<lambda>user.
     bnd (number_at val ''rating'') (\<lambda>rating.
     bnd (bnd (field_at val ''inventory_items'') (\<lambda>s. or_error JsonException (me_inventory e s))) (\<lambda>inv.
     bnd (bnd (field_at val ''equipment_items'') (\<lambda>s. or_error JsonException (me_equipment e s))) (\<lambda>eq.
     Inr \<lparr>pi_ticket_id = mt_ticketId t, pi_uid = uid, pi_user_id = user, pi_rating = rating,
          pi_inventory_items = map (\<lambda>(item, i, q). ipc_slot item i q) inv,
          pi_equipment_items = map (\<lambda>(item, i). ipc_slot item i 1) eq,
          pi_character_type = mt_characterType t\<rparr>)))))"

text \<open>The loop over the group: a ticket whose table is empty is skipped.\<close>

fun player_infos :: "('r, 'd) menv \<Rightarrow> tickets \<Rightarrow> ptr list \<Rightarrow> 'r \<Rightarrow> MainError + PlayerInfo list \<times> 'r" where
  "player_infos e h [] r = Inr ([], r)"
| "player_infos e h (p # ps) r =
     (if p = nullptr then player_infos e h ps r
      else
        let (x, r1) = rd_hgetall (me_redis e) (mt_ticketId (tk h p)) r in
        bnd (or_error RedisException x) (\<lambda>val.
          if val = [] then player_infos e h ps r1
          else bnd (player_info e (tk h p) val) (\<lambda>i.
               bnd (player_infos e h ps r1) (\<lambda>(is, r2). Inr (i # is, r2)))))"

definition MakeM2DMakeRoomForThisGroup ::
  "('r, 'd) menv \<Rightarrow> tickets \<Rightarrow> i32 \<Rightarrow> ptr list \<Rightarrow> 'r \<Rightarrow> MainError + M2DMakeRoomForThisGroup \<times> 'r" where
  "MakeM2DMakeRoomForThisGroup e h mapId ps r =
     bnd (player_infos e h ps r) (\<lambda>(is, r'). Inr (\<lparr>mr_map_id = mapId, mr_player_infos = is\<rparr>, r'))"

definition AllocatePlayers ::
  "('r, 'd) menv \<Rightarrow> tickets \<Rightarrow> ptr list \<Rightarrow> 'r \<Rightarrow> M2DSession \<Rightarrow> MainError + bool \<times> 'r \<times> M2DSession" where
  "AllocatePlayers e h ticketVec r s =
     (if int (length ticketVec) \<le> GetAffordablePlayers s \<and> md_state s \<noteq> Terminated then
        case ticketVec of [] \<Rightarrow> Inl WildIndex
        | p # _ \<Rightarrow>
            bnd (MakeM2DMakeRoomForThisGroup e h (mt_mapId (tk h p)) ticketVec r) (\<lambda>(pkt, r').
              let s1 = s\<lparr>md_allocatedPlayers := md_allocatedPlayers s + int (length ticketVec),
                         md_tempMatchPkts := md_tempMatchPkts s @ [pkt]\<rparr>
              in Inr (True, r', if md_state s1 = Ready then FlushPendingTickets s1 else s1))
      else Inr (False, r, s))"

section \<open>State of the main process\<close>

record SlotRow =
  sr_itemId :: u32
  sr_slotIndex :: i32
  sr_quantity :: i32

datatype PendingDBRequest =
  UpdateEntryTokenRequest i32 "string list" "i32 list" "string list" "i32 list" i32
| NotifyPlayerLeftRequest i32 i32 LeaveReason "SlotRow list"

record ('r, 'd) main =
  mn_redis :: 'r
  mn_mysql :: 'd
  mn_pool :: TicketPool
  mn_matchmakers :: "MatchMaker list"
  mn_dediSessions :: "(i32, M2DSession) hmap"
  mn_sessionFd2pid :: "(i32, i32) hmap"
  mn_tempSessions :: "i32 list"
  mn_lastTimeMatchStarted :: int
  mn_requestQueue :: "PendingDBRequest list"
  mn_reads :: nat
  mn_forks :: nat

definition MAP_MAX :: i32 where
  "MAP_MAX = 2"

definition MAX_AGRESSION :: i32 where
  "MAX_AGRESSION = 20"

definition MakeDediManager :: "'r \<Rightarrow> 'd \<Rightarrow> ('r, 'd) main" where
  "MakeDediManager r d =
     \<lparr>mn_redis = r, mn_mysql = d, mn_pool = \<lparr>tp_live = [], tp_pool = [], tp_fresh = 1\<rparr>,
      mn_matchmakers = map (\<lambda>i. MakeMatchMaker (int i) MAX_AGRESSION) [0..<nat MAP_MAX],
      mn_dediSessions = [], mn_sessionFd2pid = [], mn_tempSessions = [], mn_lastTimeMatchStarted = 0,
      mn_requestQueue = [], mn_reads = 0, mn_forks = 0\<rparr>"

definition mn_tickets :: "('r, 'd) main \<Rightarrow> tickets" where
  "mn_tickets m = tp_live (mn_pool m)"

definition set_tickets :: "tickets \<Rightarrow> ('r, 'd) main \<Rightarrow> ('r, 'd) main" where
  "set_tickets h m = m\<lparr>mn_pool := (mn_pool m)\<lparr>tp_live := h\<rparr>\<rparr>"

section \<open>The manager of the dedicated processes\<close>

definition DediManager_AddSingleMatchTicket :: "ptr \<Rightarrow> ('r, 'd) main \<Rightarrow> ('r, 'd) main \<times> bool" where
  "DediManager_AddSingleMatchTicket p m =
     (let mid = mt_mapId (tk (mn_tickets m) p) in
      if 0 \<le> mid \<and> mid < MAP_MAX then
        (m\<lparr>mn_matchmakers := (mn_matchmakers m)[nat mid := AddSingleMatchTicket p (mn_matchmakers m ! nat mid)]\<rparr>, True)
      else (m, False))"

text \<open>The parent's side of \<open>fork\<close>.\<close>

definition SpawnSingleServer :: "('r, 'd) menv \<Rightarrow> ('r, 'd) main \<Rightarrow> i32 \<times> ('r, 'd) main" where
  "SpawnSingleServer e m =
     (let pid = me_fork e (mn_forks m); m1 = m\<lparr>mn_forks := Suc (mn_forks m)\<rparr> in
      if pid < 0 then (- 1, m1)
      else (pid, m1\<lparr>mn_dediSessions := hm_set pid (MakeM2DSession pid) (mn_dediSessions m1)\<rparr>))"

definition OnAcceptDedi :: "i32 \<Rightarrow> ('r, 'd) main \<Rightarrow> ('r, 'd) main" where
  "OnAcceptDedi fd m = m\<lparr>mn_tempSessions := List.insert fd (mn_tempSessions m)\<rparr>"

definition FinalizeConnection :: "i32 \<Rightarrow> i32 \<Rightarrow> ('r, 'd) main \<Rightarrow> ('r, 'd) main \<times> bool" where
  "FinalizeConnection pid fd m =
     (if fd \<in> set (mn_tempSessions m) \<and> hm_find (mn_dediSessions m) pid \<noteq> None then
        (m\<lparr>mn_dediSessions := hm_mod pid (BindSocket fd) (mn_dediSessions m),
           mn_sessionFd2pid := hm_set fd pid (mn_sessionFd2pid m),
           mn_tempSessions := removeAll fd (mn_tempSessions m)\<rparr>, True)
      else (m, False))"

fun find_available ::
  "('r, 'd) menv \<Rightarrow> tickets \<Rightarrow> ptr list \<Rightarrow> (i32, M2DSession) hmap \<Rightarrow> 'r \<Rightarrow> MainError + bool \<times> 'r \<times> (i32, M2DSession) hmap" where
  "find_available e h ticketVec [] r = Inr (False, r, [])"
| "find_available e h ticketVec ((pid, s) # ss) r =
     bnd (AllocatePlayers e h ticketVec r s) (\<lambda>(ok, r1, s1).
       if ok then Inr (True, r1, (pid, s1) # ss)
       else bnd (find_available e h ticketVec ss r1) (\<lambda>(ok2, r2, ss2). Inr (ok2, r2, (pid, s1) # ss2)))"

definition FindAvailableSessionAndDistributePlayerGroup ::
  "('r, 'd) menv \<Rightarrow> ptr list \<Rightarrow> ('r, 'd) main \<Rightarrow> MainError + bool \<times> ('r, 'd) main" where
  "FindAvailableSessionAndDistributePlayerGroup e ticketVec m =
     bnd (find_available e (mn_tickets m) ticketVec (mn_dediSessions m) (mn_redis m)) (\<lambda>(ok, r, ss).
       Inr (ok, m\<lparr>mn_redis := r, mn_dediSessions := ss\<rparr>))"

definition DistributePlayerGroup_to ::
  "('r, 'd) menv \<Rightarrow> ptr list \<Rightarrow> i32 \<Rightarrow> ('r, 'd) main \<Rightarrow> MainError + bool \<times> ('r, 'd) main" where
  "DistributePlayerGroup_to e ticketVec pid m =
     (case hm_find (mn_dediSessions m) pid of None \<Rightarrow> Inr (False, m)
      | Some s \<Rightarrow>
          bnd (AllocatePlayers e (mn_tickets m) ticketVec (mn_redis m) s) (\<lambda>(ok, r, s').
            Inr (ok, m\<lparr>mn_redis := r, mn_dediSessions := hm_mod pid (\<lambda>_. s') (mn_dediSessions m)\<rparr>)))"

definition DistributePlayerGroup ::
  "('r, 'd) menv \<Rightarrow> ptr list \<Rightarrow> ('r, 'd) main \<Rightarrow> MainError + bool \<times> ('r, 'd) main" where
  "DistributePlayerGroup e ticketVec m =
     bnd (FindAvailableSessionAndDistributePlayerGroup e ticketVec m) (\<lambda>(ok, m1).
       if ok then Inr (True, m1)
       else let (pid, m2) = SpawnSingleServer e m1 in
            if pid = - 1 then Inr (False, m2) else DistributePlayerGroup_to e ticketVec pid m2)"

section \<open>A round of the matchmaker\<close>

text \<open>
  The script run by \<open>VerifyAndSetMatchStatus\<close>, as the source spells it out in Lua, over the
  status fields of the tickets. It is what the parameter \<^term>\<open>rd_eval\<close> is asked to run.
\<close>

definition match_script :: "string list \<Rightarrow> string \<Rightarrow> (string \<Rightarrow> string option) \<Rightarrow> int \<times> (string \<Rightarrow> string option)" where
  "match_script ks arg st =
     (if \<exists>k\<in>set ks. st k \<noteq> Some ''WAITING'' then (0, st)
      else (1, fold (\<lambda>k f. f(k := Some arg)) ks st))"

definition VerifyAndSetMatchStatus :: "('r, 'd) menv \<Rightarrow> ptr list \<Rightarrow> ('r, 'd) main \<Rightarrow> bool \<times> ('r, 'd) main" where
  "VerifyAndSetMatchStatus e g m =
     (if g = [] then (False, m)
      else
        let ks = map (\<lambda>p. mt_ticketId (tk (mn_tickets m) p)) g;
            (x, r) = rd_eval (me_redis e) ks [''INPROGRESS''] (mn_redis m)
        in (x = Some 1, m\<lparr>mn_redis := r\<rparr>))"

text \<open>Nobody had room for the group: its tickets wait again.\<close>

definition undo_group :: "('r, 'd) menv \<Rightarrow> ptr list \<Rightarrow> ('r, 'd) main \<Rightarrow> MainError + ('r, 'd) main" where
  "undo_group e g m =
     (let cmds = map (\<lambda>p. HSet (mt_ticketId (tk (mn_tickets m) p)) [(''status'', ''WAITING'')]) g;
          (ok, r) = rd_pipe (me_redis e) cmds (mn_redis m)
      in if ok then Inr ((set_tickets (set_matched False g (mn_tickets m)) m)\<lparr>mn_redis := r\<rparr>) else Inl RedisException)"

text \<open>Somebody cancelled: who still waits stays in the queue, the others are invalid.\<close>

fun recheck_group :: "('r, 'd) menv \<Rightarrow> ptr list \<Rightarrow> ('r, 'd) main \<Rightarrow> MainError + ('r, 'd) main" where
  "recheck_group e [] m = Inr m"
| "recheck_group e (p # ps) m =
     (let (x, r) = rd_hget (me_redis e) (mt_ticketId (tk (mn_tickets m) p)) ''status'' (mn_redis m) in
      bnd (or_error RedisException x) (\<lambda>statusOpt.
        recheck_group e ps
          ((set_tickets (hm_mod p (\<lambda>t. if statusOpt = Some ''WAITING'' then t\<lparr>mt_isMatched := False\<rparr> else t\<lparr>mt_isValid := False\<rparr>)
              (mn_tickets m)) m)\<lparr>mn_redis := r\<rparr>)))"

definition start_group :: "('r, 'd) menv \<Rightarrow> ptr list \<Rightarrow> ('r, 'd) main \<Rightarrow> MainError + ('r, 'd) main" where
  "start_group e g m =
     (let (isMatchValid, m1) = VerifyAndSetMatchStatus e g m in
      if isMatchValid then
        bnd (DistributePlayerGroup e g m1) (\<lambda>(ok, m2). if ok then Inr m2 else undo_group e g m2)
      else recheck_group e g m1)"

fun StartMatchMakeInternal :: "('r, 'd) menv \<Rightarrow> ptr list list \<Rightarrow> ('r, 'd) main \<Rightarrow> MainError + ('r, 'd) main" where
  "StartMatchMakeInternal e [] m = Inr m"
| "StartMatchMakeInternal e (g # gs) m = bnd (start_group e g m) (StartMatchMakeInternal e gs)"

definition shouldRemove :: "tickets \<Rightarrow> ptr \<Rightarrow> bool" where
  "shouldRemove h p \<longleftrightarrow> mt_isMatched (tk h p) \<or> \<not> mt_isValid (tk h p)"

definition delete_ticket :: "ptr \<Rightarrow> string list \<times> TicketPool \<Rightarrow> string list \<times> TicketPool" where
  "delete_ticket p st =
     (if p = nullptr then st
      else (fst st @ [mt_ticketId (tk (tp_live (snd st)) p)], Release p (snd st)))"

definition ReleaseAndDeleteTickets :: "('r, 'd) menv \<Rightarrow> MatchMaker \<Rightarrow> ('r, 'd) main \<Rightarrow> MatchMaker \<times> ('r, 'd) main" where
  "ReleaseAndDeleteTickets e mm m =
     (let h = mn_tickets m;
          toRelease = mm_ticketsToRelease mm @ filter (matched h) (mm_timeSorted mm);
          toDelete = mm_ticketsToDelete mm @ filter (\<lambda>p. \<not> matched h p \<and> \<not> mt_isValid (tk h p)) (mm_timeSorted mm);
          mm1 = mm\<lparr>mm_timeSorted := filter (\<lambda>p. \<not> shouldRemove h p) (mm_timeSorted mm),
                   mm_bucket := map (filter (\<lambda>p. \<not> shouldRemove h p)) (mm_bucket mm),
                   mm_ticketsToRelease := [], mm_ticketsToDelete := []\<rparr>;
          pool1 = fold Release toRelease (mn_pool m);
          (keys, pool2) = fold delete_ticket toDelete ([], pool1);
          r = (if keys = [] then mn_redis m else snd (rd_del (me_redis e) keys (mn_redis m)))
      in (mm1, m\<lparr>mn_pool := pool2, mn_redis := r\<rparr>))"

definition StartMatchMake :: "('r, 'd) menv \<Rightarrow> nat \<Rightarrow> ('r, 'd) main \<Rightarrow> MainError + ('r, 'd) main" where
  "StartMatchMake e i m =
     bnd (or_error WildIndex (AddNewMatchTickets (mn_tickets m) (mn_matchmakers m ! i))) (\<lambda>mm1.
       let (h, mm2, n) = FindMatchGroup (me_clock e) (mn_reads m) (mn_tickets m) mm1;
           m1 = (set_tickets h m)\<lparr>mn_reads := n\<rparr>
       in bnd (StartMatchMakeInternal e (mm_matchedGroups mm2) m1) (\<lambda>m2.
            let (mm3, m3) = ReleaseAndDeleteTickets e mm2 m2
            in Inr (m3\<lparr>mn_matchmakers := (mn_matchmakers m3)[i := mm3]\<rparr>)))"

fun start_all :: "('r, 'd) menv \<Rightarrow> nat list \<Rightarrow> ('r, 'd) main \<Rightarrow> MainError + ('r, 'd) main" where
  "start_all e [] m = Inr m"
| "start_all e (i # is) m = bnd (StartMatchMake e i m) (start_all e is)"

definition MatchMake :: "('r, 'd) menv \<Rightarrow> ('r, 'd) main \<Rightarrow> MainError + ('r, 'd) main" where
  "MatchMake e m =
     (let now = me_clock e (mn_reads m); m1 = m\<lparr>mn_reads := Suc (mn_reads m)\<rparr> in
      if 4000 \<le> (now - mn_lastTimeMatchStarted m1) sdiv 1000000
      then start_all e [0..<length (mn_matchmakers m1)] (m1\<lparr>mn_lastTimeMatchStarted := now\<rparr>)
      else Inr m1)"

section \<open>Handlers\<close>

text \<open>
  A request for a match. Redis errors are caught; a field that is missing or not a number is
  not (the exceptions of \<open>at\<close> and \<open>stoi\<close>). The \<open>aggression\<close> is not checked.
\<close>

definition Handle_H2M_MatchMake :: "('r, 'd) menv \<Rightarrow> string \<Rightarrow> ('r, 'd) main \<Rightarrow> MainError + bool \<times> ('r, 'd) main" where
  "Handle_H2M_MatchMake e ticketKey m =
     (let (x, r) = rd_hgetall (me_redis e) ticketKey (mn_redis m); m1 = m\<lparr>mn_redis := r\<rparr> in
      case x of None \<Rightarrow> Inr (False, m1)
      | Some [] \<Rightarrow> Inr (False, m1)
      | Some val \<Rightarrow>
          bnd (number_at val ''uid'') (\<lambda>uid.
          bnd (number_at val ''aggression'') (\<lambda>ag.
          bnd (number_at val ''map_id'') (\<lambda>mid.
          bnd (number_at val ''character_type'') (\<lambda>ct.
            let t = MakeMatchTicket ticketKey uid ag mid ct (me_clock e (mn_reads m1));
                (p, pool) = Acquire t (mn_pool m1);
                m2 = m1\<lparr>mn_pool := pool, mn_reads := Suc (mn_reads m1)\<rparr>;
                (m3, ok) = DediManager_AddSingleMatchTicket p m2
            in if ok then Inr (True, m3) else Inr (False, m3\<lparr>mn_pool := Release p (mn_pool m3)\<rparr>))))))"

text \<open>\<open>BindClientIpToSession\<close>: every exception is caught and logged.\<close>

definition BindClientIpToSession :: "('r, 'd) menv \<Rightarrow> string \<Rightarrow> string \<Rightarrow> ('r, 'd) main \<Rightarrow> ('r, 'd) main" where
  "BindClientIpToSession e token ip m =
     (let (x, r) = rd_hget (me_redis e) token ''fd'' (mn_redis m); m1 = m\<lparr>mn_redis := r\<rparr> in
      case Option.bind (Option.bind x id) stoi of None \<Rightarrow> m1
      | Some dediFd \<Rightarrow>
          (case hm_find (mn_sessionFd2pid m1) dediFd of None \<Rightarrow> m1
           | Some pid \<Rightarrow>
               if hm_find (mn_dediSessions m1) pid = None then m1
               else
                 let m2 = m1\<lparr>mn_dediSessions := hm_mod pid (M2DSend (BindIpPkt token ip)) (mn_dediSessions m1)\<rparr>;
                     (y, r2) = rd_hget (me_redis e) token ''ticket'' (mn_redis m2);
                     m3 = m2\<lparr>mn_redis := r2\<rparr>
                 in case y of None \<Rightarrow> m3
                    | Some None \<Rightarrow> m3\<lparr>mn_redis := snd (rd_del (me_redis e) [token] r2)\<rparr>
                    | Some (Some ticketKey) \<Rightarrow> m3\<lparr>mn_redis := snd (rd_del (me_redis e) [token, ticketKey] r2)\<rparr>))"

definition RegisterDBRequest :: "PendingDBRequest \<Rightarrow> ('r, 'd) main \<Rightarrow> ('r, 'd) main" where
  "RegisterDBRequest q m = m\<lparr>mn_requestQueue := mn_requestQueue m @ [q]\<rparr>"

text \<open>
  \<open>reserve\<close> with a negative size throws; an index beyond the repeated fields is undefined.
\<close>

definition Handle_D2M_UpdateEntryToken :: "i32 \<Rightarrow> D2MUpdateEntryToken \<Rightarrow> ('r, 'd) main \<Rightarrow> MainError + bool \<times> ('r, 'd) main" where
  "Handle_D2M_UpdateEntryToken fd pkt m =
     (let n = ut_size pkt in
      if n = - 1 then Inr (False, m)
      else if n < 0 then Inl LengthError
      else if length (ut_ticket_ids pkt) < nat n \<or> length (ut_session_ids pkt) < nat n \<or>
              length (ut_entry_tokens pkt) < nat n \<or> length (ut_security_keys pkt) < nat n then Inl WildIndex
      else Inr (True, RegisterDBRequest
             (UpdateEntryTokenRequest fd (take (nat n) (ut_ticket_ids pkt)) (take (nat n) (ut_session_ids pkt))
                (take (nat n) (ut_entry_tokens pkt)) (take (nat n) (ut_security_keys pkt)) (ut_port pkt)) m))"

definition INVENTORY_SLOT_INDEX_BEGIN :: i32 where
  "INVENTORY_SLOT_INDEX_BEGIN = 80"

definition LOADOUT_SLOT_INDEX_BEGIN :: i32 where
  "LOADOUT_SLOT_INDEX_BEGIN = 105"

definition slot_row :: "i32 \<Rightarrow> IpcItemSlot \<Rightarrow> SlotRow" where
  "slot_row begin s = \<lparr>sr_itemId = is_item_id s, sr_slotIndex = begin + is_slot_index s, sr_quantity = is_quantity s\<rparr>"

definition Handle_D2M_NotifyPlayerLeft :: "i32 \<Rightarrow> D2MNotifyPlayerLeft \<Rightarrow> ('r, 'd) main \<Rightarrow> ('r, 'd) main" where
  "Handle_D2M_NotifyPlayerLeft fd pkt m =
     RegisterDBRequest (NotifyPlayerLeftRequest fd (nl_uid pkt) (nl_reason pkt)
       (map (slot_row INVENTORY_SLOT_INDEX_BEGIN) (nl_inventory pkt) @
        map (slot_row LOADOUT_SLOT_INDEX_BEGIN) (nl_equipment pkt))) m"

definition Handle_D2M_NotifyRoomDestroyed :: "i32 \<Rightarrow> i32 \<Rightarrow> ('r, 'd) main \<Rightarrow> ('r, 'd) main" where
  "Handle_D2M_NotifyRoomDestroyed pid cnt m =
     m\<lparr>mn_dediSessions := hm_mod pid (ReleasePlayers cnt) (mn_dediSessions m)\<rparr>"

section \<open>The database proxy\<close>

text \<open>
  \<open>GetLocalIp\<close> over the interfaces that \<open>getifaddrs\<close> lists: whether the entry is an IPv4
  address, its name and its printed address.
\<close>

fun scan_interfaces :: "string \<Rightarrow> (bool \<times> string \<times> string) list \<Rightarrow> string" where
  "scan_interfaces resultIP [] = resultIP"
| "scan_interfaces resultIP ((inet, ifName, ip) # ifs) =
     (if inet \<and> ifName \<noteq> ''lo'' then if ifName = ''eth0'' then ip else scan_interfaces ip ifs
      else scan_interfaces resultIP ifs)"

definition GetLocalIp :: "(bool \<times> string \<times> string) list \<Rightarrow> string" where
  "GetLocalIp ifs = scan_interfaces ''127.0.0.1'' ifs"

definition serverIp :: "('r, 'd) menv \<Rightarrow> string" where
  "serverIp e = (case me_instanceIp e of Some ip \<Rightarrow> ip | None \<Rightarrow> GetLocalIp (me_interfaces e))"

definition ACTIVE_MATCH_TTL_SEC :: int where
  "ACTIVE_MATCH_TTL_SEC = 900"

text \<open>
  One turn of the loop over the tickets: two reads, then the commands of this ticket for the
  pipeline. \<open>None\<close> is a Redis error, which abandons the whole request.
\<close>

definition entry_cmds ::
  "('r, 'd) menv \<Rightarrow> i32 \<Rightarrow> i32 \<Rightarrow> string \<times> i32 \<times> string \<times> i32 \<Rightarrow> 'r \<Rightarrow> RedisCmd list option \<times> 'r" where
  "entry_cmds e fd port x r =
     (case x of (ticketId, sid, token, key) \<Rightarrow>
        let (lo, r1) = rd_hget (me_redis e) ticketId ''loadout_type'' r in
        case lo of None \<Rightarrow> (None, r1)
        | Some loadoutType \<Rightarrow>
            let (u, r2) = rd_hget (me_redis e) ticketId ''uid'' r1 in
            case u of None \<Rightarrow> (None, r2)
            | Some uid \<Rightarrow>
                (Some
                  ((case uid of None \<Rightarrow> []
                    | Some i \<Rightarrow> [SetEx (''active_match:'' @ i) (''INGAME:'' @ ticketId) ACTIVE_MATCH_TTL_SEC]) @
                   [HSet ticketId [(''status'', ''SUCCESS''), (''token'', token)],
                    HSet token [(''udp_server_ip'', serverIp e), (''port'', to_string port),
                      (''session_id'', to_string sid), (''security_key'', to_string key),
                      (''fd'', to_string fd), (''ticket'', ticketId),
                      (''loadout_type'', case loadoutType of Some l \<Rightarrow> l | None \<Rightarrow> ''FREE'')],
                    Expire token 300]), r2))"

fun entries_cmds ::
  "('r, 'd) menv \<Rightarrow> i32 \<Rightarrow> i32 \<Rightarrow> (string \<times> i32 \<times> string \<times> i32) list \<Rightarrow> 'r \<Rightarrow> RedisCmd list option \<times> 'r" where
  "entries_cmds e fd port [] r = (Some [], r)"
| "entries_cmds e fd port (x # xs) r =
     (case entry_cmds e fd port x r of (None, r1) \<Rightarrow> (None, r1)
      | (Some cs, r1) \<Rightarrow>
          (case entries_cmds e fd port xs r1 of (None, r2) \<Rightarrow> (None, r2)
           | (Some cs2, r2) \<Rightarrow> (Some (cs @ cs2), r2)))"

definition UpdateEntryToken_Execute ::
  "('r, 'd) menv \<Rightarrow> i32 \<Rightarrow> string list \<Rightarrow> i32 list \<Rightarrow> string list \<Rightarrow> i32 list \<Rightarrow> i32 \<Rightarrow> ('r, 'd) main \<Rightarrow> ('r, 'd) main" where
  "UpdateEntryToken_Execute e fd ticketIds sids tokens keys port m =
     (case entries_cmds e fd port (zip ticketIds (zip sids (zip tokens keys))) (mn_redis m) of
        (None, r) \<Rightarrow> m\<lparr>mn_redis := r\<rparr>
      | (Some cmds, r) \<Rightarrow> m\<lparr>mn_redis := snd (rd_pipe (me_redis e) cmds r)\<rparr>)"

text \<open>Statements in sequence; the first exception ends them.\<close>

fun sql_seq :: "('d \<Rightarrow> bool \<times> 'd) list \<Rightarrow> 'd \<Rightarrow> bool \<times> 'd" where
  "sql_seq [] d = (True, d)"
| "sql_seq (f # fs) d = (case f d of (ok, d1) \<Rightarrow> if ok then sql_seq fs d1 else (False, d1))"

definition insert_row :: "'d mysql \<Rightarrow> i32 \<Rightarrow> SlotRow \<Rightarrow> 'd \<Rightarrow> bool \<times> 'd" where
  "insert_row q uid row = sq_update q (InsertInventory uid (to_i32 (sr_itemId row)) (sr_slotIndex row) (sr_quantity row))"

definition ApplyInventoryToDb :: "'d mysql \<Rightarrow> i32 \<Rightarrow> SlotRow list \<Rightarrow> 'd \<Rightarrow> bool \<times> 'd" where
  "ApplyInventoryToDb q uid slots d =
     (if uid < 0 then (True, d)
      else
        let (conn, d0) = sq_get q d in
        if \<not> conn then (False, d0)
        else
          let (ok, d1) = sql_seq
                ([sq_autocommit q False, sq_update q (DeleteInventory uid INVENTORY_SLOT_INDEX_BEGIN)] @
                 map (insert_row q uid) slots @ [sq_commit q, sq_autocommit q True]) d0
          in if ok then (True, d1)
             else (False, snd (sql_seq [sq_rollback q, sq_autocommit q True] d1)))"

definition DB_RETRY_COUNT :: nat where
  "DB_RETRY_COUNT = 2"

fun apply_retry :: "nat \<Rightarrow> 'd mysql \<Rightarrow> i32 \<Rightarrow> SlotRow list \<Rightarrow> 'd \<Rightarrow> bool \<times> 'd" where
  "apply_retry 0 q uid slots d = (False, d)"
| "apply_retry (Suc n) q uid slots d =
     (case ApplyInventoryToDb q uid slots d of (ok, d1) \<Rightarrow> if ok then (True, d1) else apply_retry n q uid slots d1)"

definition NotifyPlayerLeft_Execute :: "('r, 'd) menv \<Rightarrow> i32 \<Rightarrow> SlotRow list \<Rightarrow> ('r, 'd) main \<Rightarrow> ('r, 'd) main" where
  "NotifyPlayerLeft_Execute e uid slots m =
     (let d = snd (apply_retry DB_RETRY_COUNT (me_mysql e) uid slots (mn_mysql m));
          r = snd (rd_del (me_redis e) [''active_match:'' @ to_string uid] (mn_redis m))
      in m\<lparr>mn_mysql := d, mn_redis := r\<rparr>)"

definition Execute :: "('r, 'd) menv \<Rightarrow> PendingDBRequest \<Rightarrow> ('r, 'd) main \<Rightarrow> ('r, 'd) main" where
  "Execute e q m =
     (case q of
        UpdateEntryTokenRequest fd tickets sids tokens keys port \<Rightarrow>
          UpdateEntryToken_Execute e fd tickets sids tokens keys port m
      | NotifyPlayerLeftRequest fd uid reason slots \<Rightarrow> NotifyPlayerLeft_Execute e uid slots m)"

text \<open>The queue is emptied: no request registers another.\<close>

definition ExecuteAll :: "('r, 'd) menv \<Rightarrow> ('r, 'd) main \<Rightarrow> ('r, 'd) main \<times> bool" where
  "ExecuteAll e m =
     (if mn_requestQueue m = [] then (m, False)
      else (fold (Execute e) (mn_requestQueue m) (m\<lparr>mn_requestQueue := []\<rparr>), True))"

end
