(* ===== verification/MatchRound.thy ===== *)
theory MatchRound
  imports MainServer
begin

text \<open>
  The matchmaking rounds of the main process. The ticket pool is an object pool (locale
  \<open>object_pool\<close>, interpreted on \<^const>\<open>Acquire\<close> and \<^const>\<open>Release\<close>); a round works on
  tickets that the pool holds, releases each at most once, and keeps the invariant
  \<open>main_ok\<close> of the process.
\<close>

section \<open>Object pools\<close>

text \<open>
  The contract of a pool: an acquired pointer was not live, a released one is not live
  afterwards, and no other object is touched.
\<close>

locale object_pool =
  fixes valid :: "'s \<Rightarrow> bool"
    and get :: "'s \<Rightarrow> 'p \<Rightarrow> 'v option"
    and acquire :: "'v \<Rightarrow> 's \<Rightarrow> 'p \<times> 's"
    and release :: "'p \<Rightarrow> 's \<Rightarrow> 's"
  assumes acquire_fresh: "valid s \<Longrightarrow> acquire v s = (p, s') \<Longrightarrow> get s p = None"
    and get_acquire: "valid s \<Longrightarrow> acquire v s = (p, s') \<Longrightarrow> get s' q = (if q = p then Some v else get s q)"
    and valid_acquire: "valid s \<Longrightarrow> acquire v s = (p, s') \<Longrightarrow> valid s'"
    and get_release: "valid s \<Longrightarrow> get s p \<noteq> None \<Longrightarrow> get (release p s) q = (if q = p then None else get s q)"
    and valid_release: "valid s \<Longrightarrow> get s p \<noteq> None \<Longrightarrow> valid (release p s)"
begin

lemma release_all:
  assumes "valid s" "distinct ps" "\<And>p. p \<in> set ps \<Longrightarrow> get s p \<noteq> None"
  shows "valid (fold release ps s)" "get (fold release ps s) q = (if q \<in> set ps then None else get s q)"
proof -
  have "valid (fold release ps s) \<and> get (fold release ps s) q = (if q \<in> set ps then None else get s q)"
    using assms
  proof (induction ps arbitrary: s)
    case (Cons p ps)
    have "valid (release p s)" using Cons.prems by (intro valid_release) auto
    moreover have get: "get (release p s) r = (if r = p then None else get s r)" for r
      using Cons.prems by (intro get_release) auto
    moreover have "get s r \<noteq> None" "r \<noteq> p" if "r \<in> set ps" for r
      using Cons.prems(2,3) that by auto
    ultimately have "valid (fold release ps (release p s)) \<and>
        get (fold release ps (release p s)) q = (if q \<in> set ps then None else get (release p s) q)"
      using Cons.prems(2) by (intro Cons.IH) simp_all
    then show ?case using get by simp
  qed simp
  then show "valid (fold release ps s)" "get (fold release ps s) q = (if q \<in> set ps then None else get s q)"
    by auto
qed

lemma release_acquired:
  assumes "valid s" "acquire v s = (p, s')"
  shows "valid (release p s')" "get (release p s') q = get s q"
  using assms acquire_fresh [OF assms] by (auto simp: get_release get_acquire valid_acquire intro!: valid_release)

end

definition pool_ok :: "TicketPool \<Rightarrow> bool" where
  "pool_ok tp \<longleftrightarrow> hm_ok (tp_live tp) \<and> distinct (tp_pool tp) \<and>
     set (tp_pool tp) \<inter> set (hm_keys (tp_live tp)) = {} \<and>
     (\<forall>p\<in>set (tp_pool tp) \<union> set (hm_keys (tp_live tp)). p < tp_fresh tp \<and> p \<noteq> nullptr) \<and> 0 < tp_fresh tp"

definition pool_get :: "TicketPool \<Rightarrow> ptr \<Rightarrow> MatchTicket option" where
  "pool_get tp p = hm_find (tp_live tp) p"

lemma hm_keys_set: "set (hm_keys (hm_set k v m)) = insert k (set (hm_keys m))"
  by (auto simp: hm_set_def) (auto simp: hm_keys_def)

lemma pool_ok_Acquire: "pool_ok tp \<Longrightarrow> Acquire t tp = (p, tp') \<Longrightarrow> pool_ok tp'"
proof (cases "tp_pool tp" rule: rev_cases)
  case Nil
  assume "pool_ok tp" "Acquire t tp = (p, tp')"
  with Nil show ?thesis by (auto simp: pool_ok_def Acquire_def hm_keys_set nullptr_def less_Suc_eq)
next
  case (snoc ps q)
  assume "pool_ok tp" "Acquire t tp = (p, tp')"
  with snoc show ?thesis by (auto simp: pool_ok_def Acquire_def hm_keys_set)
qed

lemma Acquire_fresh: "pool_ok tp \<Longrightarrow> Acquire t tp = (p, tp') \<Longrightarrow> p \<notin> set (hm_keys (tp_live tp))"
  by (cases "tp_pool tp" rule: rev_cases) (auto simp: pool_ok_def Acquire_def)

interpretation ticket_pool: object_pool pool_ok pool_get Acquire Release
proof unfold_locales
  fix s :: TicketPool and v p s' q
  assume s: "pool_ok s"
  show "pool_get s p = None" if "Acquire v s = (p, s')"
    using Acquire_fresh [OF s that] by (simp add: pool_get_def hm_find_None)
  show "pool_get s' q = (if q = p then Some v else pool_get s q)" if "Acquire v s = (p, s')"
    using that by (auto simp: Acquire_def pool_get_def hm_find_set split: if_splits)
  show "pool_ok s'" if "Acquire v s = (p, s')" using pool_ok_Acquire [OF s that] .
  assume "pool_get s p \<noteq> None"
  then have p: "p \<in> set (hm_keys (tp_live s))" by (simp add: pool_get_def hm_find_None)
  then have [simp]: "p \<noteq> nullptr" using s by (auto simp: pool_ok_def)
  show "pool_get (Release p s) q = (if q = p then None else pool_get s q)"
    by (simp add: Release_def pool_get_def hm_find_erase)
  show "pool_ok (Release p s)"
    using s p by (auto simp: pool_ok_def Release_def hm_keys_erase)
qed

section \<open>What a round does to the tickets\<close>

text \<open>Only the two flags of a ticket ever change.\<close>

definition core_ticket :: "MatchTicket \<Rightarrow> MatchTicket" where
  "core_ticket t = t\<lparr>mt_isMatched := False, mt_isValid := True\<rparr>"

definition same_core :: "tickets \<Rightarrow> tickets \<Rightarrow> bool" where
  "same_core h h' \<longleftrightarrow> hm_keys h' = hm_keys h \<and>
     (\<forall>p. map_option core_ticket (hm_find h' p) = map_option core_ticket (hm_find h p))"

lemma same_core_refl [simp]: "same_core h h"
  by (simp add: same_core_def)

lemma same_core_trans: "same_core h h' \<Longrightarrow> same_core h' h'' \<Longrightarrow> same_core h h''"
  by (simp add: same_core_def)

lemma same_core_mod: "(\<And>t. core_ticket (f t) = core_ticket t) \<Longrightarrow> same_core h (hm_mod p f h)"
  by (simp add: same_core_def hm_find_mod option.map_comp comp_def)

lemma same_core_set_matched: "same_core h (set_matched b ps h)"
  by (auto simp: same_core_def hm_find_set_matched option.map_comp comp_def core_ticket_def intro!: map_option_cong)

lemma core_ticketD:
  "core_ticket t = core_ticket u \<Longrightarrow> mt_aggression t = mt_aggression u \<and> mt_startTime t = mt_startTime u \<and>
     mt_ticketId t = mt_ticketId u \<and> mt_mapId t = mt_mapId u"
  by (cases t; cases u) (simp add: core_ticket_def)

lemma same_core_tk:
  assumes "same_core h h'" "p \<in> set (hm_keys h)"
  shows "aggr h' p = aggr h p \<and> started h' p = started h p"
proof -
  obtain t t' where "hm_find h p = Some t" "hm_find h' p = Some t'"
    using assms hm_find_None [of h p] hm_find_None [of h' p] by (auto simp: same_core_def)
  then show ?thesis using assms(1) core_ticketD [of t' t] by (auto simp: same_core_def tk_def) (metis option.inject option.map(2))+
qed

lemma same_core_mm_ok: "same_core h h' \<Longrightarrow> mm_ok h mm \<Longrightarrow> mm_ok h' mm"
  using mm_ok_cong [of h mm h'] same_core_tk [of h h'] by (auto simp: same_core_def [of h h'])

section \<open>Handing a group to a dedicated process\<close>

lemma FlushPendingTickets_eq:
  "FlushPendingTickets s = s\<lparr>md_sent := md_sent s @ map MakeRoomPkt (md_tempMatchPkts s), md_tempMatchPkts := []\<rparr>"
proof -
  have "fold (\<lambda>pkt. M2DSend (MakeRoomPkt pkt)) ps s = s\<lparr>md_sent := md_sent s @ map MakeRoomPkt ps\<rparr>" for ps s
    by (induction ps arbitrary: s) (simp_all add: M2DSend_def)
  then show ?thesis by (simp add: FlushPendingTickets_def)
qed

definition m2d_ok :: "i32 \<Rightarrow> M2DSession \<Rightarrow> bool" where
  "m2d_ok pid s \<longleftrightarrow> md_pid s = pid \<and> 0 \<le> md_allocatedPlayers s \<and> md_allocatedPlayers s \<le> MAX_PLAYER_PER_PROCESS"

definition m2ds_ok :: "(i32, M2DSession) hmap \<Rightarrow> bool" where
  "m2ds_ok ss \<longleftrightarrow> hm_ok ss \<and> (\<forall>x\<in>set ss. m2d_ok (fst x) (snd x))"

lemma AllocatePlayers_result:
  assumes "AllocatePlayers e h g r s = Inr (ok, r', s')"
  shows "m2d_ok pid s \<Longrightarrow> m2d_ok pid s'" "\<not> ok \<Longrightarrow> s' = s \<and> r' = r"
    "ok \<Longrightarrow> md_allocatedPlayers s' = md_allocatedPlayers s + int (length g)"
  using assms
  by (auto simp: AllocatePlayers_def bnd_eq_Inr m2d_ok_def GetAffordablePlayers_def FlushPendingTickets_eq Let_def
      split: if_splits list.splits)

lemma find_available_ok:
  "find_available e h g ss r = Inr (ok, r', ss') \<Longrightarrow>
   hm_keys ss' = hm_keys ss \<and> ((\<forall>x\<in>set ss. m2d_ok (fst x) (snd x)) \<longrightarrow> (\<forall>x\<in>set ss'. m2d_ok (fst x) (snd x)))"
proof (induction ss arbitrary: r ss')
  case (Cons x ss)
  obtain pid s where x: "x = (pid, s)" by (cases x)
  from Cons.prems obtain ok1 r1 s1 where al: "AllocatePlayers e h g r s = Inr (ok1, r1, s1)"
    and rest: "(if ok1 then Inr (True, r1, (pid, s1) # ss)
       else bnd (find_available e h g ss r1) (\<lambda>(ok2, r2, ss2). Inr (ok2, r2, (pid, s1) # ss2))) = Inr (ok, r', ss')"
    by (auto simp: x bnd_eq_Inr)
  note s1 = AllocatePlayers_result(1) [OF al]
  show ?case
  proof (cases ok1)
    case True
    with rest s1 show ?thesis by (auto simp: x hm_keys_def)
  next
    case False
    with rest obtain ss2 where "find_available e h g ss r1 = Inr (ok, r', ss2)" "ss' = (pid, s1) # ss2"
      by (auto simp: bnd_eq_Inr)
    with Cons.IH [of r1 ss2] s1 show ?thesis by (auto simp: x hm_keys_def)
  qed
qed (simp add: hm_keys_def)

lemma hm_mod_all:
  "(\<forall>x\<in>set ss. P (fst x) (snd x)) \<Longrightarrow> (\<And>v. P k v \<Longrightarrow> P k (f v)) \<Longrightarrow> x \<in> set (hm_mod k f ss) \<Longrightarrow> P (fst x) (snd x)"
  by (fastforce simp: hm_mod_def split: if_splits)

lemma m2ds_ok_mod:
  assumes "m2ds_ok ss" "\<And>s. m2d_ok pid s \<Longrightarrow> m2d_ok pid (f s)"
  shows "m2ds_ok (hm_mod pid f ss)"
  using assms hm_mod_all [of ss m2d_ok pid f] by (auto simp: m2ds_ok_def)

lemma m2ds_ok_set:
  assumes "m2ds_ok ss" "m2d_ok pid s"
  shows "m2ds_ok (hm_set pid s ss)"
proof (cases "pid \<in> set (hm_keys ss)")
  case True
  with assms m2ds_ok_mod [of ss pid "\<lambda>_. s"] show ?thesis by (simp add: hm_set_def)
next
  case False
  with assms show ?thesis by (auto simp: hm_set_def m2ds_ok_def hm_ok_def hm_keys_def)
qed

lemma m2d_ok_new [simp]: "m2d_ok pid (MakeM2DSession pid)"
  by (simp add: m2d_ok_def MakeM2DSession_def MAX_PLAYER_PER_PROCESS_def)

text \<open>Distributing a group touches Redis, the sessions and the process table, nothing else.\<close>

definition outside :: "('r, 'd) main \<Rightarrow> 'd \<times> TicketPool \<times> MatchMaker list \<times> (i32, i32) hmap \<times> i32 list \<times> int \<times> PendingDBRequest list \<times> nat" where
  "outside m = (mn_mysql m, mn_pool m, mn_matchmakers m, mn_sessionFd2pid m, mn_tempSessions m,
     mn_lastTimeMatchStarted m, mn_requestQueue m, mn_reads m)"

lemma SpawnSingleServer_frame:
  "SpawnSingleServer e m = (pid, m') \<Longrightarrow>
   outside m' = outside m \<and> (m2ds_ok (mn_dediSessions m) \<longrightarrow> m2ds_ok (mn_dediSessions m'))"
  by (auto simp: SpawnSingleServer_def Let_def outside_def intro!: m2ds_ok_set split: if_splits)

lemma DistributePlayerGroup_to_frame:
  assumes "DistributePlayerGroup_to e g pid m = Inr (ok, m')"
  shows "outside m' = outside m \<and> (m2ds_ok (mn_dediSessions m) \<longrightarrow> m2ds_ok (mn_dediSessions m'))"
proof (cases "hm_find (mn_dediSessions m) pid")
  case (Some s)
  with assms obtain r s' where al: "AllocatePlayers e (mn_tickets m) g (mn_redis m) s = Inr (ok, r, s')"
    and m': "m' = m\<lparr>mn_redis := r, mn_dediSessions := hm_mod pid (\<lambda>_. s') (mn_dediSessions m)\<rparr>"
    by (auto simp: DistributePlayerGroup_to_def bnd_eq_Inr)
  have "m2d_ok pid s" if "m2ds_ok (mn_dediSessions m)"
    using that hm_find_Some_in [OF Some] by (auto simp: m2ds_ok_def)
  then show ?thesis
    using AllocatePlayers_result(1) [OF al, of pid] by (auto simp: m' outside_def intro: m2ds_ok_mod)
qed (use assms in \<open>auto simp: DistributePlayerGroup_to_def\<close>)

lemma DistributePlayerGroup_frame:
  assumes "DistributePlayerGroup e g m = Inr (ok, m')"
  shows "outside m' = outside m \<and> (m2ds_ok (mn_dediSessions m) \<longrightarrow> m2ds_ok (mn_dediSessions m'))"
proof -
  from assms obtain ok1 m1 where f: "FindAvailableSessionAndDistributePlayerGroup e g m = Inr (ok1, m1)"
    and rest: "(if ok1 then Inr (True, m1) else let (pid, m2) = SpawnSingleServer e m1 in
         if pid = - 1 then Inr (False, m2) else DistributePlayerGroup_to e g pid m2) = Inr (ok, m')"
    by (auto simp: DistributePlayerGroup_def bnd_eq_Inr)
  have m1: "outside m1 = outside m \<and> (m2ds_ok (mn_dediSessions m) \<longrightarrow> m2ds_ok (mn_dediSessions m1))"
    using f find_available_ok [of e "mn_tickets m" g "mn_dediSessions m" "mn_redis m"]
    by (fastforce simp: FindAvailableSessionAndDistributePlayerGroup_def bnd_eq_Inr outside_def m2ds_ok_def hm_ok_def)
  show ?thesis
  proof (cases ok1)
    case True
    with rest m1 show ?thesis by simp
  next
    case False
    obtain pid m2 where sp: "SpawnSingleServer e m1 = (pid, m2)" by (cases "SpawnSingleServer e m1")
    with rest False m1 SpawnSingleServer_frame [OF sp] DistributePlayerGroup_to_frame [of e g pid m2 ok m']
    show ?thesis by (auto split: if_splits)
  qed
qed

section \<open>Starting the groups\<close>

text \<open>
  What starting groups leaves alone: everything but Redis, the flags of the tickets, the
  sessions and the count of forks.
\<close>

definition round_frame :: "('r, 'd) main \<Rightarrow> 'd \<times> (ptr list \<times> ptr) \<times> MatchMaker list \<times> (i32, i32) hmap \<times> i32 list \<times> int \<times> PendingDBRequest list \<times> nat" where
  "round_frame m = (mn_mysql m, (tp_pool (mn_pool m), tp_fresh (mn_pool m)), mn_matchmakers m, mn_sessionFd2pid m,
     mn_tempSessions m, mn_lastTimeMatchStarted m, mn_requestQueue m, mn_reads m)"

lemma round_frame_simps [simp]:
  "round_frame (m\<lparr>mn_redis := r\<rparr>) = round_frame m" "round_frame (set_tickets h m) = round_frame m"
  "mn_tickets (m\<lparr>mn_redis := r\<rparr>) = mn_tickets m" "mn_tickets (set_tickets h m) = h"
  "mn_dediSessions (set_tickets h m) = mn_dediSessions m"
  by (simp_all add: round_frame_def set_tickets_def mn_tickets_def)

lemma round_frame_outside: "outside m' = outside m \<Longrightarrow> round_frame m' = round_frame m \<and> mn_tickets m' = mn_tickets m"
  by (simp add: round_frame_def outside_def mn_tickets_def)

definition settles :: "ptr list \<Rightarrow> tickets \<Rightarrow> tickets \<Rightarrow> bool" where
  "settles g h h' \<longleftrightarrow> same_core h h' \<and> (\<forall>q. q \<notin> set g \<longrightarrow> hm_find h' q = hm_find h q) \<and>
     (\<forall>q\<in>set g. mt_isValid (tk h' q) \<or> matched h' q)"

definition pending_group :: "ptr list \<Rightarrow> tickets \<Rightarrow> bool" where
  "pending_group g h \<longleftrightarrow> (\<forall>q\<in>set g. q \<in> set (hm_keys h) \<and> mt_isValid (tk h q) \<and> matched h q)"

lemma tk_mod: "q \<in> set (hm_keys h) \<Longrightarrow> tk (hm_mod p f h) q = (if q = p then f (tk h q) else tk h q)"
  using hm_find_None [of h q] by (auto simp: tk_def hm_find_mod)

lemma recheck_group_settles:
  "recheck_group e g m = Inr m' \<Longrightarrow> distinct g \<Longrightarrow> pending_group g (mn_tickets m) \<Longrightarrow>
   settles g (mn_tickets m) (mn_tickets m') \<and> round_frame m' = round_frame m \<and> mn_dediSessions m' = mn_dediSessions m \<and>
   (\<forall>q\<in>set g. matched (mn_tickets m') q \<longleftrightarrow> \<not> mt_isValid (tk (mn_tickets m') q))"
proof (induction g arbitrary: m)
  case (Cons p ps)
  define h where "h = mn_tickets m"
  from Cons.prems(1) obtain so r where
    rec: "recheck_group e ps ((set_tickets (hm_mod p (\<lambda>t. if so = Some ''WAITING'' then t\<lparr>mt_isMatched := False\<rparr> else t\<lparr>mt_isValid := False\<rparr>) h) m)\<lparr>mn_redis := r\<rparr>) = Inr m'"
    by (auto simp: bnd_eq_Inr h_def split: prod.splits)
  define f where "f = (\<lambda>t :: MatchTicket. if so = Some ''WAITING'' then t\<lparr>mt_isMatched := False\<rparr> else t\<lparr>mt_isValid := False\<rparr>)"
  have p: "p \<in> set (hm_keys h)" "mt_isValid (tk h p)" "matched h p"
    using Cons.prems(3) by (auto simp: pending_group_def h_def)
  have c: "same_core h (hm_mod p f h)" by (rule same_core_mod) (simp add: f_def core_ticket_def)
  have "pending_group ps (hm_mod p f h)"
    using Cons.prems(2,3) by (auto simp: pending_group_def h_def [symmetric] tk_mod)
  then have IH: "settles ps (hm_mod p f h) (mn_tickets m')" "round_frame m' = round_frame m" "mn_dediSessions m' = mn_dediSessions m"
    and fl: "\<forall>q\<in>set ps. matched (mn_tickets m') q \<longleftrightarrow> \<not> mt_isValid (tk (mn_tickets m') q)"
    using Cons.IH [OF rec [folded f_def]] Cons.prems(2) by auto
  have "hm_find (mn_tickets m') p = hm_find (hm_mod p f h) p"
    using IH(1) Cons.prems(2) by (simp add: settles_def)
  then have t: "tk (mn_tickets m') p = f (tk h p)" using tk_mod [OF p(1), of p f] by (simp add: tk_def)
  then have "settles (p # ps) h (mn_tickets m')"
    using IH(1) c p by (auto simp: settles_def hm_find_mod f_def intro: same_core_trans)
  then show ?case using IH(2,3) fl t p by (simp add: h_def f_def)
qed (simp add: settles_def)

lemma start_group_settles:
  assumes g: "start_group e g m = Inr m'" "distinct g" "pending_group g (mn_tickets m)"
  shows "settles g (mn_tickets m) (mn_tickets m') \<and> round_frame m' = round_frame m \<and>
    (m2ds_ok (mn_dediSessions m) \<longrightarrow> m2ds_ok (mn_dediSessions m'))"
proof -
  obtain v m1 where v: "VerifyAndSetMatchStatus e g m = (v, m1)" by (cases "VerifyAndSetMatchStatus e g m")
  then have m1: "mn_tickets m1 = mn_tickets m" "round_frame m1 = round_frame m" "mn_dediSessions m1 = mn_dediSessions m"
    by (auto simp: VerifyAndSetMatchStatus_def Let_def split: if_splits prod.splits)
  have refl: "settles g (mn_tickets m) (mn_tickets m)" using g(3) by (auto simp: settles_def pending_group_def)
  show ?thesis
  proof (cases v)
    case False
    then have "recheck_group e g m1 = Inr m'" using g(1) by (simp add: start_group_def v)
    from recheck_group_settles [OF this g(2)] g(3) show ?thesis by (simp add: m1)
  next
    case True
    with g(1) obtain ok m2 where d: "DistributePlayerGroup e g m1 = Inr (ok, m2)"
      and rest: "(if ok then Inr m2 else undo_group e g m2) = Inr m'"
      by (auto simp: start_group_def v bnd_eq_Inr)
    have m2: "mn_tickets m2 = mn_tickets m" "round_frame m2 = round_frame m"
      "m2ds_ok (mn_dediSessions m) \<longrightarrow> m2ds_ok (mn_dediSessions m2)"
      using DistributePlayerGroup_frame [OF d] round_frame_outside [of m2 m1] m1 by auto
    show ?thesis
    proof (cases ok)
      case True
      with rest m2 refl show ?thesis by simp
    next
      case False
      with rest obtain r where m': "m' = (set_tickets (set_matched False g (mn_tickets m2)) m2)\<lparr>mn_redis := r\<rparr>"
        by (auto simp: undo_group_def Let_def split: prod.splits if_splits)
      have "mt_isValid (tk (set_matched False g (mn_tickets m)) q)" if "q \<in> set g" for q
        using g(3) that hm_find_None [of "mn_tickets m" q]
        by (auto simp: tk_def hm_find_set_matched pending_group_def)
      then have "settles g (mn_tickets m) (set_matched False g (mn_tickets m))"
        by (auto simp: settles_def same_core_set_matched hm_find_set_matched)
      then show ?thesis using m2 by (simp add: m')
    qed
  qed
qed

lemma settles_pending:
  assumes "settles g h h'" "pending_group g' h" "set g \<inter> set g' = {}"
  shows "pending_group g' h'"
proof -
  have "hm_find h' q = hm_find h q" "hm_keys h' = hm_keys h" if "q \<in> set g'" for q
    using assms(1,3) that by (auto simp: settles_def same_core_def)
  then show ?thesis using assms(2) by (auto simp: pending_group_def tk_def)
qed

lemma settles_append:
  assumes "settles g h h1" "settles g' h1 h2" "set g \<inter> set g' = {}"
  shows "settles (g @ g') h h2"
proof -
  have "tk h2 q = tk h1 q" if "q \<in> set g" for q
    using assms(2,3) that by (auto simp: settles_def tk_def)
  then show ?thesis using assms by (auto simp: settles_def intro: same_core_trans)
qed

lemma StartMatchMakeInternal_settles:
  "StartMatchMakeInternal e gs m = Inr m' \<Longrightarrow> distinct (concat gs) \<Longrightarrow> pending_group (concat gs) (mn_tickets m) \<Longrightarrow>
   settles (concat gs) (mn_tickets m) (mn_tickets m') \<and> round_frame m' = round_frame m \<and>
   (m2ds_ok (mn_dediSessions m) \<longrightarrow> m2ds_ok (mn_dediSessions m'))"
proof (induction gs arbitrary: m)
  case (Cons g gs)
  from Cons.prems(1) obtain m1 where m1: "start_group e g m = Inr m1" "StartMatchMakeInternal e gs m1 = Inr m'"
    by (auto simp: bnd_eq_Inr)
  have g: "distinct g" "pending_group g (mn_tickets m)" "set g \<inter> set (concat gs) = {}"
    "pending_group (concat gs) (mn_tickets m)"
    using Cons.prems(2,3) by (auto simp: pending_group_def)
  note s = start_group_settles [OF m1(1) g(1,2)]
  have "pending_group (concat gs) (mn_tickets m1)" using settles_pending [OF _ g(4,3)] s by blast
  with Cons.IH [OF m1(2)] Cons.prems(2)
  have IH: "settles (concat gs) (mn_tickets m1) (mn_tickets m') \<and> round_frame m' = round_frame m1 \<and>
      (m2ds_ok (mn_dediSessions m1) \<longrightarrow> m2ds_ok (mn_dediSessions m'))" by simp
  then show ?case using s settles_append [OF _ _ g(3)] by auto
qed (simp add: settles_def)

section \<open>The invariant of the main process\<close>

definition owned :: "MatchMaker \<Rightarrow> ptr set" where
  "owned mm = set (mm_timeSorted mm) \<union> set (mm_ticketsToAdd mm)"

text \<open>
  Between two events: the pool is sound; the matchmakers are well formed and own the live
  tickets, each ticket belonging to one of them; every live ticket is valid and not matched;
  no dedicated process has more players than it may have.
\<close>

definition main_ok :: "('r, 'd) main \<Rightarrow> bool" where
  "main_ok m \<longleftrightarrow>
     pool_ok (mn_pool m) \<and> length (mn_matchmakers m) = nat MAP_MAX \<and>
     (\<forall>mm\<in>set (mn_matchmakers m). mm_ok (mn_tickets m) mm \<and> mm_ticketsToRelease mm = [] \<and> mm_ticketsToDelete mm = []) \<and>
     (\<forall>i<length (mn_matchmakers m). \<forall>j<length (mn_matchmakers m). i \<noteq> j \<longrightarrow>
        owned (mn_matchmakers m ! i) \<inter> owned (mn_matchmakers m ! j) = {}) \<and>
     set (hm_keys (mn_tickets m)) = (\<Union>mm\<in>set (mn_matchmakers m). owned mm) \<and>
     (\<forall>p\<in>set (hm_keys (mn_tickets m)). mt_isValid (tk (mn_tickets m) p) \<and> \<not> matched (mn_tickets m) p) \<and>
     m2ds_ok (mn_dediSessions m)"

lemma mm_ok_filter:
  assumes "mm_ok h mm"
    and "\<And>p. p \<in> set (mm_ticketsToAdd mm) \<Longrightarrow> p \<in> set (hm_keys h')"
    and "\<And>p. p \<in> set (mm_timeSorted mm) \<Longrightarrow> P p \<Longrightarrow>
      p \<in> set (hm_keys h') \<and> aggr h' p = aggr h p \<and> started h' p = started h p"
  shows "mm_ok h' (mm\<lparr>mm_timeSorted := filter P (mm_timeSorted mm), mm_bucket := map (filter P) (mm_bucket mm)\<rparr>)"
proof -
  have "sorted (map (started h) (filter P (mm_timeSorted mm)))"
    using assms(1) by (auto simp: mm_ok_def intro: sorted_filter)
  also have "map (started h) (filter P (mm_timeSorted mm)) = map (started h') (filter P (mm_timeSorted mm))"
    using assms(3) by (intro map_cong) auto
  finally have "sorted (map (started h') (filter P (mm_timeSorted mm)))" .
  then show ?thesis using assms by (auto simp: mm_ok_def in_range_def)
qed

lemma mm_ok_local:
  assumes "mm_ok h mm" "\<And>p. p \<in> owned mm \<Longrightarrow> p \<in> set (hm_keys h') \<and> aggr h' p = aggr h p \<and> started h' p = started h p"
  shows "mm_ok h' mm"
proof -
  have "map (filter (\<lambda>_. True)) b = b" for b :: "ptr list list" by (induction b) auto
  then show ?thesis using mm_ok_filter [OF assms(1), of h' "\<lambda>_. True"] assms(2) by (simp add: owned_def)
qed

lemma mm_ok_live: "mm_ok h mm \<Longrightarrow> owned mm \<subseteq> set (hm_keys h)"
  by (auto simp: mm_ok_def owned_def in_range_def)

text \<open>The tickets after the round of one matchmaker has formed and started its groups.\<close>

lemma round_tickets:
  assumes q: "q \<in> set (hm_keys h)" "mt_isValid (tk h q)" "\<not> matched h q"
    and m: "mark_grouped gs h h1" and s: "settles (concat gs) h1 h2"
  shows "mt_isValid (tk h2 q) \<or> matched h2 q" "q \<notin> set (concat gs) \<Longrightarrow> tk h2 q = tk h q"
proof -
  show same: "tk h2 q = tk h q" if "q \<notin> set (concat gs)"
    using s that q(3) mark_grouped_tk [OF m q(1)] by (auto simp: settles_def tk_def)
  show "mt_isValid (tk h2 q) \<or> matched h2 q"
    using s q(2) same by (cases "q \<in> set (concat gs)") (auto simp: settles_def)
qed

lemma ReleaseAndDelete_result:
  assumes mm: "mm_ok (mn_tickets m) mm" "mm_ticketsToRelease mm = []" "mm_ticketsToDelete mm = []"
    and pool: "pool_ok (mn_pool m)"
    and v: "\<forall>q\<in>set (mm_timeSorted mm). mt_isValid (tk (mn_tickets m) q) \<or> matched (mn_tickets m) q"
    and r: "ReleaseAndDeleteTickets e mm m = (mm', m')"
  shows "pool_ok (mn_pool m')"
    "hm_find (mn_tickets m') q = (if q \<in> set (mm_timeSorted mm) \<and> matched (mn_tickets m) q then None else hm_find (mn_tickets m) q)"
    "m' = m\<lparr>mn_pool := mn_pool m'\<rparr>"
    "mm' = mm\<lparr>mm_timeSorted := filter (\<lambda>p. \<not> matched (mn_tickets m) p) (mm_timeSorted mm),
       mm_bucket := map (filter (\<lambda>p. \<not> matched (mn_tickets m) p)) (mm_bucket mm)\<rparr>"
proof -
  let ?R = "filter (matched (mn_tickets m)) (mm_timeSorted mm)"
  have none: "filter (\<lambda>p. \<not> matched (mn_tickets m) p \<and> \<not> mt_isValid (tk (mn_tickets m) p)) (mm_timeSorted mm) = []"
    using v by (auto simp: filter_empty_conv)
  have rm: "shouldRemove (mn_tickets m) p \<longleftrightarrow> matched (mn_tickets m) p" if "p \<in> set (mm_timeSorted mm)" for p
    using v that by (auto simp: shouldRemove_def)
  have b: "filter (\<lambda>p. \<not> shouldRemove (mn_tickets m) p) x = filter (\<lambda>p. \<not> matched (mn_tickets m) p) x"
    if "x \<in> set (mm_bucket mm)" for x
    using that mm(1) rm by (auto simp: mm_ok_def in_set_conv_nth intro!: filter_cong)
  have m': "m' = m\<lparr>mn_pool := fold Release ?R (mn_pool m)\<rparr>"
    using r by (auto simp: ReleaseAndDeleteTickets_def mm(2,3) none Let_def)
  then show "m' = m\<lparr>mn_pool := mn_pool m'\<rparr>" by simp
  show "mm' = mm\<lparr>mm_timeSorted := filter (\<lambda>p. \<not> matched (mn_tickets m) p) (mm_timeSorted mm),
       mm_bucket := map (filter (\<lambda>p. \<not> matched (mn_tickets m) p)) (mm_bucket mm)\<rparr>"
    using r b rm by (auto simp: ReleaseAndDeleteTickets_def mm(2,3) none Let_def cong: filter_cong)
  have live: "pool_get (mn_pool m) p \<noteq> None" if "p \<in> set ?R" for p
    using mm_okD(6) [OF mm(1), of p] that by (simp add: pool_get_def hm_find_None mn_tickets_def)
  have d: "distinct ?R" using mm(1) by (simp add: mm_ok_def)
  note rel = ticket_pool.release_all [OF pool d live]
  show "pool_ok (mn_pool m')" using rel(1) by (simp add: m')
  show "hm_find (mn_tickets m') q = (if q \<in> set (mm_timeSorted mm) \<and> matched (mn_tickets m) q then None else hm_find (mn_tickets m) q)"
    using rel(2) [of q] by (simp add: m' mn_tickets_def pool_get_def)
qed

lemma pool_ok_live:
  "pool_ok tp \<Longrightarrow> hm_keys h = hm_keys (tp_live tp) \<Longrightarrow> tp_pool tp' = tp_pool tp \<Longrightarrow> tp_fresh tp' = tp_fresh tp \<Longrightarrow>
   tp_live tp' = h \<Longrightarrow> pool_ok tp'"
  by (simp add: pool_ok_def hm_ok_def)

lemma main_okD:
  assumes "main_ok m"
  shows "pool_ok (mn_pool m)" "length (mn_matchmakers m) = nat MAP_MAX"
    "i < length (mn_matchmakers m) \<Longrightarrow> mm_ok (mn_tickets m) (mn_matchmakers m ! i)"
    "i < length (mn_matchmakers m) \<Longrightarrow> mm_ticketsToRelease (mn_matchmakers m ! i) = []"
    "i < length (mn_matchmakers m) \<Longrightarrow> mm_ticketsToDelete (mn_matchmakers m ! i) = []"
    "i < length (mn_matchmakers m) \<Longrightarrow> j < length (mn_matchmakers m) \<Longrightarrow> i \<noteq> j \<Longrightarrow>
       owned (mn_matchmakers m ! i) \<inter> owned (mn_matchmakers m ! j) = {}"
    "set (hm_keys (mn_tickets m)) = (\<Union>mm\<in>set (mn_matchmakers m). owned mm)"
    "p \<in> set (hm_keys (mn_tickets m)) \<Longrightarrow> mt_isValid (tk (mn_tickets m) p)"
    "p \<in> set (hm_keys (mn_tickets m)) \<Longrightarrow> \<not> matched (mn_tickets m) p"
    "m2ds_ok (mn_dediSessions m)"
  using assms by (simp_all add: main_ok_def)

text \<open>The stages of a round.\<close>

lemma StartMatchMake_stages:
  assumes "StartMatchMake e i m = Inr m'"
  obtains mm1 h1 mm2 n m2 mm3 m3 where
    "AddNewMatchTickets (mn_tickets m) (mn_matchmakers m ! i) = Some mm1"
    "FindMatchGroup (me_clock e) (mn_reads m) (mn_tickets m) mm1 = (h1, mm2, n)"
    "StartMatchMakeInternal e (mm_matchedGroups mm2) ((set_tickets h1 m)\<lparr>mn_reads := n\<rparr>) = Inr m2"
    "ReleaseAndDeleteTickets e mm2 m2 = (mm3, m3)"
    "m' = m3\<lparr>mn_matchmakers := (mn_matchmakers m3)[i := mm3]\<rparr>"
  using assms
  by (auto simp: StartMatchMake_def bnd_eq_Inr or_error_eq_Inr Let_def split: prod.splits) (metis prod.exhaust)+

lemma core_ticket_id: "mt_isValid t \<Longrightarrow> \<not> mt_isMatched t \<Longrightarrow> core_ticket t = t"
  by (cases t) (simp add: core_ticket_def)

lemma mark_grouped_same_core: "mark_grouped gs h h' \<Longrightarrow> same_core h h'"
  by (auto simp: mark_grouped_def same_core_def option.map_comp comp_def core_ticket_def intro!: map_option_cong)

lemma waiting_unchanged:
  assumes "same_core h h'" "q \<in> set (hm_keys h)"
    "mt_isValid (tk h q)" "\<not> matched h q" "mt_isValid (tk h' q)" "\<not> matched h' q"
  shows "hm_find h' q = hm_find h q"
proof -
  obtain t t' where t: "hm_find h q = Some t" "hm_find h' q = Some t'"
    using assms(1,2) hm_find_None [of h q] hm_find_None [of h' q] by (auto simp: same_core_def)
  then have "core_ticket t' = core_ticket t" using assms(1) by (metis same_core_def option.inject option.map(2))
  then show ?thesis using assms(3-6) t by (simp add: tk_def core_ticket_id)
qed

text \<open>Up to the release: the queue is what the matchmaker owns, and the tickets are settled.\<close>

lemma round_started:
  assumes mm: "mm_ok h mm" "mm_ticketsToRelease mm = []" "mm_ticketsToDelete mm = []"
    and w: "\<forall>q\<in>owned mm. mt_isValid (tk h q) \<and> \<not> matched h q"
    and a: "AddNewMatchTickets h mm = Some mm1" and f: "FindMatchGroup clk k h mm1 = (h1, mm2, n)"
    and s: "StartMatchMakeInternal e (mm_matchedGroups mm2) m1 = Inr m2" and m1: "mn_tickets m1 = h1"
  shows "mm_ok (mn_tickets m2) mm2" "mm_ticketsToRelease mm2 = []" "mm_ticketsToDelete mm2 = []"
    "mm_ticketsToAdd mm2 = []" "set (mm_timeSorted mm2) = owned mm" "same_core h (mn_tickets m2)"
    "q \<in> owned mm \<Longrightarrow> mt_isValid (tk (mn_tickets m2) q) \<or> matched (mn_tickets m2) q"
    "q \<notin> owned mm \<Longrightarrow> hm_find (mn_tickets m2) q = hm_find h q"
    "round_frame m2 = round_frame m1" "m2ds_ok (mn_dediSessions m1) \<Longrightarrow> m2ds_ok (mn_dediSessions m2)"
proof -
  note add = mm_ok_AddNew [OF mm(1) a] and gr = FindMatchGroup_grouping [OF mm_ok_AddNew(1) [OF mm(1) a] f]
  let ?gs = "concat (mm_matchedGroups mm2)"
  show "mm_ticketsToRelease mm2 = []" "mm_ticketsToDelete mm2 = []" "mm_ticketsToAdd mm2 = []"
    using arg_cong [OF gr(4), of mm_ticketsToRelease] arg_cong [OF gr(4), of mm_ticketsToDelete]
      arg_cong [OF gr(4), of mm_ticketsToAdd] arg_cong [OF add(4), of mm_ticketsToRelease]
      arg_cong [OF add(4), of mm_ticketsToDelete] mm(2,3) add(2) by simp_all
  have q1: "set (mm_timeSorted mm1) = owned mm" using add(3) by (simp add: owned_def)
  show "set (mm_timeSorted mm2) = owned mm" using arg_cong [OF gr(4), of mm_timeSorted] q1 by simp
  have sub: "set ?gs \<subseteq> owned mm" using gr(3) q1 by (auto simp: rule_group_def)
  have live: "r \<in> set (hm_keys h)" if "r \<in> owned mm" for r using mm_ok_live [OF mm(1)] that by blast
  have "r \<in> set (hm_keys h1) \<and> mt_isValid (tk h1 r) \<and> matched h1 r" if r: "r \<in> set ?gs" for r
  proof -
    have "r \<in> owned mm" using sub r by blast
    then show ?thesis using mark_grouped_tk [OF gr(1) live] w gr(1) live r by (auto simp: mark_grouped_def)
  qed
  then have "pending_group ?gs h1" by (simp add: pending_group_def)
  then have st: "settles ?gs h1 (mn_tickets m2)" and fr: "round_frame m2 = round_frame m1"
    and ss: "m2ds_ok (mn_dediSessions m1) \<longrightarrow> m2ds_ok (mn_dediSessions m2)"
    using StartMatchMakeInternal_settles [OF s gr(2)] by (simp_all add: m1)
  show "round_frame m2 = round_frame m1" "m2ds_ok (mn_dediSessions m1) \<Longrightarrow> m2ds_ok (mn_dediSessions m2)"
    using fr ss by simp_all
  have core: "same_core h1 (mn_tickets m2)" using st by (simp add: settles_def)
  show "mm_ok (mn_tickets m2) mm2" using same_core_mm_ok [OF core gr(5)] .
  show "same_core h (mn_tickets m2)" using same_core_trans [OF mark_grouped_same_core [OF gr(1)] core] .
  show "mt_isValid (tk (mn_tickets m2) q) \<or> matched (mn_tickets m2) q" if "q \<in> owned mm"
    using round_tickets(1) [OF live [OF that] _ _ gr(1) st] w that by blast
  show "hm_find (mn_tickets m2) q = hm_find h q" if "q \<notin> owned mm"
  proof -
    have "q \<notin> set ?gs" using sub that by blast
    then have "hm_find (mn_tickets m2) q = hm_find h1 q" using st by (simp add: settles_def)
    also have "\<dots> = hm_find h q" using gr(1) \<open>q \<notin> set ?gs\<close> by (simp add: mark_grouped_def option.map_ident)
    finally show ?thesis .
  qed
qed

text \<open>
  One round of matchmaker \<open>i\<close>: it keeps some of its tickets, unchanged and unmatched, and
  releases the others.
\<close>

lemma StartMatchMake_result:
  assumes ok: "main_ok m" and i: "i < length (mn_matchmakers m)" and r: "StartMatchMake e i m = Inr m'"
  obtains mm' where "mn_matchmakers m' = (mn_matchmakers m)[i := mm']"
    "owned mm' \<subseteq> owned (mn_matchmakers m ! i)"
    "mm_ok (mn_tickets m') mm'" "mm_ticketsToRelease mm' = []" "mm_ticketsToDelete mm' = []" "pool_ok (mn_pool m')"
    "\<And>q. hm_find (mn_tickets m') q =
       (if q \<in> owned (mn_matchmakers m ! i) - owned mm' then None else hm_find (mn_tickets m) q)"
    "m2ds_ok (mn_dediSessions m')"
proof -
  let ?h = "mn_tickets m" and ?mm = "mn_matchmakers m ! i"
  from r obtain mm1 h1 mm2 n m2 mm3 m3 where
    st: "AddNewMatchTickets ?h ?mm = Some mm1" "FindMatchGroup (me_clock e) (mn_reads m) ?h mm1 = (h1, mm2, n)"
      "StartMatchMakeInternal e (mm_matchedGroups mm2) ((set_tickets h1 m)\<lparr>mn_reads := n\<rparr>) = Inr m2"
    and rd: "ReleaseAndDeleteTickets e mm2 m2 = (mm3, m3)"
    and m': "m' = m3\<lparr>mn_matchmakers := (mn_matchmakers m3)[i := mm3]\<rparr>"
    by (rule StartMatchMake_stages)
  have mm: "mm_ok ?h ?mm" "mm_ticketsToRelease ?mm = []" "mm_ticketsToDelete ?mm = []"
    using main_okD(3-5) [OF ok i] .
  have w: "\<forall>q\<in>owned ?mm. mt_isValid (tk ?h q) \<and> \<not> matched ?h q" and live: "owned ?mm \<subseteq> set (hm_keys ?h)"
    using mm_ok_live [OF mm(1)] main_okD(8,9) [OF ok] by auto
  have h1: "mn_tickets ((set_tickets h1 m)\<lparr>mn_reads := n\<rparr>) = h1" by (simp add: mn_tickets_def set_tickets_def)
  note rs = round_started [OF mm w st h1]
  have pool: "pool_ok (mn_pool m2)"
  proof (rule pool_ok_live [OF main_okD(1) [OF ok]])
    show "hm_keys (mn_tickets m2) = hm_keys (tp_live (mn_pool m))"
      using rs(6) by (simp add: same_core_def mn_tickets_def)
  qed (use rs(9) in \<open>simp_all add: round_frame_def set_tickets_def mn_tickets_def\<close>)
  have v: "\<forall>q\<in>set (mm_timeSorted mm2). mt_isValid (tk (mn_tickets m2) q) \<or> matched (mn_tickets m2) q"
    using rs(7) by (simp add: rs(5))
  note rel = ReleaseAndDelete_result [OF rs(1,2,3) pool v rd]
  have "owned mm3 = set (filter (\<lambda>q. \<not> matched (mn_tickets m2) q) (mm_timeSorted mm2))"
    by (simp add: owned_def rel(4) rs(4))
  then have own: "owned mm3 = {q\<in>owned ?mm. \<not> matched (mn_tickets m2) q}" by (simp add: rs(5))
  have tm: "mn_tickets m' = mn_tickets m3" by (simp add: m' mn_tickets_def)
  have find: "hm_find (mn_tickets m') q =
      (if q \<in> owned ?mm - owned mm3 then None else hm_find ?h q)" for q
  proof (cases "q \<in> owned mm3")
    case True
    then have q: "q \<in> owned ?mm" "\<not> matched (mn_tickets m2) q" by (simp_all add: own)
    then have "hm_find (mn_tickets m2) q = hm_find ?h q"
      using w live q(1) rs(7) [OF q(1)] by (intro waiting_unchanged [OF rs(6)]) auto
    then show ?thesis using True q by (simp add: tm rel(2))
  next
    case False
    then show ?thesis using rs(8) [of q] by (auto simp: tm rel(2) rs(5) own)
  qed
  have "mm_ok (mn_tickets m') mm3"
    unfolding rel(4)
  proof (rule mm_ok_filter [OF rs(1)])
    fix p assume "p \<in> set (mm_timeSorted mm2)" "\<not> matched (mn_tickets m2) p"
    then have "hm_find (mn_tickets m') p = hm_find (mn_tickets m2) p" "p \<in> set (hm_keys (mn_tickets m2))"
      using mm_okD(6) [OF rs(1)] by (simp_all add: tm rel(2))
    then show "p \<in> set (hm_keys (mn_tickets m')) \<and> aggr (mn_tickets m') p = aggr (mn_tickets m2) p \<and>
        started (mn_tickets m') p = started (mn_tickets m2) p"
      using hm_find_None [of "mn_tickets m'" p] hm_find_None [of "mn_tickets m2" p] by (simp add: tk_def)
  qed (simp add: rs(4))
  moreover have "mn_matchmakers m' = (mn_matchmakers m)[i := mm3]"
    using rs(9) arg_cong [OF rel(3), of mn_matchmakers] by (simp add: m' round_frame_def set_tickets_def)
  moreover have "m2ds_ok (mn_dediSessions m')"
    using main_okD(10) [OF ok] rs(10) arg_cong [OF rel(3), of mn_dediSessions] by (simp add: m' set_tickets_def)
  ultimately show thesis using own find rel(1) rs(2,3) rel(4) by (intro that [of mm3]) (auto simp: m')
qed

lemma hm_find_keys: "q \<in> set (hm_keys h) \<longleftrightarrow> hm_find h q \<noteq> None"
  by (simp add: hm_find_None)

lemma Union_owned_update:
  "i < length xs \<Longrightarrow> (\<Union>x\<in>set (xs[i := y]). f x) = f y \<union> (\<Union>j\<in>{..<length xs} - {i}. f (xs ! j))"
  by (fastforce simp: set_conv_nth nth_list_update split: if_splits)

lemma Union_owned_nth: "i < length xs \<Longrightarrow> (\<Union>x\<in>set xs. f x) = f (xs ! i) \<union> (\<Union>j\<in>{..<length xs} - {i}. f (xs ! j))"
  using Union_owned_update [of i xs f "xs ! i"] by simp

lemma StartMatchMake_ok:
  assumes ok: "main_ok m" and i: "i < length (mn_matchmakers m)" and r: "StartMatchMake e i m = Inr m'"
  shows "main_ok m'"
proof -
  let ?mms = "mn_matchmakers m" and ?h = "mn_tickets m" and ?h' = "mn_tickets m'"
  obtain mm' where mms: "mn_matchmakers m' = ?mms[i := mm']" and sub: "owned mm' \<subseteq> owned (?mms ! i)"
    and mm': "mm_ok ?h' mm'" "mm_ticketsToRelease mm' = []" "mm_ticketsToDelete mm' = []" and pool: "pool_ok (mn_pool m')"
    and find: "\<And>q. hm_find ?h' q = (if q \<in> owned (?mms ! i) - owned mm' then None else hm_find ?h q)"
    and ss: "m2ds_ok (mn_dediSessions m')"
    by (rule StartMatchMake_result [OF ok i r]) blast
  have dis: "owned (?mms ! j) \<inter> owned (?mms ! i) = {}" if "j < length ?mms" "j \<noteq> i" for j
    using main_okD(6) [OF ok that(1) i that(2)] .
  have keys: "set (hm_keys ?h') = set (hm_keys ?h) - (owned (?mms ! i) - owned mm')"
    by (auto simp: hm_find_keys find split: if_splits)
  have tk: "tk ?h' q = tk ?h q" if "q \<in> set (hm_keys ?h')" for q
    using that by (auto simp: tk_def hm_find_keys find split: if_splits)
  have others: "mm_ok ?h' (?mms ! j)" if "j < length ?mms" "j \<noteq> i" for j
  proof (rule mm_ok_local [OF main_okD(3) [OF ok that(1)]])
    fix p assume p: "p \<in> owned (?mms ! j)"
    then have "p \<in> set (hm_keys ?h')"
      using mm_ok_live [OF main_okD(3) [OF ok that(1)]] dis [OF that] by (auto simp: keys)
    with tk show "p \<in> set (hm_keys ?h') \<and> aggr ?h' p = aggr ?h p \<and> started ?h' p = started ?h p" by simp
  qed
  have "set (hm_keys ?h') = owned mm' \<union> (\<Union>j\<in>{..<length ?mms} - {i}. owned (?mms ! j))"
    using sub dis by (auto simp: keys main_okD(7) [OF ok] Union_owned_nth [OF i])
  then have U: "set (hm_keys ?h') = (\<Union>mm\<in>set (?mms[i := mm']). owned mm)"
    by (simp only: Union_owned_update [OF i])
  have quiet: "mm_ok ?h' mm \<and> mm_ticketsToRelease mm = [] \<and> mm_ticketsToDelete mm = []" if "mm \<in> set (?mms[i := mm'])" for mm
    using that mm' others main_okD(4,5) [OF ok] by (auto simp: in_set_conv_nth nth_list_update [OF i])
  have pair: "owned (?mms[i := mm'] ! j) \<inter> owned (?mms[i := mm'] ! k) = {}"
    if "j < length ?mms" "k < length ?mms" "j \<noteq> k" for j k
    using that main_okD(6) [OF ok that] sub dis by (auto simp: nth_list_update [OF i])
  have w: "mt_isValid (tk ?h' p) \<and> \<not> matched ?h' p" if "p \<in> set (hm_keys ?h')" for p
    using main_okD(8,9) [OF ok, of p] tk [OF that] that by (simp add: keys)
  show ?thesis
    unfolding main_ok_def mms using pool ss quiet pair w U main_okD(2) [OF ok] by simp
qed

lemma start_all_ok:
  "main_ok m \<Longrightarrow> \<forall>i\<in>set is. i < nat MAP_MAX \<Longrightarrow> start_all e is m = Inr m' \<Longrightarrow> main_ok m'"
proof (induction "is" arbitrary: m)
  case (Cons i "is")
  then obtain m1 where m1: "StartMatchMake e i m = Inr m1" "start_all e is m1 = Inr m'"
    by (auto simp: bnd_eq_Inr)
  have "main_ok m1"
    using Cons.prems(1,2) main_okD(2) [OF Cons.prems(1)] by (intro StartMatchMake_ok [OF _ _ m1(1)]) simp_all
  then show ?case using Cons m1(2) by auto
qed simp

text \<open>Changes outside the tickets and the sessions.\<close>

lemma main_ok_cong:
  assumes "main_ok m" "mn_pool m' = mn_pool m" "mn_matchmakers m' = mn_matchmakers m" "m2ds_ok (mn_dediSessions m')"
  shows "main_ok m'"
  using assms by (simp add: main_ok_def mn_tickets_def)

lemma MatchMake_ok: "main_ok m \<Longrightarrow> MatchMake e m = Inr m' \<Longrightarrow> main_ok m'"
  by (auto simp: MatchMake_def Let_def main_okD(2) main_okD(10) split: if_splits
      elim!: start_all_ok [rotated 2] intro: main_ok_cong [of m])

lemma main_ok_new: "main_ok (MakeDediManager r d)"
proof -
  have "mm_ok [] (MakeMatchMaker i MAX_AGRESSION)" for i by (rule mm_ok_new) (simp add: MAX_AGRESSION_def)
  then show ?thesis
    by (auto simp: main_ok_def MakeDediManager_def pool_ok_def mn_tickets_def hm_keys_def owned_def MakeMatchMaker_def m2ds_ok_def)
qed

end
