(* ===== verification/MainRun.thy ===== *)
theory MainRun
  imports MatchRound
begin

text \<open>
  The main process as a system of steps: the requests of the HTTPS server, the messages of the
  dedicated processes, the rounds of the matchmakers and the work of the database proxy, in any
  order. Ending by an exception or by undefined behaviour is an absorbing state. The invariant
  \<^const>\<open>main_ok\<close> holds in every run; the properties of the main process follow from it.
\<close>

section \<open>Steps\<close>

text \<open>
  The number of players in a \<open>D2MNotifyRoomDestroyed\<close> is the size of a table of the
  dedicated process, so it is a natural number.
\<close>

datatype MainInput =
  MatchTime
| MatchRequest string
| BindRequest string string
| DediAccepted i32
| DediInitComplete i32 i32
| EntryTokens i32 D2MUpdateEntryToken
| PlayerLeft i32 D2MNotifyPlayerLeft
| RoomDestroyed i32 nat
| SpawnServer
| RunRequests

definition main_step :: "('r, 'd) menv \<Rightarrow> MainError + ('r, 'd) main \<Rightarrow> MainInput \<Rightarrow> MainError + ('r, 'd) main" where
  "main_step e s i =
     bnd s (\<lambda>m. case i of
        MatchTime \<Rightarrow> MatchMake e m
      | MatchRequest key \<Rightarrow> bnd (Handle_H2M_MatchMake e key m) (\<lambda>x. Inr (snd x))
      | BindRequest token ip \<Rightarrow> Inr (BindClientIpToSession e token ip m)
      | DediAccepted fd \<Rightarrow> Inr (OnAcceptDedi fd m)
      | DediInitComplete pid fd \<Rightarrow> Inr (fst (FinalizeConnection pid fd m))
      | EntryTokens fd pkt \<Rightarrow> bnd (Handle_D2M_UpdateEntryToken fd pkt m) (\<lambda>x. Inr (snd x))
      | PlayerLeft fd pkt \<Rightarrow> Inr (Handle_D2M_NotifyPlayerLeft fd pkt m)
      | RoomDestroyed pid n \<Rightarrow> Inr (Handle_D2M_NotifyRoomDestroyed pid (int n) m)
      | SpawnServer \<Rightarrow> Inr (snd (SpawnSingleServer e m))
      | RunRequests \<Rightarrow> Inr (fst (ExecuteAll e m)))"

definition alive_ok :: "MainError + ('r, 'd) main \<Rightarrow> bool" where
  "alive_ok s \<longleftrightarrow> (case s of Inl er \<Rightarrow> True | Inr m \<Rightarrow> main_ok m)"

section \<open>Every handler keeps the invariant\<close>

lemma main_ok_same_tickets:
  assumes ok: "main_ok m" and pool: "pool_ok (mn_pool m')"
    and find: "\<And>q. hm_find (mn_tickets m') q = hm_find (mn_tickets m) q"
    and mms: "mn_matchmakers m' = mn_matchmakers m" and ss: "m2ds_ok (mn_dediSessions m')"
  shows "main_ok m'"
proof -
  have keys: "set (hm_keys (mn_tickets m')) = set (hm_keys (mn_tickets m))" by (auto simp: hm_find_keys find)
  have tk: "tk (mn_tickets m') = tk (mn_tickets m)" by (simp add: tk_def fun_eq_iff find)
  have "mm_ok (mn_tickets m) mm \<Longrightarrow> mm_ok (mn_tickets m') mm" for mm
    by (rule mm_ok_cong) (simp_all add: keys tk)
  then show ?thesis using ok pool mms ss by (auto simp: main_ok_def keys tk)
qed

lemma AddTicket_ok:
  assumes ok: "main_ok m" and acq: "Acquire t (mn_pool m) = (p, pool)" and t: "mt_isValid t" "\<not> mt_isMatched t"
    and mid: "0 \<le> mid" "mid < MAP_MAX"
    and m': "mn_pool m' = pool" "mn_matchmakers m' = (mn_matchmakers m)[nat mid := AddSingleMatchTicket p (mn_matchmakers m ! nat mid)]"
      "mn_dediSessions m' = mn_dediSessions m"
  shows "main_ok m'"
proof -
  let ?mms = "mn_matchmakers m" and ?h = "mn_tickets m" and ?h' = "mn_tickets m'" and ?i = "nat mid"
  let ?mm = "AddSingleMatchTicket p (?mms ! ?i)"
  have i: "?i < length ?mms" using main_okD(2) [OF ok] mid by simp
  have find: "hm_find ?h' q = (if q = p then Some t else hm_find ?h q)" for q
    using ticket_pool.get_acquire [OF main_okD(1) [OF ok] acq, of q] by (simp add: pool_get_def mn_tickets_def m')
  have fresh: "p \<notin> set (hm_keys ?h)"
    using ticket_pool.acquire_fresh [OF main_okD(1) [OF ok] acq] by (simp add: pool_get_def mn_tickets_def hm_find_None)
  have keys: "set (hm_keys ?h') = insert p (set (hm_keys ?h))" by (auto simp: hm_find_keys find split: if_splits)
  have tk: "tk ?h' q = (if q = p then t else tk ?h q)" for q by (simp add: tk_def find)
  have sub: "owned (?mms ! j) \<subseteq> set (hm_keys ?h)" if "j < length ?mms" for j
    using mm_ok_live [OF main_okD(3) [OF ok that]] .
  have old: "mm_ok ?h' (?mms ! j)" if "j < length ?mms" for j
    using sub [OF that] fresh by (intro mm_ok_local [OF main_okD(3) [OF ok that]]) (auto simp: keys tk)
  have new: "mm_ok ?h' ?mm"
    using sub [OF i] fresh by (intro mm_ok_AddSingle [OF old [OF i]]) (auto simp: keys owned_def)
  have own: "owned ?mm = insert p (owned (?mms ! ?i))" by (auto simp: owned_def AddSingleMatchTicket_def)
  have pair: "owned (?mms[?i := ?mm] ! j) \<inter> owned (?mms[?i := ?mm] ! k) = {}"
    if "j < length ?mms" "k < length ?mms" "j \<noteq> k" for j k
    using main_okD(6) [OF ok that] sub [OF that(1)] sub [OF that(2)] fresh that(3)
    by (auto simp: nth_list_update [OF i] own)
  have quiet: "mm_ok ?h' mm \<and> mm_ticketsToRelease mm = [] \<and> mm_ticketsToDelete mm = []" if "mm \<in> set (?mms[?i := ?mm])" for mm
    using that old new main_okD(4,5) [OF ok] by (auto simp: in_set_conv_nth nth_list_update [OF i] AddSingleMatchTicket_def)
  have U: "set (hm_keys ?h') = (\<Union>mm\<in>set (?mms[?i := ?mm]). owned mm)"
    by (simp only: keys Union_owned_update [OF i] own main_okD(7) [OF ok] Union_owned_nth [OF i]) auto
  have "pool_ok (mn_pool m')" using ticket_pool.valid_acquire [OF main_okD(1) [OF ok] acq] by (simp add: m')
  moreover have "mt_isValid (tk ?h' q) \<and> \<not> matched ?h' q" if "q \<in> set (hm_keys ?h')" for q
    using that t main_okD(8,9) [OF ok, of q] by (auto simp: keys tk)
  ultimately show ?thesis
    unfolding main_ok_def m'(2,3) using quiet pair U main_okD(2,10) [OF ok] by simp
qed

lemma Handle_H2M_MatchMake_ok:
  assumes ok: "main_ok m" and r: "Handle_H2M_MatchMake e key m = Inr (b, m')"
  shows "main_ok m'"
proof -
  obtain x r where x: "rd_hgetall (me_redis e) key (mn_redis m) = (x, r)" by fastforce
  have m1: "main_ok (m\<lparr>mn_redis := r\<rparr>)" by (rule main_ok_cong [OF ok]) (simp_all add: main_okD(10) [OF ok])
  show ?thesis
  proof (cases "x = None \<or> x = Some []")
    case True
    with r m1 show ?thesis by (auto simp: Handle_H2M_MatchMake_def x)
  next
    case False
    then obtain v vs where x1: "x = Some (v # vs)" by (cases x) (auto simp: neq_Nil_conv)
    with r obtain uid ag mid ct where n: "number_at (v # vs) ''uid'' = Inr uid" "number_at (v # vs) ''aggression'' = Inr ag"
      "number_at (v # vs) ''map_id'' = Inr mid" "number_at (v # vs) ''character_type'' = Inr ct"
      by (auto simp: Handle_H2M_MatchMake_def x bnd_eq_Inr)
    obtain p pool where
      acq: "Acquire (MakeMatchTicket key uid ag mid ct (me_clock e (mn_reads m))) (mn_pool m) = (p, pool)" by fastforce
    obtain m3 ok3 where
      add: "DediManager_AddSingleMatchTicket p (m\<lparr>mn_redis := r, mn_pool := pool, mn_reads := Suc (mn_reads m)\<rparr>) = (m3, ok3)" by fastforce
    have m': "m' = (if ok3 then m3 else m3\<lparr>mn_pool := Release p (mn_pool m3)\<rparr>)"
      using r by (auto simp: Handle_H2M_MatchMake_def x x1 n acq add split: if_splits)
    have t: "tk (tp_live pool) p = MakeMatchTicket key uid ag mid ct (me_clock e (mn_reads m))"
      using ticket_pool.get_acquire [OF main_okD(1) [OF ok] acq, of p] by (simp add: pool_get_def tk_def)
    show ?thesis
    proof (cases "0 \<le> mid \<and> mid < MAP_MAX")
      case True
      with add t m' show ?thesis
        by (intro AddTicket_ok [OF ok acq, of mid]) (auto simp: DediManager_AddSingleMatchTicket_def mn_tickets_def Let_def MakeMatchTicket_def)
    next
      case False
      note rel = ticket_pool.release_acquired [OF main_okD(1) [OF ok] acq]
      from add t m' False have "m' = m\<lparr>mn_redis := r, mn_pool := Release p pool, mn_reads := Suc (mn_reads m)\<rparr>"
        by (auto simp: DediManager_AddSingleMatchTicket_def mn_tickets_def Let_def MakeMatchTicket_def)
      then show ?thesis using rel main_okD(10) [OF ok]
        by (intro main_ok_same_tickets [OF ok]) (simp_all add: mn_tickets_def pool_get_def)
    qed
  qed
qed

lemma m2d_ok_ops:
  "m2d_ok pid s \<Longrightarrow> m2d_ok pid (BindSocket fd s)" "m2d_ok pid s \<Longrightarrow> m2d_ok pid (M2DSend pkt s)"
  "m2d_ok pid s \<Longrightarrow> m2d_ok pid (ReleasePlayers (int n) s)"
  by (auto simp: m2d_ok_def BindSocket_def M2DSend_def ReleasePlayers_def Let_def MAX_PLAYER_PER_PROCESS_def)

lemma Execute_frame:
  "mn_pool (Execute e q m) = mn_pool m \<and> mn_matchmakers (Execute e q m) = mn_matchmakers m \<and>
   mn_dediSessions (Execute e q m) = mn_dediSessions m"
  by (cases q) (auto simp: Execute_def UpdateEntryToken_Execute_def NotifyPlayerLeft_Execute_def Let_def split: prod.splits option.splits)

lemma ExecuteAll_ok: "main_ok m \<Longrightarrow> main_ok (fst (ExecuteAll e m))"
proof -
  assume ok: "main_ok m"
  have "main_ok (fold (Execute e) qs m1)" if "main_ok m1" for qs m1
    using that
  proof (induction qs arbitrary: m1)
    case (Cons q qs)
    have "main_ok (Execute e q m1)"
      using Execute_frame [of e q m1] main_okD(10) [OF Cons.prems] by (intro main_ok_cong [OF Cons.prems]) simp_all
    then show ?case by (simp add: Cons.IH)
  qed simp
  moreover have "main_ok (m\<lparr>mn_requestQueue := []\<rparr>)"
    by (rule main_ok_cong [OF ok]) (simp_all add: main_okD(10) [OF ok])
  ultimately show ?thesis using ok by (auto simp: ExecuteAll_def)
qed

lemma BindClientIpToSession_ok: "main_ok m \<Longrightarrow> main_ok (BindClientIpToSession e token ip m)"
  by (rule main_ok_cong [of m])
    (auto simp: BindClientIpToSession_def Let_def main_okD(10) intro!: m2ds_ok_mod m2d_ok_ops split: prod.splits option.splits)

interpretation main: step_system "main_step e" alive_ok
proof
  fix s :: "MainError + ('a, 'b) main" and i
  assume s: "alive_ok s"
  show "alive_ok (main_step e s i)"
  proof (cases s)
    case (Inl er)
    then show ?thesis by (simp add: main_step_def bnd_def alive_ok_def)
  next
    case (Inr m)
    with s have ok: "main_ok m" by (simp add: alive_ok_def)
    have Bnd: "alive_ok (bnd x (\<lambda>x. Inr (snd x)))" if "\<And>b m'. x = Inr (b, m') \<Longrightarrow> main_ok m'"
      for x :: "MainError + bool \<times> ('a, 'b) main"
      using that by (cases x) (auto simp: alive_ok_def bnd_def)
    have "alive_ok (Inr (fst (FinalizeConnection pid fd m)))" "alive_ok (Inr (OnAcceptDedi fd m))"
      "alive_ok (Inr (Handle_D2M_NotifyPlayerLeft fd pkt m))" "alive_ok (Inr (Handle_D2M_NotifyRoomDestroyed pid (int n) m))"
      for pid fd pkt n
      using main_okD(10) [OF ok]
      by (auto simp: alive_ok_def FinalizeConnection_def OnAcceptDedi_def Handle_D2M_NotifyPlayerLeft_def
          RegisterDBRequest_def Handle_D2M_NotifyRoomDestroyed_def ok
          intro!: main_ok_cong [OF ok] m2ds_ok_mod m2d_ok_ops)
    moreover have "alive_ok (bnd (Handle_D2M_UpdateEntryToken fd pkt m) (\<lambda>x. Inr (snd x)))" for fd pkt
      using main_okD(10) [OF ok]
      by (intro Bnd) (auto simp: Handle_D2M_UpdateEntryToken_def Let_def RegisterDBRequest_def ok split: if_splits intro!: main_ok_cong [OF ok])
    moreover have "alive_ok (bnd (Handle_H2M_MatchMake e key m) (\<lambda>x. Inr (snd x)))" for key
      by (intro Bnd) (rule Handle_H2M_MatchMake_ok [OF ok])
    moreover have "alive_ok (Inr (snd (SpawnSingleServer e m)))"
      using SpawnSingleServer_frame [OF prod.collapse [symmetric], of e m] main_okD(10) [OF ok]
      by (auto simp: alive_ok_def outside_def intro!: main_ok_cong [OF ok])
    moreover have "alive_ok (MatchMake e m)"
      using MatchMake_ok [OF ok] by (cases "MatchMake e m") (auto simp: alive_ok_def)
    ultimately show ?thesis
      using ExecuteAll_ok [OF ok] BindClientIpToSession_ok [OF ok]
      by (cases i) (simp_all add: Inr main_step_def alive_ok_def)
  qed
qed

section \<open>A concrete Redis and MySQL\<close>

text \<open>
  An instance of the parameters: tables of hash fields (a plain string has none) with the
  documented behaviour of the commands the source uses, and an inventory table with transactions. They show that what the
  properties below ask of the two services can hold.
\<close>

type_synonym tables = "(string, (string \<times> string) list) hmap"

definition table_of :: "tables \<Rightarrow> string \<Rightarrow> (string \<times> string) list" where
  "table_of r k = (case hm_find r k of None \<Rightarrow> [] | Some t \<Rightarrow> t)"

definition run_cmd :: "RedisCmd \<Rightarrow> tables \<Rightarrow> tables" where
  "run_cmd c r =
     (case c of HSet k fs \<Rightarrow> hm_set k (fold (\<lambda>(f, v). hm_set f v) fs (table_of r k)) r
      | SetEx k v n \<Rightarrow> hm_set k [] r
      | Expire k n \<Rightarrow> r)"

definition table_redis :: "tables redis" where
  "table_redis =
     \<lparr>rd_eval = (\<lambda>ks as r.
        if \<forall>k\<in>set ks. hm_find (table_of r k) ''status'' = Some ''WAITING''
        then (Some 1, fold (\<lambda>k. run_cmd (HSet k [(''status'', hd as)])) ks r) else (Some 0, r)),
      rd_hget = (\<lambda>k f r. (Some (hm_find (table_of r k) f), r)),
      rd_hgetall = (\<lambda>k r. (Some (table_of r k), r)),
      rd_pipe = (\<lambda>cs r. (True, fold run_cmd cs r)),
      rd_del = (\<lambda>ks r. (True, fold hm_erase ks r))\<rparr>"

text \<open>The committed rows (uid, item, slot, quantity), the rows the connection sees, and whether it commits each statement.\<close>

type_synonym inventory_db = "(i32 \<times> i32 \<times> i32 \<times> i32) list \<times> (i32 \<times> i32 \<times> i32 \<times> i32) list \<times> bool"

definition sql_rows :: "SqlStmt \<Rightarrow> (i32 \<times> i32 \<times> i32 \<times> i32) list \<Rightarrow> (i32 \<times> i32 \<times> i32 \<times> i32) list" where
  "sql_rows s rows =
     (case s of DeleteInventory u b \<Rightarrow> filter (\<lambda>(u', item, slot, q). \<not> (u' = u \<and> b \<le> slot)) rows
      | InsertInventory u item slot q \<Rightarrow> rows @ [(u, item, slot, q)])"

definition table_mysql :: "inventory_db mysql" where
  "table_mysql =
     \<lparr>sq_get = (\<lambda>(c, w, a). (True, (c, c, True))),
      sq_autocommit = (\<lambda>b (c, w, a). (True, if b then (w, w, True) else if a then (c, c, False) else (c, w, False))),
      sq_update = (\<lambda>s (c, w, a). (True, if a then (sql_rows s w, sql_rows s w, a) else (c, sql_rows s w, a))),
      sq_commit = (\<lambda>(c, w, a). (True, (w, w, a))),
      sq_rollback = (\<lambda>(c, w, a). (True, (c, c, a)))\<rparr>"

definition ex_menv :: "(tables, inventory_db) menv" where
  "ex_menv =
     \<lparr>me_redis = table_redis, me_mysql = table_mysql, me_clock = (\<lambda>n. 61000000000 * int n),
      me_fork = (\<lambda>n. 100 + int n), me_inventory = (\<lambda>s. Some []), me_equipment = (\<lambda>s. Some []),
      me_instanceIp = None, me_interfaces = [(True, ''lo'', ''127.0.0.1''), (True, ''eth0'', ''10.0.0.7'')]\<rparr>"

definition ex_ticket_table :: "(string \<times> string) list" where
  "ex_ticket_table = [(''status'', ''WAITING''), (''uid'', ''7''), (''aggression'', ''5''), (''map_id'', ''1''),
     (''character_type'', ''0''), (''user_id'', ''u''), (''rating'', ''1000''), (''inventory_items'', ''[]''), (''equipment_items'', ''[]'')]"

definition ex_main :: "(tables, inventory_db) main" where
  "ex_main = MakeDediManager (map (\<lambda>k. (k, ex_ticket_table)) [''a'', ''b'']) ([], [], True)"

definition ex_requests :: "MainInput list" where
  "ex_requests = map MatchRequest [''a'', ''b'']"

definition main_of :: "MainError + ('r, 'd) main \<Rightarrow> ('r, 'd) main" where
  "main_of s = (case s of Inr m \<Rightarrow> m)"

definition ex_queue :: "(tables, inventory_db) main" where
  "ex_queue = main_of (run (main_step ex_menv) (Inr ex_main) ex_requests)"

definition ex_round :: "(tables, inventory_db) main" where
  "ex_round = main_of (main_step ex_menv (Inr ex_queue) MatchTime)"

lemma ex_queue_run: "run (main_step ex_menv) (Inr ex_main) ex_requests = Inr ex_queue"
proof -
  have "isl (run (main_step ex_menv) (Inr ex_main) ex_requests) = False" by code_simp
  then show ?thesis by (cases "run (main_step ex_menv) (Inr ex_main) ex_requests") (auto simp: ex_queue_def main_of_def)
qed

lemma ex_round_run: "MatchMake ex_menv ex_queue = Inr ex_round"
proof -
  have "isl (main_step ex_menv (Inr ex_queue) MatchTime) = False" by code_simp
  then show ?thesis by (cases "main_step ex_menv (Inr ex_queue) MatchTime") (auto simp: ex_round_def main_of_def main_step_def)
qed

lemma ex_facts: "map (\<lambda>x. (fst x, md_allocatedPlayers (snd x))) (mn_dediSessions ex_round) = [(100, 2)]"
  by code_simp

section \<open>Properties\<close>

text \<open>C6. Whatever requests, messages and rounds the main process goes through, as long as it lives
  its pool of tickets is sound (no pointer is live and free, none is free twice), every live
  ticket is owned by exactly one matchmaker and waits there, the queues are sorted and agree
  with the buckets, and no dedicated process holds more players than its capacity.\<close>

theorem main_process_invariant:
  assumes "run (main_step e) (Inr (MakeDediManager r d)) is = Inr m"
  shows "main_ok m"
  using main.run_inv [of "Inr (MakeDediManager r d)" e "is"] assms
  by (simp add: alive_ok_def main_ok_new)

theorem main_process_invariant_witness: "main_ok ex_queue"
  by (rule main_process_invariant [OF ex_queue_run [unfolded ex_main_def]])

text \<open>How a group ends: handed to a dedicated process, returned to the queue, or checked again.\<close>

definition handed :: "ptr list \<Rightarrow> ('r, 'd) main \<Rightarrow> ('r, 'd) main \<Rightarrow> bool" where
  "handed g m m' \<longleftrightarrow> mn_tickets m' = mn_tickets m \<and>
     (\<exists>pid s'. hm_find (mn_dediSessions m') pid = Some s' \<and>
        md_allocatedPlayers s' =
          (case hm_find (mn_dediSessions m) pid of None \<Rightarrow> 0 | Some s \<Rightarrow> md_allocatedPlayers s) + int (length g) \<and>
        (\<forall>pid'. pid' \<noteq> pid \<longrightarrow> hm_find (mn_dediSessions m') pid' = hm_find (mn_dediSessions m) pid'))"

lemma find_available_handed:
  "find_available e h g ss r = Inr (True, r', ss') \<Longrightarrow> hm_ok ss \<Longrightarrow>
   \<exists>pid s s'. hm_find ss pid = Some s \<and> hm_find ss' pid = Some s' \<and>
     md_allocatedPlayers s' = md_allocatedPlayers s + int (length g) \<and>
     (\<forall>pid'. pid' \<noteq> pid \<longrightarrow> hm_find ss' pid' = hm_find ss pid')"
proof (induction ss arbitrary: r ss')
  case (Cons x ss)
  obtain pid s where x: "x = (pid, s)" by (cases x)
  from Cons.prems(1) obtain ok1 r1 s1 where al: "AllocatePlayers e h g r s = Inr (ok1, r1, s1)"
    and rest: "(if ok1 then Inr (True, r1, (pid, s1) # ss)
       else bnd (find_available e h g ss r1) (\<lambda>(ok2, r2, ss2). Inr (ok2, r2, (pid, s1) # ss2))) = Inr (True, r', ss')"
    by (auto simp: x bnd_eq_Inr)
  show ?case
  proof (cases ok1)
    case True
    with rest AllocatePlayers_result(3) [OF al] show ?thesis
      by (intro exI [of _ pid] exI [of _ s] exI [of _ s1]) (auto simp: x hm_find_def)
  next
    case False
    with rest obtain ss2 where ss2: "find_available e h g ss r1 = Inr (True, r', ss2)" "ss' = (pid, s1) # ss2"
      by (auto simp: bnd_eq_Inr)
    have s1: "s1 = s" using AllocatePlayers_result(2) [OF al] False by simp
    have new: "pid \<notin> set (hm_keys ss)" "hm_ok ss" using Cons.prems(2) by (auto simp: x hm_ok_def hm_keys_def)
    from Cons.IH [OF ss2(1) new(2)] obtain pid' t t' where t: "hm_find ss pid' = Some t" "hm_find ss2 pid' = Some t'"
      "md_allocatedPlayers t' = md_allocatedPlayers t + int (length g)" "\<forall>q. q \<noteq> pid' \<longrightarrow> hm_find ss2 q = hm_find ss q"
      by blast
    then have "pid' \<noteq> pid" using new(1) by (auto simp: hm_find_None [symmetric])
    with t s1 show ?thesis
      by (intro exI [of _ pid'] exI [of _ t] exI [of _ t']) (auto simp: x ss2(2) hm_find_def)
  qed
qed simp

lemma AllocatePlayers_new:
  assumes "g \<noteq> []" "length g \<le> 4" "AllocatePlayers e h g r (MakeM2DSession pid) = Inr (ok, r', s')"
  shows "ok"
  using assms by (auto simp: AllocatePlayers_def GetAffordablePlayers_def MakeM2DSession_def MAX_PLAYER_PER_PROCESS_def
      bnd_eq_Inr Let_def split: list.splits if_splits)

lemma find_available_refused:
  "find_available e h g ss r = Inr (False, r', ss') \<Longrightarrow> ss' = ss"
proof (induction ss arbitrary: r ss')
  case (Cons x ss)
  obtain pid s where x: "x = (pid, s)" by (cases x)
  from Cons.prems obtain r1 s1 ss2 where al: "AllocatePlayers e h g r s = Inr (False, r1, s1)"
    and ss2: "find_available e h g ss r1 = Inr (False, r', ss2)" "ss' = (pid, s1) # ss2"
    by (auto simp: x bnd_eq_Inr split: if_splits)
  with Cons.IH [OF ss2(1)] AllocatePlayers_result(2) [OF al] show ?case by (simp add: x)
qed simp

lemma DistributePlayerGroup_outcome:
  assumes d: "DistributePlayerGroup e g m = Inr (ok, m')" and g: "g \<noteq> []" "length g \<le> 4"
    and ss: "hm_ok (mn_dediSessions m)" and fork: "hm_find (mn_dediSessions m) (me_fork e (mn_forks m)) = None"
  shows "if ok then handed g m m' else mn_dediSessions m' = mn_dediSessions m"
proof -
  from d obtain ok1 m1 where f: "FindAvailableSessionAndDistributePlayerGroup e g m = Inr (ok1, m1)"
    and rest: "(if ok1 then Inr (True, m1) else let (pid, m2) = SpawnSingleServer e m1 in
         if pid = - 1 then Inr (False, m2) else DistributePlayerGroup_to e g pid m2) = Inr (ok, m')"
    by (auto simp: DistributePlayerGroup_def bnd_eq_Inr)
  from f obtain r ss' where fa: "find_available e (mn_tickets m) g (mn_dediSessions m) (mn_redis m) = Inr (ok1, r, ss')"
    and m1: "m1 = m\<lparr>mn_redis := r, mn_dediSessions := ss'\<rparr>"
    by (auto simp: FindAvailableSessionAndDistributePlayerGroup_def bnd_eq_Inr)
  show ?thesis
  proof (cases ok1)
    case True
    then have "find_available e (mn_tickets m) g (mn_dediSessions m) (mn_redis m) = Inr (True, r, ss')" using fa by simp
    from find_available_handed [OF this ss] obtain pid s s' where
      "hm_find (mn_dediSessions m) pid = Some s" "hm_find ss' pid = Some s'"
      "md_allocatedPlayers s' = md_allocatedPlayers s + int (length g)"
      "\<forall>pid'. pid' \<noteq> pid \<longrightarrow> hm_find ss' pid' = hm_find (mn_dediSessions m) pid'" by blast
    then have "handed g m m1" by (auto simp: handed_def m1 mn_tickets_def intro!: exI [of _ pid])
    with True rest show ?thesis by simp
  next
    case False
    let ?pid = "me_fork e (mn_forks m)"
    have ss': "ss' = mn_dediSessions m" using find_available_refused [of e "mn_tickets m" g "mn_dediSessions m" "mn_redis m" r ss'] fa False by simp
    show ?thesis
    proof (cases "?pid < 0")
      case True
      with rest False show ?thesis by (auto simp: m1 ss' SpawnSingleServer_def)
    next
      case pos: False
      define m2 where "m2 = m1\<lparr>mn_forks := Suc (mn_forks m), mn_dediSessions := hm_set ?pid (MakeM2DSession ?pid) (mn_dediSessions m)\<rparr>"
      have "DistributePlayerGroup_to e g ?pid m2 = Inr (ok, m')"
        using rest False pos by (simp add: SpawnSingleServer_def m2_def m1 ss' Let_def split: if_splits)
      then obtain r' s' where al: "AllocatePlayers e (mn_tickets m2) g (mn_redis m2) (MakeM2DSession ?pid) = Inr (ok, r', s')"
        and m': "m' = m2\<lparr>mn_redis := r', mn_dediSessions := hm_mod ?pid (\<lambda>_. s') (mn_dediSessions m2)\<rparr>"
        by (auto simp: DistributePlayerGroup_to_def m2_def hm_find_set bnd_eq_Inr)
      have "md_allocatedPlayers s' = int (length g)"
        using AllocatePlayers_result(3) [OF al] AllocatePlayers_new [OF g al] by (simp add: MakeM2DSession_def)
      then have "handed g m m'"
        by (auto simp: handed_def m' m2_def m1 mn_tickets_def hm_find_mod hm_find_set fork intro!: exI [of _ ?pid])
      then show ?thesis using AllocatePlayers_new [OF g al] by simp
    qed
  qed
qed


definition ex_matched :: "(tables, inventory_db) main" where
  "ex_matched = ex_main\<lparr>mn_pool := \<lparr>tp_live = map (\<lambda>(p, k). (p, (MakeMatchTicket k 7 5 1 0 0)\<lparr>mt_isMatched := True\<rparr>)) [(1, ''a''), (2, ''b'')],
     tp_pool = [], tp_fresh = 3\<rparr>\<rparr>"


section \<open>No ticket is started twice\<close>

text \<open>
  The documented behaviour of \<open>EVAL\<close>: a reply is the value of the script, whose \<open>HSET\<close>s and
  nothing else have taken effect on the status fields \<open>st\<close> of the store.
\<close>

definition eval_law :: "('r, 'd) menv \<Rightarrow> ('r \<Rightarrow> string \<Rightarrow> string option) \<Rightarrow> bool" where
  "eval_law e st \<longleftrightarrow> (\<forall>ks a r n r'. rd_eval (me_redis e) ks [a] r = (Some n, r') \<longrightarrow> match_script ks a (st r) = (n, st r'))"

lemma match_script_status:
  assumes "match_script ks a st = (1, st')"
  shows "k \<in> set ks \<Longrightarrow> st k = Some ''WAITING''" "st' = (\<lambda>k. if k \<in> set ks then Some a else st k)"
proof -
  have "fold (\<lambda>k f. f(k := Some a)) ks f = (\<lambda>k. if k \<in> set ks then Some a else f k)" for f
    by (induction ks arbitrary: f) auto
  then show "k \<in> set ks \<Longrightarrow> st k = Some ''WAITING''" "st' = (\<lambda>k. if k \<in> set ks then Some a else st k)"
    using assms by (auto simp: match_script_def split: if_splits)
qed

text \<open>C13. The status check starts a ticket at most once. When it succeeds, every ticket of the group was
  waiting, all of them and no other ticket are now in progress, and a later check of any group
  with one of these tickets fails, as long as nobody has set the status of that ticket back.\<close>

theorem ticket_started_once:
  assumes law: "eval_law e st" and v: "VerifyAndSetMatchStatus e g m = (True, m1)"
    and p: "p \<in> set g" "q \<in> set g2" "mt_ticketId (tk (mn_tickets m) p) = mt_ticketId (tk (mn_tickets m2) q)"
    and s: "st (mn_redis m2) (mt_ticketId (tk (mn_tickets m) p)) = st (mn_redis m1) (mt_ticketId (tk (mn_tickets m) p))"
  shows "(\<forall>k. st (mn_redis m1) k = (if k \<in> (\<lambda>p. mt_ticketId (tk (mn_tickets m) p)) ` set g then Some ''INPROGRESS'' else st (mn_redis m) k)) \<and>
    (\<forall>p\<in>set g. st (mn_redis m) (mt_ticketId (tk (mn_tickets m) p)) = Some ''WAITING'') \<and>
    \<not> fst (VerifyAndSetMatchStatus e g2 m2)"
proof -
  let ?ks = "\<lambda>m g. map (\<lambda>p. mt_ticketId (tk (mn_tickets m) p)) g"
  have run: "match_script (?ks m g) ''INPROGRESS'' (st (mn_redis m)) = (1, st (mn_redis m'))"
    if "VerifyAndSetMatchStatus e g m = (True, m')" for g m m'
  proof -
    from that obtain r where "rd_eval (me_redis e) (?ks m g) [''INPROGRESS''] (mn_redis m) = (Some 1, r)" "m' = m\<lparr>mn_redis := r\<rparr>"
      by (auto simp: VerifyAndSetMatchStatus_def Let_def split: prod.splits if_splits)
    then show ?thesis using law by (simp add: eval_law_def)
  qed
  note a = match_script_status [OF run [OF v]]
  have "\<not> fst (VerifyAndSetMatchStatus e g2 m2)"
  proof
    assume "fst (VerifyAndSetMatchStatus e g2 m2)"
    then obtain m3 where "VerifyAndSetMatchStatus e g2 m2 = (True, m3)" by (cases "VerifyAndSetMatchStatus e g2 m2") auto
    from match_script_status(1) [OF run [OF this], of "mt_ticketId (tk (mn_tickets m2) q)"] p(2)
    have "st (mn_redis m2) (mt_ticketId (tk (mn_tickets m) p)) = Some ''WAITING''" by (simp add: p(3))
    moreover have "st (mn_redis m1) (mt_ticketId (tk (mn_tickets m) p)) = Some ''INPROGRESS''" using p(1) by (simp add: a(2))
    ultimately show False using s by simp
  qed
  then show ?thesis using a by auto
qed

definition status_of :: "tables \<Rightarrow> string \<Rightarrow> string option" where
  "status_of r k = hm_find (table_of r k) ''status''"

lemma table_redis_eval: "me_redis e = table_redis \<Longrightarrow> eval_law e status_of"
proof -
  have "status_of (run_cmd (HSet k [(''status'', a)]) r) = (status_of r)(k := Some a)" for k a r
    by (rule ext) (simp add: status_of_def run_cmd_def table_of_def hm_find_set)
  then have "status_of (fold (\<lambda>k. run_cmd (HSet k [(''status'', a)])) ks r) = fold (\<lambda>k f. f(k := Some a)) ks (status_of r)" for ks a r
    by (induction ks arbitrary: r) simp_all
  then show "me_redis e = table_redis \<Longrightarrow> eval_law e status_of"
    by (auto simp: eval_law_def table_redis_def match_script_def status_of_def [symmetric] split: if_splits)
qed

theorem ticket_started_once_witness:
  "status_of (mn_redis (snd (VerifyAndSetMatchStatus ex_menv [1, 2] ex_matched))) ''b'' = Some ''INPROGRESS'' \<and>
   \<not> fst (VerifyAndSetMatchStatus ex_menv [2] (snd (VerifyAndSetMatchStatus ex_menv [1, 2] ex_matched)))"
proof -
  let ?m1 = "snd (VerifyAndSetMatchStatus ex_menv [1, 2] ex_matched)"
  have law: "eval_law ex_menv status_of" by (rule table_redis_eval) (simp add: ex_menv_def)
  have "fst (VerifyAndSetMatchStatus ex_menv [1, 2] ex_matched)" by code_simp
  then have v: "VerifyAndSetMatchStatus ex_menv [1, 2] ex_matched = (True, ?m1)" by (simp add: prod_eq_iff)
  have t: "mt_ticketId (tk (mn_tickets ex_matched) 2) = ''b''" "mt_ticketId (tk (mn_tickets ?m1) 2) = ''b''" by code_simp+
  show ?thesis
    using ticket_started_once [OF law v, of 2 2 "[2]" ?m1] t by (auto simp: image_iff)
qed

section \<open>Errors\<close>

text \<open>C36. The aggression of a ticket is taken from Redis unchecked: as soon as one waiting ticket lies
  outside the range of the buckets, the next round of its matchmaker indexes a vector out of
  bounds (undefined behaviour, here the error \<^const>\<open>WildIndex\<close>).\<close>

theorem unchecked_aggression_index:
  assumes "main_ok m" "i < length (mn_matchmakers m)" "p \<in> set (mm_ticketsToAdd (mn_matchmakers m ! i))"
    and "aggr (mn_tickets m) p < 0 \<or> mm_maxAgression (mn_matchmakers m ! i) < aggr (mn_tickets m) p"
  shows "StartMatchMake e i m = Inl WildIndex"
proof -
  let ?mm = "mn_matchmakers m ! i"
  have "int (length (mm_bucket ?mm)) = mm_maxAgression ?mm + 1"
    using main_okD(3) [OF assms(1,2)] by (simp add: mm_ok_def)
  then have "push_buckets (mn_tickets m) (sort_key (started (mn_tickets m)) (mm_ticketsToAdd ?mm)) (mm_bucket ?mm) = None"
    using assms(3,4) by (intro push_buckets_None [of p]) auto
  then have "AddNewMatchTickets (mn_tickets m) ?mm = None"
    using assms(3) by (auto simp: AddNewMatchTickets_def Let_def)
  then show ?thesis by (simp add: StartMatchMake_def or_error_def bnd_def)
qed

definition ex_bad :: "(tables, inventory_db) main" where
  "ex_bad = ex_main\<lparr>mn_pool := \<lparr>tp_live = [(1, MakeMatchTicket ''a'' 7 21 1 0 0)], tp_pool = [], tp_fresh = 2\<rparr>,
     mn_matchmakers := [MakeMatchMaker 0 20, AddSingleMatchTicket 1 (MakeMatchMaker 1 20)]\<rparr>"

theorem unchecked_aggression_index_witness: "StartMatchMake ex_menv 1 ex_bad = Inl WildIndex"
proof (rule unchecked_aggression_index [where p = 1])
  show "main_ok ex_bad" by code_simp
  show "1 < length (mn_matchmakers ex_bad)" by code_simp
  show "1 \<in> set (mm_ticketsToAdd (mn_matchmakers ex_bad ! 1))" by code_simp
  show "aggr (mn_tickets ex_bad) 1 < 0 \<or> mm_maxAgression (mn_matchmakers ex_bad ! 1) < aggr (mn_tickets ex_bad) 1"
    by code_simp
qed

text \<open>C37. A group that was given to a process which is still starting is not sent when the process
  connects: binding the socket leaves the packet waiting, and only the next group that the
  process takes sends it, before its own packet.\<close>

theorem bind_socket_strands_group:
  assumes "AllocatePlayers e h g r (MakeM2DSession pid) = Inr (True, r1, s1)"
    and "AllocatePlayers e h g' r1 (BindSocket fd s1) = Inr (True, r2, s2)"
  shows "\<exists>pkt pkt'. md_state (BindSocket fd s1) = Ready \<and> md_sent (BindSocket fd s1) = [] \<and>
    md_tempMatchPkts (BindSocket fd s1) = [pkt] \<and> md_sent s2 = [MakeRoomPkt pkt, MakeRoomPkt pkt'] \<and> md_tempMatchPkts s2 = []"
proof -
  from assms(1) obtain pkt where s1: "s1 = (MakeM2DSession pid)\<lparr>md_allocatedPlayers := int (length g), md_tempMatchPkts := [pkt]\<rparr>"
    by (auto simp: AllocatePlayers_def bnd_eq_Inr Let_def MakeM2DSession_def split: if_splits list.splits)
  with assms(2) obtain pkt' where "md_sent s2 = [MakeRoomPkt pkt, MakeRoomPkt pkt']" "md_tempMatchPkts s2 = []"
    by (auto simp: AllocatePlayers_def bnd_eq_Inr Let_def MakeM2DSession_def BindSocket_def FlushPendingTickets_eq split: if_splits list.splits)
  then show ?thesis by (auto simp: s1 BindSocket_def MakeM2DSession_def)
qed


theorem bind_socket_strands_group_witness:
  "\<exists>s1 pkt. AllocatePlayers ex_menv (mn_tickets ex_matched) [1] (mn_redis ex_main) (MakeM2DSession 100) = Inr (True, mn_redis ex_main, s1) \<and>
     md_state (BindSocket 9 s1) = Ready \<and> md_sent (BindSocket 9 s1) = [] \<and> md_tempMatchPkts (BindSocket 9 s1) = [pkt]"
proof -
  let ?A = "AllocatePlayers ex_menv (mn_tickets ex_matched) [1] (mn_redis ex_main) (MakeM2DSession 100)"
  let ?B = "\<lambda>r s. AllocatePlayers ex_menv (mn_tickets ex_matched) [2] r (BindSocket 9 s)"
  have *: "case ?A of Inl er \<Rightarrow> False
    | Inr (ok, r1, s1) \<Rightarrow> ok \<and> r1 = mn_redis ex_main \<and> (case ?B r1 s1 of Inl er \<Rightarrow> False | Inr (ok2, r2, s2) \<Rightarrow> ok2)"
    by code_simp
  then obtain s1 where 1: "?A = Inr (True, mn_redis ex_main, s1)" by (cases ?A) auto
  with * obtain r2 s2 where 2: "?B (mn_redis ex_main) s1 = Inr (True, r2, s2)" by (cases "?B (mn_redis ex_main) s1") auto
  from bind_socket_strands_group [OF 1 2] 1 show ?thesis by blast
qed

section \<open>Redis keys of cancelled tickets\<close>

text \<open>Everything a round does before the release works without the \<open>del\<close> command.\<close>

definition without_del :: "(string list \<Rightarrow> 'r \<Rightarrow> bool \<times> 'r) \<Rightarrow> ('r, 'd) menv \<Rightarrow> ('r, 'd) menv" where
  "without_del f e = e\<lparr>me_redis := (me_redis e)\<lparr>rd_del := f\<rparr>\<rparr>"

lemma without_del_simps [simp]:
  "rd_eval (me_redis (without_del f e)) = rd_eval (me_redis e)" "rd_hget (me_redis (without_del f e)) = rd_hget (me_redis e)"
  "rd_hgetall (me_redis (without_del f e)) = rd_hgetall (me_redis e)" "rd_pipe (me_redis (without_del f e)) = rd_pipe (me_redis e)"
  "me_clock (without_del f e) = me_clock e" "me_fork (without_del f e) = me_fork e"
  "me_inventory (without_del f e) = me_inventory e" "me_equipment (without_del f e) = me_equipment e"
  by (simp_all add: without_del_def)

lemma without_del_player_info [simp]: "player_info (without_del f e) t val = player_info e t val"
  by (simp add: player_info_def)

lemma without_del_player_infos [simp]: "player_infos (without_del f e) h ps r = player_infos e h ps r"
  by (induction ps arbitrary: r) (simp_all cong: if_cong)

lemma without_del_Allocate [simp]: "AllocatePlayers (without_del f e) h g r s = AllocatePlayers e h g r s"
  by (simp add: AllocatePlayers_def MakeM2DMakeRoomForThisGroup_def cong: if_cong list.case_cong)

lemma without_del_find [simp]: "find_available (without_del f e) h g ss r = find_available e h g ss r"
  by (induction ss arbitrary: r) (auto cong: if_cong)

lemma without_del_distribute [simp]: "DistributePlayerGroup (without_del f e) g m = DistributePlayerGroup e g m"
  by (simp add: DistributePlayerGroup_def FindAvailableSessionAndDistributePlayerGroup_def DistributePlayerGroup_to_def
      SpawnSingleServer_def cong: option.case_cong if_cong)

lemma without_del_recheck [simp]: "recheck_group (without_del f e) g m = recheck_group e g m"
  by (induction g arbitrary: m) (simp_all cong: if_cong)

lemma without_del_start [simp]: "StartMatchMakeInternal (without_del f e) gs m = StartMatchMakeInternal e gs m"
proof (induction gs arbitrary: m)
  case (Cons g gs)
  have "start_group (without_del f e) g m = start_group e g m"
    by (simp add: start_group_def VerifyAndSetMatchStatus_def undo_group_def Let_def cong: if_cong)
  moreover have "StartMatchMakeInternal (without_del f e) gs = StartMatchMakeInternal e gs" using Cons by (rule ext)
  ultimately show ?case by simp
qed simp

text \<open>The branch of \<open>ReleaseAndDeleteTickets\<close> that deletes the Redis keys of cancelled tickets is
  never taken: a ticket is made invalid only while it is marked as matched, and matched tickets
  are released without it. A round gives the same result whatever the \<open>del\<close> command does.\<close>

theorem cancelled_keys_never_deleted:
  assumes ok: "main_ok m" and i: "i < length (mn_matchmakers m)"
  shows "StartMatchMake (without_del f e) i m = StartMatchMake e i m"
proof -
  let ?h = "mn_tickets m" and ?mm = "mn_matchmakers m ! i"
  show ?thesis
  proof (cases "AddNewMatchTickets ?h ?mm")
    case None
    then show ?thesis by (simp add: StartMatchMake_def or_error_def bnd_def)
  next
    case (Some mm1)
    obtain h1 mm2 n where g: "FindMatchGroup (me_clock e) (mn_reads m) ?h mm1 = (h1, mm2, n)" by (metis prod.exhaust)
    let ?m1 = "(set_tickets h1 m)\<lparr>mn_reads := n\<rparr>"
    have m1: "mn_tickets ?m1 = h1" by (simp add: mn_tickets_def set_tickets_def)
    have w: "\<forall>q\<in>owned ?mm. mt_isValid (tk ?h q) \<and> \<not> matched ?h q"
      using mm_ok_live [OF main_okD(3) [OF ok i]] main_okD(8,9) [OF ok] by blast
    have "ReleaseAndDeleteTickets (without_del f e) mm2 m2 = ReleaseAndDeleteTickets e mm2 m2"
      if "StartMatchMakeInternal e (mm_matchedGroups mm2) ?m1 = Inr m2" for m2
    proof -
      note rs = round_started [OF main_okD(3,4,5) [OF ok i] w Some g that m1]
      have "filter (\<lambda>p. \<not> matched (mn_tickets m2) p \<and> \<not> mt_isValid (tk (mn_tickets m2) p)) (mm_timeSorted mm2) = []"
        using rs(7) rs(5) by (auto simp: filter_empty_conv)
      then show ?thesis by (simp add: ReleaseAndDeleteTickets_def rs(3) Let_def)
    qed
    then show ?thesis
      by (cases "StartMatchMakeInternal e (mm_matchedGroups mm2) ?m1") (simp_all add: StartMatchMake_def Some g or_error_def bnd_def)
  qed
qed

theorem cancelled_keys_never_deleted_witness:
  "StartMatchMake (without_del (\<lambda>ks r. (True, [])) ex_menv) 1 ex_queue = StartMatchMake ex_menv 1 ex_queue"
proof -
  have "main_ok ex_main" by (simp add: ex_main_def main_ok_new)
  then have ok: "main_ok ex_queue"
    using main.run_inv [of "Inr ex_main" ex_menv ex_requests] by (simp add: alive_ok_def ex_queue_run)
  then show ?thesis by (intro cancelled_keys_never_deleted) (simp_all add: main_okD(2) MAP_MAX_def)
qed

end
