(* ===== verification/DbProxy.thy ===== *)
theory DbProxy
  imports MainRun
begin

text \<open>
  Properties of the database proxy of the main process: the inventory of a player who left is
  written to MySQL in one transaction or not at all, its rows lie in the layout of the table,
  and the entry tokens stored in Redis lead back to the process that issued them.
\<close>

section \<open>Transactions\<close>

type_synonym inventory_rows = "(i32 \<times> i32 \<times> i32 \<times> i32) list"

text \<open>
  What the source relies on from MySQL, over the committed rows \<open>com\<close>, the rows \<open>wrk\<close>
  that the connection sees and whether a transaction is open (\<open>man\<close>): statements of an open
  transaction are not committed; a commit makes them so; the connection that is handed out has no
  open transaction; a failed commit leaves the old or the
  new rows; a rollback drops them; switching auto-commit on may commit what is open.
\<close>

definition sql_laws :: "'d mysql \<Rightarrow> ('d \<Rightarrow> inventory_rows) \<Rightarrow> ('d \<Rightarrow> inventory_rows) \<Rightarrow> ('d \<Rightarrow> bool) \<Rightarrow> bool" where
  "sql_laws q com wrk man \<longleftrightarrow>
     (\<forall>d ok d'. sq_get q d = (ok, d') \<longrightarrow> com d' = com d \<and> (ok \<longrightarrow> \<not> man d')) \<and>
     (\<forall>d ok d'. sq_autocommit q False d = (ok, d') \<longrightarrow> com d' = com d \<and> (ok \<and> \<not> man d \<longrightarrow> man d' \<and> wrk d' = com d)) \<and>
     (\<forall>s d ok d'. sq_update q s d = (ok, d') \<longrightarrow> man d \<longrightarrow> man d' \<and> com d' = com d \<and> (ok \<longrightarrow> wrk d' = sql_rows s (wrk d))) \<and>
     (\<forall>d ok d'. sq_commit q d = (ok, d') \<longrightarrow> man d \<longrightarrow>
        (if ok then com d' = wrk d \<and> wrk d' = wrk d else com d' = com d \<or> com d' = wrk d)) \<and>
     (\<forall>d ok d'. sq_rollback q d = (ok, d') \<longrightarrow> com d' = com d \<and> (ok \<longrightarrow> wrk d' = com d)) \<and>
     (\<forall>d ok d'. sq_autocommit q True d = (ok, d') \<longrightarrow> com d' = com d \<or> com d' = wrk d)"

lemma sql_lawsD:
  assumes "sql_laws q com wrk man"
  shows "sq_get q d = (ok, d') \<Longrightarrow> com d' = com d \<and> (ok \<longrightarrow> \<not> man d')"
    "sq_autocommit q False d = (ok, d') \<Longrightarrow> com d' = com d \<and> (ok \<and> \<not> man d \<longrightarrow> man d' \<and> wrk d' = com d)"
    "sq_update q s d = (ok, d') \<Longrightarrow> man d \<Longrightarrow> man d' \<and> com d' = com d \<and> (ok \<longrightarrow> wrk d' = sql_rows s (wrk d))"
    "sq_commit q d = (ok, d') \<Longrightarrow> man d \<Longrightarrow> (if ok then com d' = wrk d \<and> wrk d' = wrk d else com d' = com d \<or> com d' = wrk d)"
    "sq_rollback q d = (ok, d') \<Longrightarrow> com d' = com d \<and> (ok \<longrightarrow> wrk d' = com d)"
    "sq_autocommit q True d = (ok, d') \<Longrightarrow> com d' = com d \<or> com d' = wrk d"
  using assms by (simp_all add: sql_laws_def)

text \<open>The rows of a player after his inventory was written: the storage (slots below 80) stays.\<close>

definition row_of :: "i32 \<Rightarrow> SlotRow \<Rightarrow> i32 \<times> i32 \<times> i32 \<times> i32" where
  "row_of uid r = (uid, to_i32 (sr_itemId r), sr_slotIndex r, sr_quantity r)"

definition kept_row :: "i32 \<Rightarrow> i32 \<times> i32 \<times> i32 \<times> i32 \<Rightarrow> bool" where
  "kept_row uid = (\<lambda>(u, item, slot, q). \<not> (u = uid \<and> INVENTORY_SLOT_INDEX_BEGIN \<le> slot))"

definition applied :: "i32 \<Rightarrow> SlotRow list \<Rightarrow> inventory_rows \<Rightarrow> inventory_rows" where
  "applied uid slots rows = filter (kept_row uid) rows @ map (row_of uid) slots"

lemma applied_twice:
  assumes "\<forall>r\<in>set slots. INVENTORY_SLOT_INDEX_BEGIN \<le> sr_slotIndex r"
  shows "applied uid slots (applied uid slots rows) = applied uid slots rows"
proof -
  have "filter (kept_row uid) (map (row_of uid) slots) = []"
    using assms by (auto simp: filter_empty_conv row_of_def kept_row_def)
  then show ?thesis by (simp add: applied_def)
qed

lemma sql_seq_append:
  "sql_seq (fs @ gs) d = (case sql_seq fs d of (ok, d1) \<Rightarrow> if ok then sql_seq gs d1 else (False, d1))"
  by (induction fs arbitrary: d) (auto split: prod.splits)

lemma sql_inserts:
  assumes l: "sql_laws q com wrk man"
  shows "sql_seq (map (insert_row q uid) slots) d = (ok, d') \<Longrightarrow> man d \<Longrightarrow>
    man d' \<and> com d' = com d \<and> (ok \<longrightarrow> wrk d' = wrk d @ map (row_of uid) slots)"
proof (induction slots arbitrary: d)
  case (Cons r slots)
  obtain ok1 d1 where 1: "insert_row q uid r d = (ok1, d1)" by fastforce
  then have "man d1 \<and> com d1 = com d \<and> (ok1 \<longrightarrow> wrk d1 = wrk d @ [row_of uid r])"
    using sql_lawsD(3) [OF l _ Cons.prems(2)] by (fastforce simp: insert_row_def sql_rows_def row_of_def)
  then show ?case using Cons.prems(1) Cons.IH [of d1] 1 by (auto split: if_splits)
qed simp

lemma Apply_transaction:
  assumes l: "sql_laws q com wrk man" and d: "\<not> man d"
    and s: "sql_seq ([sq_autocommit q False, sq_update q (DeleteInventory uid INVENTORY_SLOT_INDEX_BEGIN)] @
      map (insert_row q uid) slots @ [sq_commit q, sq_autocommit q True]) d = (ok, d')"
  shows "com d' = com d \<or> com d' = applied uid slots (com d)" "ok \<Longrightarrow> com d' = applied uid slots (com d)"
proof -
  obtain ok1 d1 where 1: "sq_autocommit q False d = (ok1, d1)" by fastforce
  obtain ok2 d2 where 2: "sq_update q (DeleteInventory uid INVENTORY_SLOT_INDEX_BEGIN) d1 = (ok2, d2)" by fastforce
  obtain ok3 d3 where 3: "sql_seq (map (insert_row q uid) slots) d2 = (ok3, d3)" by fastforce
  obtain ok4 d4 where 4: "sq_commit q d3 = (ok4, d4)" by fastforce
  obtain ok5 d5 where 5: "sq_autocommit q True d4 = (ok5, d5)" by fastforce
  note a = sql_lawsD(2) [OF l 1] and b = sql_lawsD(3) [OF l 2] and c = sql_inserts [OF l 3]
    and f = sql_lawsD(4) [OF l 4] and g = sql_lawsD(6) [OF l 5]
  have w: "ok1 \<Longrightarrow> ok2 \<Longrightarrow> ok3 \<Longrightarrow> wrk d3 = applied uid slots (com d)"
    using a b c d by (simp add: applied_def sql_rows_def kept_row_def)
  have "(com d' = com d \<or> com d' = applied uid slots (com d)) \<and> (ok \<longrightarrow> com d' = applied uid slots (com d))"
    using s a b c d f g w
    by (auto simp: sql_seq_append 1 2 3 4 5 split: if_splits)
  then show "com d' = com d \<or> com d' = applied uid slots (com d)" "ok \<Longrightarrow> com d' = applied uid slots (com d)" by auto
qed

lemma Apply_result:
  assumes l: "sql_laws q com wrk man" and r: "ApplyInventoryToDb q uid slots d = (ok, d')" and uid: "0 \<le> uid"
  shows "com d' = com d \<or> com d' = applied uid slots (com d)" "ok \<Longrightarrow> com d' = applied uid slots (com d)"
proof -
  let ?S = "[sq_autocommit q False, sq_update q (DeleteInventory uid INVENTORY_SLOT_INDEX_BEGIN)] @
      map (insert_row q uid) slots @ [sq_commit q, sq_autocommit q True]"
  obtain conn d0 where 0: "sq_get q d = (conn, d0)" by fastforce
  obtain ok1 d1 where 1: "sql_seq ?S d0 = (ok1, d1)" by fastforce
  obtain ok2 d2 where 2: "sql_seq [sq_rollback q, sq_autocommit q True] d1 = (ok2, d2)" by fastforce
  have "com d2 = com d1"
  proof -
    obtain ok3 d3 where 3: "sq_rollback q d1 = (ok3, d3)" by fastforce
    obtain ok4 d4 where 4: "sq_autocommit q True d3 = (ok4, d4)" by fastforce
    show ?thesis using 2 3 4 sql_lawsD(5) [OF l 3] sql_lawsD(6) [OF l 4] by (auto split: if_splits)
  qed
  moreover have "com d0 = com d" "conn \<Longrightarrow> \<not> man d0" using sql_lawsD(1) [OF l 0] by simp_all
  moreover have "(ok, d') = (if conn then if ok1 then (True, d1) else (False, d2) else (False, d0))"
    using r uid by (simp add: ApplyInventoryToDb_def 0 1 2 del: sql_seq.simps append.simps split: if_splits)
  ultimately show "com d' = com d \<or> com d' = applied uid slots (com d)" "ok \<Longrightarrow> com d' = applied uid slots (com d)"
    using Apply_transaction [OF l _ 1] by (auto split: if_splits)
qed

lemma apply_retry_result:
  assumes l: "sql_laws q com wrk man" and uid: "0 \<le> uid" and slots: "\<forall>r\<in>set slots. INVENTORY_SLOT_INDEX_BEGIN \<le> sr_slotIndex r"
  shows "apply_retry n q uid slots d = (ok, d') \<Longrightarrow>
    (com d' = com d \<or> com d' = applied uid slots (com d)) \<and> (ok \<longrightarrow> com d' = applied uid slots (com d))"
proof (induction n arbitrary: d)
  case (Suc n)
  obtain ok1 d1 where 1: "ApplyInventoryToDb q uid slots d = (ok1, d1)" by fastforce
  note a = Apply_result [OF l 1 uid]
  show ?case
  proof (cases ok1)
    case True
    with Suc.prems 1 a show ?thesis by simp
  next
    case False
    with Suc.prems 1 Suc.IH [of d1] a(1) applied_twice [OF slots, of uid "com d"] show ?thesis by auto
  qed
qed simp

section \<open>Rows of a player who left\<close>

lemma ipc_slots_index: "s \<in> set (ipc_slots i ss) \<Longrightarrow> i \<le> is_slot_index s \<and> is_slot_index s < i + int (length ss)"
  by (induction ss arbitrary: i) (fastforce split: if_splits)+

lemma ipc_slots_distinct: "distinct (map is_slot_index (ipc_slots i ss))"
proof (induction ss arbitrary: i)
  case (Cons s ss)
  have "i \<notin> is_slot_index ` set (ipc_slots (i + 1) ss)" using ipc_slots_index [of _ "i + 1" ss] by force
  with Cons show ?case by simp
qed simp

lemma ipc_slots_set:
  "set (ipc_slots i ss) =
     (\<lambda>k. \<lparr>is_item_id = bp (ss ! k), is_slot_index = i + int k, is_quantity = quantity (ss ! k)\<rparr>) `
       {k. k < length ss \<and> \<not> IsEmpty (ss ! k)}"
proof (induction ss arbitrary: i)
  case (Cons s ss)
  have "{k. k < length (s # ss) \<and> \<not> IsEmpty ((s # ss) ! k)} =
      (if IsEmpty s then {} else {0}) \<union> Suc ` {k. k < length ss \<and> \<not> IsEmpty (ss ! k)}"
    by (auto simp: image_iff less_Suc_eq_0_disj)
  then show ?case using Cons by (auto simp: image_Un image_image algebra_simps)
qed simp

text \<open>The rows that the main process registers for a message of a player who left.\<close>

definition left_rows :: "D2MNotifyPlayerLeft \<Rightarrow> SlotRow list" where
  "left_rows pkt = map (slot_row INVENTORY_SLOT_INDEX_BEGIN) (nl_inventory pkt) @ map (slot_row LOADOUT_SLOT_INDEX_BEGIN) (nl_equipment pkt)"

lemma left_rows_registered:
  "mn_requestQueue (Handle_D2M_NotifyPlayerLeft fd pkt m) =
     mn_requestQueue m @ [NotifyPlayerLeftRequest fd (nl_uid pkt) (nl_reason pkt) (left_rows pkt)]"
  by (simp add: Handle_D2M_NotifyPlayerLeft_def RegisterDBRequest_def left_rows_def)

lemma left_rows_layout:
  assumes "length (inventorySlots (ps_inventory s)) = INVENTORY_SLOT_COUNT"
  shows "distinct (map sr_slotIndex (left_rows (NotifyPlayerLeftToMain s)))"
    "\<forall>r\<in>set (left_rows (NotifyPlayerLeftToMain s)). INVENTORY_SLOT_INDEX_BEGIN \<le> sr_slotIndex r \<and> sr_slotIndex r < INVENTORY_SLOT_INDEX_BEGIN + 28"
proof -
  let ?iv = "ps_inventory s"
  have c: "INVENTORY_SLOT_COUNT = 25" by (simp add: INVENTORY_SLOT_COUNT_def)
  have inv: "0 \<le> is_slot_index x \<and> is_slot_index x < 25" if "x \<in> set (ipc_slots 0 (inventorySlots ?iv))" for x
    using ipc_slots_index [OF that] assms c by simp
  have eq: "0 \<le> is_slot_index x \<and> is_slot_index x < 3"
    if "x \<in> set (ipc_slots 0 [primaryWeaponSlot ?iv, secondaryWeaponSlot ?iv, armorSlot ?iv])" for x
    using ipc_slots_index [OF that] by simp
  have d: "distinct (map (\<lambda>x. k + is_slot_index x) (ipc_slots 0 ss))" for k ss
    using ipc_slots_distinct [of 0 ss] by (auto simp: distinct_map inj_on_def)
  show "distinct (map sr_slotIndex (left_rows (NotifyPlayerLeftToMain s)))"
    "\<forall>r\<in>set (left_rows (NotifyPlayerLeftToMain s)). INVENTORY_SLOT_INDEX_BEGIN \<le> sr_slotIndex r \<and> sr_slotIndex r < INVENTORY_SLOT_INDEX_BEGIN + 28"
    using d [of INVENTORY_SLOT_INDEX_BEGIN] d [of LOADOUT_SLOT_INDEX_BEGIN] inv eq
    by (auto simp: left_rows_def NotifyPlayerLeftToMain_def SerializeInventoryForIPC_def Let_def slot_row_def comp_def
        INVENTORY_SLOT_INDEX_BEGIN_def LOADOUT_SLOT_INDEX_BEGIN_def simp del: ipc_slots.simps) fastforce+
qed

text \<open>The reference: what the slots of an inventory hold, under the indexes of the table.\<close>

definition slot_contents :: "i32 \<Rightarrow> Slot list \<Rightarrow> (i32 \<times> u32 \<times> i32) set" where
  "slot_contents begin ss = (\<lambda>k. (begin + int k, bp (ss ! k), quantity (ss ! k))) ` {k. k < length ss \<and> \<not> IsEmpty (ss ! k)}"

definition inventory_contents :: "PlayerInventory \<Rightarrow> (i32 \<times> u32 \<times> i32) set" where
  "inventory_contents iv = slot_contents 80 (inventorySlots iv) \<union>
     slot_contents 105 [primaryWeaponSlot iv, secondaryWeaponSlot iv, armorSlot iv]"

lemma slot_row_contents:
  "(\<lambda>r. (sr_slotIndex r, sr_itemId r, sr_quantity r)) ` set (map (slot_row begin) (ipc_slots 0 ss)) = slot_contents begin ss"
  by (simp add: slot_contents_def ipc_slots_set image_image slot_row_def)

lemma left_rows_contents:
  "(\<lambda>r. (sr_slotIndex r, sr_itemId r, sr_quantity r)) ` set (left_rows (NotifyPlayerLeftToMain s)) =
     (if ps_leaveReason s = LR_RECALLED then inventory_contents (ps_inventory s) else {})"
  by (simp add: left_rows_def NotifyPlayerLeftToMain_def SerializeInventoryForIPC_def Let_def image_Un
      inventory_contents_def slot_row_contents INVENTORY_SLOT_INDEX_BEGIN_def LOADOUT_SLOT_INDEX_BEGIN_def
      del: ipc_slots.simps set_map)

lemma NotifyPlayerLeftToMain_fields [simp]:
  "nl_uid (NotifyPlayerLeftToMain s) = ps_uid s" "nl_reason (NotifyPlayerLeftToMain s) = ps_leaveReason s"
  by (simp_all add: NotifyPlayerLeftToMain_def SerializeInventoryForIPC_def Let_def)

text \<open>C17. From the dedicated process to the database: the request that the main process registers for
  a leaving player replaces his carried rows in one transaction or leaves the table as it was,
  retries included; when an attempt succeeds the rows are replaced. The new rows are, each in
  its own slot of the raid layout (80 to 107), exactly what a recalled player carries, and
  none for a dead or disconnected player; the storage and other players are untouched.\<close>

theorem leaver_inventory_atomic:
  fixes e :: "('r, 'd) menv"
  assumes "sql_laws (me_mysql e) com wrk man" and "inv_ok (ps_inventory s)" and "0 \<le> ps_uid s"
    and "mn_requestQueue (Handle_D2M_NotifyPlayerLeft fd (NotifyPlayerLeftToMain s) m0) = qs @ [q]"
  defines "rows \<equiv> left_rows (NotifyPlayerLeftToMain s)"
  shows "(com (mn_mysql (Execute e q m)) = com (mn_mysql m) \<or>
          com (mn_mysql (Execute e q m)) = applied (ps_uid s) rows (com (mn_mysql m))) \<and>
    (fst (apply_retry DB_RETRY_COUNT (me_mysql e) (ps_uid s) rows (mn_mysql m)) \<longrightarrow>
       com (mn_mysql (Execute e q m)) = applied (ps_uid s) rows (com (mn_mysql m))) \<and>
    distinct (map sr_slotIndex rows) \<and> (\<forall>r\<in>set rows. 80 \<le> sr_slotIndex r \<and> sr_slotIndex r < 108) \<and>
    (\<lambda>r. (sr_slotIndex r, sr_itemId r, sr_quantity r)) ` set rows =
      (if ps_leaveReason s = LR_RECALLED then inventory_contents (ps_inventory s) else {})"
proof -
  have len: "length (inventorySlots (ps_inventory s)) = INVENTORY_SLOT_COUNT"
    using assms(2) by (simp add: inv_ok_def inv_core_def)
  note layout = left_rows_layout [OF len, folded rows_def]
  have "q = NotifyPlayerLeftRequest fd (ps_uid s) (ps_leaveReason s) rows"
    using assms(4) by (simp add: left_rows_registered rows_def)
  then have ex: "mn_mysql (Execute e q m) = snd (apply_retry DB_RETRY_COUNT (me_mysql e) (ps_uid s) rows (mn_mysql m))"
    by (simp add: Execute_def NotifyPlayerLeft_Execute_def Let_def)
  have "\<forall>r\<in>set rows. INVENTORY_SLOT_INDEX_BEGIN \<le> sr_slotIndex r" using layout(2) by blast
  from apply_retry_result [OF assms(1,3) this prod.collapse [symmetric]] layout left_rows_contents [of s, folded rows_def]
  show ?thesis unfolding ex INVENTORY_SLOT_INDEX_BEGIN_def by auto
qed

lemma table_mysql_laws: "sql_laws table_mysql fst (\<lambda>(c, w, a). w) (\<lambda>(c, w, a). \<not> a)"
  by (auto simp: sql_laws_def table_mysql_def split: if_splits)

theorem leaver_inventory_atomic_witness:
  "\<exists>q. fst (mn_mysql (Execute ex_menv q ex_main)) = applied 2000 (left_rows (NotifyPlayerLeftToMain (ex_player_session\<lparr>ps_leaveReason := LR_RECALLED\<rparr>))) [] \<or>
     fst (mn_mysql (Execute ex_menv q ex_main)) = []"
proof -
  let ?s = "ex_player_session\<lparr>ps_leaveReason := LR_RECALLED\<rparr>"
  have s: "inv_ok (ps_inventory ?s)" "ps_uid ?s = 2000"
    using ex_sessions_ok(2) by (auto simp: session_ok_def SetObjectId_def ex_player_session_def MakePlayerSession_def MakePlayer_def)
  have l: "sql_laws (me_mysql ex_menv) fst (\<lambda>(c, w, a). w) (\<lambda>(c, w, a). \<not> a)"
    using table_mysql_laws by (simp add: ex_menv_def)
  have m: "fst (mn_mysql ex_main) = []" by (simp add: ex_main_def MakeDediManager_def)
  from leaver_inventory_atomic [where m = ex_main, OF l s(1) _ left_rows_registered [where fd = 9 and m = ex_main]] s(2) m
  show ?thesis by auto
qed

section \<open>Entry tokens lead back to their process\<close>

text \<open>What the source relies on from Redis, over the hash fields \<open>tab\<close>: commands succeed, a read
  returns the field, a pipeline carries out its commands in order.\<close>

type_synonym fields = "string \<Rightarrow> string \<Rightarrow> string option"

fun cmd_fields :: "RedisCmd \<Rightarrow> fields \<Rightarrow> fields" where
  "cmd_fields (HSet k fs) t = t(k := fold (\<lambda>x g. g(fst x := Some (snd x))) fs (t k))"
| "cmd_fields (SetEx k v n) t = t(k := (\<lambda>_. None))"
| "cmd_fields (Expire k n) t = t"

definition redis_laws :: "'r redis \<Rightarrow> ('r \<Rightarrow> fields) \<Rightarrow> bool" where
  "redis_laws rd tab \<longleftrightarrow>
     (\<forall>k f r. \<exists>r'. rd_hget rd k f r = (Some (tab r k f), r') \<and> tab r' = tab r) \<and>
     (\<forall>cs r. \<exists>r'. rd_pipe rd cs r = (True, r') \<and> tab r' = fold cmd_fields cs (tab r))"

lemma entry_cmds_fd:
  assumes l: "redis_laws (me_redis e) tab" and key: "take 13 K \<noteq> ''active_match:''"
  obtains cs r' where "entry_cmds e fd port (tid, sid, tok, k) r = (Some cs, r')" "tab r' = tab r"
    "\<And>t. K = tok \<or> t K ''fd'' = Some (to_string fd) \<Longrightarrow> fold cmd_fields cs t K ''fd'' = Some (to_string fd)"
proof -
  obtain r1 where 1: "rd_hget (me_redis e) tid ''loadout_type'' r = (Some (tab r tid ''loadout_type''), r1)" "tab r1 = tab r"
    using l by (metis redis_laws_def)
  obtain r2 where 2: "rd_hget (me_redis e) tid ''uid'' r1 = (Some (tab r tid ''uid''), r2)" "tab r2 = tab r"
    using l 1(2) by (metis redis_laws_def)
  define act where "act = (case tab r tid ''uid'' of None \<Rightarrow> []
    | Some i \<Rightarrow> [SetEx (''active_match:'' @ i) (''INGAME:'' @ tid) ACTIVE_MATCH_TTL_SEC])"
  define lo where "lo = (case tab r tid ''loadout_type'' of Some l \<Rightarrow> l | None \<Rightarrow> ''FREE'')"
  define rest where "rest = [HSet tid [(''status'', ''SUCCESS''), (''token'', tok)],
    HSet tok [(''udp_server_ip'', serverIp e), (''port'', to_string port), (''session_id'', to_string sid),
      (''security_key'', to_string k), (''fd'', to_string fd), (''ticket'', tid), (''loadout_type'', lo)],
    Expire tok 300]"
  have "entry_cmds e fd port (tid, sid, tok, k) r = (Some (act @ rest), r2)"
    by (simp add: entry_cmds_def 1 2 act_def rest_def lo_def)
  moreover have "fold cmd_fields (act @ rest) t K ''fd'' = Some (to_string fd)"
    if "K = tok \<or> t K ''fd'' = Some (to_string fd)" for t
  proof -
    have "fold cmd_fields act t K = t K" using key by (auto simp: act_def split: option.splits)
    then show ?thesis using that by (auto simp: rest_def)
  qed
  ultimately show thesis using 2(2) by (rule_tac that) blast+
qed

lemma entries_cmds_fd:
  assumes l: "redis_laws (me_redis e) tab" and key: "take 13 K \<noteq> ''active_match:''"
  shows "\<exists>cs r'. entries_cmds e fd port xs r = (Some cs, r') \<and> tab r' = tab r \<and>
    (\<forall>t. K \<in> (\<lambda>x. fst (snd (snd x))) ` set xs \<or> t K ''fd'' = Some (to_string fd) \<longrightarrow>
       fold cmd_fields cs t K ''fd'' = Some (to_string fd))"
proof (induction xs arbitrary: r)
  case (Cons x xs)
  obtain tid sid tok k where x: "x = (tid, sid, tok, k)" by (metis prod.exhaust)
  obtain cs r1 where 1: "entry_cmds e fd port x r = (Some cs, r1)" "tab r1 = tab r"
    "\<And>t. K = tok \<or> t K ''fd'' = Some (to_string fd) \<Longrightarrow> fold cmd_fields cs t K ''fd'' = Some (to_string fd)"
    unfolding x by (rule entry_cmds_fd [OF l key]) blast
  obtain cs2 r2 where 2: "entries_cmds e fd port xs r1 = (Some cs2, r2)" "tab r2 = tab r1"
    "\<forall>t. K \<in> (\<lambda>x. fst (snd (snd x))) ` set xs \<or> t K ''fd'' = Some (to_string fd) \<longrightarrow>
       fold cmd_fields cs2 t K ''fd'' = Some (to_string fd)"
    using Cons.IH [of r1] by blast
  have "fold cmd_fields (cs @ cs2) t K ''fd'' = Some (to_string fd)"
    if "K \<in> (\<lambda>x. fst (snd (snd x))) ` set (x # xs) \<or> t K ''fd'' = Some (to_string fd)" for t
    using that 1(3) [of t] 2(3) by (auto simp: x)
  then show ?case using 1(1,2) 2(1,2) by auto
qed simp

lemma UpdateEntryToken_fd:
  assumes l: "redis_laws (me_redis e) tab" and key: "take 13 K \<noteq> ''active_match:''"
    and len: "length tickets = length sids" "length sids = length tokens" "length tokens = length keys" and K: "K \<in> set tokens"
  obtains r where "UpdateEntryToken_Execute e fd tickets sids tokens keys port m = m\<lparr>mn_redis := r\<rparr>" "tab r K ''fd'' = Some (to_string fd)"
proof -
  let ?xs = "zip tickets (zip sids (zip tokens keys))"
  obtain i where "i < length tokens" "tokens ! i = K" using K by (auto simp: in_set_conv_nth)
  then have "(tickets ! i, sids ! i, K, keys ! i) \<in> set ?xs" using len by (auto simp: set_zip intro!: exI [of _ i])
  then have "K \<in> (\<lambda>x. fst (snd (snd x))) ` set ?xs" by force
  moreover obtain cs r1 where 1: "entries_cmds e fd port ?xs (mn_redis m) = (Some cs, r1)"
    "\<forall>t. K \<in> (\<lambda>x. fst (snd (snd x))) ` set ?xs \<or> t K ''fd'' = Some (to_string fd) \<longrightarrow>
       fold cmd_fields cs t K ''fd'' = Some (to_string fd)"
    using entries_cmds_fd [OF l key] by blast
  moreover obtain r2 where 2: "rd_pipe (me_redis e) cs r1 = (True, r2)" "tab r2 = fold cmd_fields cs (tab r1)"
    using l by (metis redis_laws_def)
  ultimately have "tab r2 K ''fd'' = Some (to_string fd)" by simp
  then show thesis by (rule that [of r2, rotated]) (simp add: UpdateEntryToken_Execute_def 1(1) 2(1))
qed

text \<open>C19. An entry token finds its way back: after the main process has stored the tokens that the
  dedicated process behind socket \<open>fd\<close> issued, a request to bind a client address to one of
  these tokens is forwarded to exactly that process. The number of the socket survives its way
  through the string fields of Redis.\<close>

theorem bind_request_reaches_issuer:
  assumes "redis_laws (me_redis e) tab" and "take 13 token \<noteq> ''active_match:''" and "i32_ok fd"
    and "length tickets = length sids" "length sids = length tokens" "length tokens = length keys" and "token \<in> set tokens"
    and "hm_find (mn_sessionFd2pid m) fd = Some pid" and "hm_find (mn_dediSessions m) pid = Some s"
  shows "mn_dediSessions (BindClientIpToSession e token ip (UpdateEntryToken_Execute e fd tickets sids tokens keys port m)) =
    hm_mod pid (M2DSend (BindIpPkt token ip)) (mn_dediSessions m)"
proof -
  obtain r where r: "UpdateEntryToken_Execute e fd tickets sids tokens keys port m = m\<lparr>mn_redis := r\<rparr>" "tab r token ''fd'' = Some (to_string fd)"
    by (rule UpdateEntryToken_fd [OF assms(1,2,4-7)])
  obtain r1 where "rd_hget (me_redis e) token ''fd'' r = (Some (Some (to_string fd)), r1)"
    using assms(1) r(2) by (metis redis_laws_def)
  then show ?thesis
    using assms(8,9) by (auto simp: BindClientIpToSession_def r stoi_to_string [OF assms(3)] Let_def split: prod.splits option.splits)
qed

lemma table_redis_laws: "redis_laws table_redis (\<lambda>r k f. hm_find (table_of r k) f)"
proof -
  define tab where "tab = (\<lambda>r k f. hm_find (table_of r k) f)"
  have fs: "hm_find (fold (\<lambda>(f, v). hm_set f v) fs t) g = fold (\<lambda>x g. g(fst x := Some (snd x))) fs (hm_find t) g"
    for fs t g
  proof (induction fs arbitrary: t)
    case (Cons x fs)
    have "hm_find (hm_set (fst x) (snd x) t) = (hm_find t)(fst x := Some (snd x))"
      by (simp add: fun_eq_iff hm_find_set)
    with Cons show ?case by (simp add: case_prod_beta)
  qed simp
  have set: "table_of (hm_set k t r) k' = (if k' = k then t else table_of r k')" for k k' t r
    by (simp add: table_of_def hm_find_set)
  have nil: "hm_find [] f = None" for f :: string by (simp add: hm_find_def)
  have "tab (run_cmd c r) = cmd_fields c (tab r)" for c r
    by (cases c) (auto simp: tab_def run_cmd_def fun_eq_iff set fs nil)
  then have "tab (fold run_cmd cs r) = fold cmd_fields cs (tab r)" for cs r
    by (induction cs arbitrary: r) simp_all
  then show ?thesis by (simp add: redis_laws_def table_redis_def tab_def)
qed

theorem bind_request_reaches_issuer_witness:
  "\<exists>m :: (tables, inventory_db) main. map (md_sent \<circ> snd) (mn_dediSessions m) = [[BindIpPkt ''token_1'' ''1.2.3.4'']]"
proof -
  let ?m = "fst (FinalizeConnection 100 9 (OnAcceptDedi 9 (snd (SpawnSingleServer ex_menv ex_main))))"
  have s: "mn_dediSessions ?m = [(100, BindSocket 9 (MakeM2DSession 100))]" "hm_find (mn_sessionFd2pid ?m) 9 = Some 100"
    by code_simp+
  have l: "redis_laws (me_redis ex_menv) (\<lambda>r k f. hm_find (table_of r k) f)"
    using table_redis_laws by (simp add: ex_menv_def)
  have "mn_dediSessions (BindClientIpToSession ex_menv ''token_1'' ''1.2.3.4''
      (UpdateEntryToken_Execute ex_menv 9 [''a''] [0] [''token_1''] [77] 7777 ?m)) =
    hm_mod 100 (M2DSend (BindIpPkt ''token_1'' ''1.2.3.4'')) (mn_dediSessions ?m)"
    by (rule bind_request_reaches_issuer [OF l]) (simp_all add: s i32_ok_def hm_find_def [of "[_]"])
  then show ?thesis
    by (intro exI [of _ "BindClientIpToSession ex_menv ''token_1'' ''1.2.3.4'' (UpdateEntryToken_Execute ex_menv 9 [''a''] [0] [''token_1''] [77] 7777 ?m)"])
      (simp add: s hm_mod_def M2DSend_def BindSocket_def MakeM2DSession_def)
qed

end
