(* ===== verification/Ipc.thy ===== *)
theory Ipc
  imports Packets
begin

text \<open>
  The byte streams between the processes: \<open>src/RecvBuffer.h\<close> and \<open>.cpp\<close>, the framing of
  \<open>src/PacketHandler.h\<close>, the read loops of \<open>HttpIPCSession\<close>, \<open>M2DSession\<close> and
  \<open>D2MSession\<close> (the same code three times), and the send buffers of \<open>src/SendBuffer.h\<close>,
  \<open>.cpp\<close> and \<open>IoUringWrapper::OpenSendBuffer\<close>. What a handler does with a packet is a
  parameter: a function of the bytes of the packet and of the state of the process that also
  tells whether the packet was accepted. The messages inside the packets are encoded by
  Protocol Buffers, which is not modelled; a payload is a list of bytes.
\<close>

section \<open>Receive buffer\<close>

record RecvBuffer =
  rb_readPos :: u32
  rb_processedPos :: u32
  rb_bufferSize :: u32
  rb_capacity :: u32
  rb_buffer :: "u8 list"

definition BUFFER_SIZE :: nat where
  "BUFFER_SIZE = 32768"

definition MakeRecvBuffer :: RecvBuffer where
  "MakeRecvBuffer = \<lparr>rb_readPos = 0, rb_processedPos = 0, rb_bufferSize = of_nat BUFFER_SIZE,
     rb_capacity = of_nat (BUFFER_SIZE * 2), rb_buffer = replicate (BUFFER_SIZE * 2) 0\<rparr>"

definition DataSize :: "RecvBuffer \<Rightarrow> i32" where
  "DataSize b = to_i32 (rb_readPos b - rb_processedPos b)"

definition FreeSize :: "RecvBuffer \<Rightarrow> i32" where
  "FreeSize b = to_i32 (rb_capacity b - rb_readPos b)"

definition OnRead :: "i32 \<Rightarrow> RecvBuffer \<Rightarrow> RecvBuffer" where
  "OnRead readSize b = b\<lparr>rb_readPos := rb_readPos b + to_u32 readSize\<rparr>"

definition OnProcess :: "i32 \<Rightarrow> RecvBuffer \<Rightarrow> RecvBuffer \<times> bool" where
  "OnProcess processedSize b =
     (if DataSize b < processedSize then (b, False)
      else (b\<lparr>rb_processedPos := rb_processedPos b + to_u32 processedSize\<rparr>, True))"

text \<open>\<open>memcpy\<close> of \<open>n\<close> bytes inside the buffer.\<close>

definition copy_bytes :: "nat \<Rightarrow> nat \<Rightarrow> nat \<Rightarrow> u8 list \<Rightarrow> u8 list" where
  "copy_bytes dst src n xs = take dst xs @ take n (drop src xs) @ drop (dst + n) xs"

definition Clean :: "RecvBuffer \<Rightarrow> RecvBuffer" where
  "Clean b =
     (let n = DataSize b in
      if n = 0 then b\<lparr>rb_processedPos := 0, rb_readPos := 0\<rparr>
      else if to_u32 (FreeSize b) < rb_bufferSize b then
        b\<lparr>rb_buffer := copy_bytes 0 (unat (rb_processedPos b)) (nat n) (rb_buffer b), rb_processedPos := 0, rb_readPos := to_u32 n\<rparr>
      else b)"

text \<open>The kernel writes received bytes at the read position.\<close>

definition kernel_write :: "u8 list \<Rightarrow> RecvBuffer \<Rightarrow> RecvBuffer" where
  "kernel_write bs b =
     (let p = unat (rb_readPos b) in
      b\<lparr>rb_buffer := take p (rb_buffer b) @ bs @ drop (p + length bs) (rb_buffer b)\<rparr>)"

section \<open>Framing\<close>

text \<open>\<open>PacketHeader\<close>, packed: the id and the size of the whole packet.\<close>

definition IPC_HEADER_SIZE :: nat where
  "IPC_HEADER_SIZE = 4"

definition ipc_id :: "u8 list \<Rightarrow> u16" where
  "ipc_id bs = field 0 2 bs"

definition ipc_size :: "u8 list \<Rightarrow> u16" where
  "ipc_size bs = field 2 2 bs"

text \<open>
  The bytes \<open>MakeSendBuffer\<close> writes for a message that is \<open>payload\<close> when encoded; both
  sizes are truncated to 16 bits, and \<open>SerializeToArray\<close> writes nothing when the message is
  larger than the size it is told (the bytes of a fresh chunk are zero).
\<close>

definition MakeSendBuffer :: "u16 \<Rightarrow> u8 list \<Rightarrow> u8 list" where
  "MakeSendBuffer pktId payload =
     (let dataSize = of_nat (length payload) :: u16;
          packetSize = dataSize + of_nat IPC_HEADER_SIZE
      in take (unat packetSize)
           (le_bytes 2 pktId @ le_bytes 2 packetSize @
            (if length payload \<le> unat dataSize then payload else replicate (unat dataSize) 0)))"

text \<open>
  The loop of \<open>OnReadComplete\<close>. The handler sees the header, which is complete, and as many
  bytes as the header announces. The last component tells whether the loop was left by
  \<open>break\<close>, so that the next read is registered. \<open>None\<close> stands for not returning.
\<close>

partial_function (option) process_packets ::
  "(u8 list \<Rightarrow> 's \<Rightarrow> 's \<times> bool) \<Rightarrow> RecvBuffer \<Rightarrow> 's \<Rightarrow> (RecvBuffer \<times> 's \<times> bool) option" where
  "process_packets handle b s =
     (let n = DataSize b; bytes = drop (unat (rb_processedPos b)) (rb_buffer b); sz = uint (ipc_size bytes) in
      if n < int IPC_HEADER_SIZE then Some (b, s, True)
      else if n < sz then Some (b, s, True)
      else case handle (take (max IPC_HEADER_SIZE (nat sz)) bytes) s of
          (s', ok) \<Rightarrow> if ok then process_packets handle (fst (OnProcess sz b)) s' else Some (b, s', False))"

declare process_packets.simps [code]

definition OnReadComplete ::
  "(u8 list \<Rightarrow> 's \<Rightarrow> 's \<times> bool) \<Rightarrow> i32 \<Rightarrow> RecvBuffer \<Rightarrow> 's \<Rightarrow> (RecvBuffer \<times> 's \<times> bool) option" where
  "OnReadComplete handle readBytes b s =
     (if 0 < readBytes then process_packets handle (OnRead readBytes b) s else Some (b, s, False))"

section \<open>Send buffers\<close>

record SendBufferChunk =
  ch_isOpen :: bool
  ch_usedSize :: u32

datatype BufferError = AllocTooLarge | ChunkStillOpen | ChunkNotOpen | WriteTooLarge

definition Chunk_FreeSize :: "SendBufferChunk \<Rightarrow> u32" where
  "Chunk_FreeSize c = SEND_BUFFER_CHUNK_SIZE - ch_usedSize c"

text \<open>A send buffer is the number of its chunk, its offset there and its sizes.\<close>

record SendRegion =
  sr_chunk :: nat
  sr_offset :: u32
  sr_allocSize :: u32
  sr_writeSize :: u32

text \<open>\<open>SendBufferChunk::Open\<close>: \<open>None\<close> is the null pointer.\<close>

definition Chunk_Open :: "u32 \<Rightarrow> nat \<Rightarrow> SendBufferChunk \<Rightarrow> (SendRegion option \<times> SendBufferChunk)" where
  "Chunk_Open allocSize i c =
     (if Chunk_FreeSize c < allocSize then (None, c)
      else (Some \<lparr>sr_chunk = i, sr_offset = ch_usedSize c, sr_allocSize = allocSize, sr_writeSize = 0\<rparr>, c\<lparr>ch_isOpen := True\<rparr>))"

definition Chunk_Close :: "u32 \<Rightarrow> SendBufferChunk \<Rightarrow> BufferError + SendBufferChunk" where
  "Chunk_Close allocSize c =
     (if \<not> ch_isOpen c then Inl ChunkNotOpen
      else Inr (c\<lparr>ch_isOpen := False, ch_usedSize := ch_usedSize c + allocSize\<rparr>))"

text \<open>The ring's current chunk and how many chunks there have been.\<close>

record SendChunks =
  sc_current :: "SendBufferChunk option"
  sc_count :: nat

definition OpenSendBuffer :: "u32 \<Rightarrow> SendChunks \<Rightarrow> BufferError + SendRegion option \<times> SendChunks" where
  "OpenSendBuffer allocSize st =
     (if SEND_BUFFER_CHUNK_SIZE < allocSize then Inl AllocTooLarge
      else
        let (c, k) = (case sc_current st of
              Some c \<Rightarrow> if Chunk_FreeSize c < allocSize then (\<lparr>ch_isOpen = False, ch_usedSize = 0\<rparr>, Suc (sc_count st)) else (c, sc_count st)
            | None \<Rightarrow> (\<lparr>ch_isOpen = False, ch_usedSize = 0\<rparr>, Suc (sc_count st)))
        in if ch_isOpen c then Inl ChunkStillOpen
           else let (b, c') = Chunk_Open allocSize k c in Inr (b, \<lparr>sc_current = Some c', sc_count = k\<rparr>))"

definition SendBuffer_Close :: "u32 \<Rightarrow> SendRegion \<Rightarrow> SendChunks \<Rightarrow> BufferError + SendRegion \<times> SendChunks" where
  "SendBuffer_Close writeSize b st =
     (if sr_allocSize b < writeSize then Inl WriteTooLarge
      else case sc_current st of None \<Rightarrow> Inl ChunkNotOpen
        | Some c \<Rightarrow> (case Chunk_Close writeSize c of Inl er \<Rightarrow> Inl er
            | Inr c' \<Rightarrow> Inr (b\<lparr>sr_writeSize := writeSize\<rparr>, st\<lparr>sc_current := Some c'\<rparr>)))"

text \<open>How every packet is written: the buffer is opened and closed with the size of the packet.\<close>

definition send_region :: "u32 \<Rightarrow> SendChunks \<Rightarrow> BufferError + SendRegion option \<times> SendChunks" where
  "send_region n st =
     (case OpenSendBuffer n st of Inl er \<Rightarrow> Inl er
      | Inr (None, st1) \<Rightarrow> Inr (None, st1)
      | Inr (Some b, st1) \<Rightarrow> (case SendBuffer_Close n b st1 of Inl er \<Rightarrow> Inl er | Inr (b', st2) \<Rightarrow> Inr (Some b', st2)))"

fun send_regions :: "u32 list \<Rightarrow> SendChunks \<Rightarrow> BufferError + SendRegion list \<times> SendChunks" where
  "send_regions [] st = Inr ([], st)"
| "send_regions (n # ns) st =
     (case send_region n st of Inl er \<Rightarrow> Inl er
      | Inr (b, st1) \<Rightarrow> (case send_regions ns st1 of Inl er \<Rightarrow> Inl er
          | Inr (bs, st2) \<Rightarrow> Inr ((case b of None \<Rightarrow> bs | Some x \<Rightarrow> x # bs), st2)))"

section \<open>The buffer as a queue of bytes\<close>

definition rb_ok :: "RecvBuffer \<Rightarrow> bool" where
  "rb_ok b \<longleftrightarrow> unat (rb_processedPos b) \<le> unat (rb_readPos b) \<and> unat (rb_readPos b) \<le> 65536 \<and>
     rb_capacity b = 65536 \<and> length (rb_buffer b) = 65536"

text \<open>The bytes that were received and not yet processed.\<close>

definition pending_bytes :: "RecvBuffer \<Rightarrow> u8 list" where
  "pending_bytes b = take (unat (rb_readPos b) - unat (rb_processedPos b)) (drop (unat (rb_processedPos b)) (rb_buffer b))"

lemma rb_ok_new: "rb_ok MakeRecvBuffer" "pending_bytes MakeRecvBuffer = []" "rb_readPos MakeRecvBuffer = 0"
  by (simp_all add: rb_ok_def MakeRecvBuffer_def BUFFER_SIZE_def pending_bytes_def)

lemma length_pending: "rb_ok b \<Longrightarrow> length (pending_bytes b) = unat (rb_readPos b) - unat (rb_processedPos b)"
  by (auto simp: pending_bytes_def rb_ok_def)

lemma i32_ok_nat: "n < 2 ^ 31 \<Longrightarrow> i32_ok (int n)"
  by (simp add: i32_ok_def)

lemma to_i32_small:
  assumes "unat w < 2 ^ 31"
  shows "to_i32 w = int (unat w)"
proof -
  have "w = to_u32 (int (unat w))" by (simp add: to_u32_def)
  then have "to_i32 w = to_i32 (to_u32 (int (unat w)))" by simp
  also have "\<dots> = int (unat w)" by (rule to_i32_to_u32 [OF i32_ok_nat [OF assms]])
  finally show ?thesis .
qed

lemma unat_to_u32: "n < 2 ^ 32 \<Longrightarrow> unat (to_u32 (int n)) = n"
  by (simp add: to_u32_def unat_of_nat)

lemma DataSize_pending:
  assumes "rb_ok b"
  shows "DataSize b = int (length (pending_bytes b))"
proof -
  have le: "rb_processedPos b \<le> rb_readPos b" using assms by (simp add: rb_ok_def word_le_nat_alt)
  have "unat (rb_readPos b - rb_processedPos b) = unat (rb_readPos b) - unat (rb_processedPos b)"
    by (rule unat_sub [OF le])
  moreover have "to_i32 (rb_readPos b - rb_processedPos b) = int (unat (rb_readPos b - rb_processedPos b))"
    using assms calculation by (intro to_i32_small) (auto simp: rb_ok_def)
  ultimately show ?thesis by (simp only: DataSize_def length_pending [OF assms])
qed

lemma FreeSize_eq:
  assumes "rb_ok b"
  shows "FreeSize b = 65536 - int (unat (rb_readPos b))"
proof -
  have le: "rb_readPos b \<le> 65536" using assms by (simp add: rb_ok_def word_le_nat_alt)
  have u: "unat (65536 - rb_readPos b) = 65536 - unat (rb_readPos b)" using unat_sub [OF le] by simp
  then have "to_i32 (65536 - rb_readPos b) = int (65536 - unat (rb_readPos b))"
    by (subst to_i32_small) (simp_all only: u, simp)
  then show ?thesis using assms by (simp add: FreeSize_def rb_ok_def of_nat_diff)
qed

lemma receive_pending:
  assumes ok: "rb_ok b" and len: "unat (rb_readPos b) + length bs \<le> 65536"
  defines "b' \<equiv> OnRead (int (length bs)) (kernel_write bs b)"
  shows "rb_ok b'" "pending_bytes b' = pending_bytes b @ bs" "unat (rb_readPos b') = unat (rb_readPos b) + length bs"
proof -
  have n: "unat (to_u32 (int (length bs))) = length bs" using len by (intro unat_to_u32) simp
  have "unat (rb_readPos b + to_u32 (int (length bs))) = unat (rb_readPos b) + unat (to_u32 (int (length bs)))"
    using len n by (intro unat_add_lem [THEN iffD1]) simp
  then show r: "unat (rb_readPos b') = unat (rb_readPos b) + length bs"
    by (simp add: b'_def OnRead_def kernel_write_def Let_def n)
  show "rb_ok b'" using ok len r by (simp add: rb_ok_def b'_def OnRead_def kernel_write_def Let_def)
  show "pending_bytes b' = pending_bytes b @ bs"
    using ok len r by (simp add: pending_bytes_def rb_ok_def b'_def OnRead_def kernel_write_def Let_def drop_take)
qed

lemma process_pending:
  assumes ok: "rb_ok b" and len: "n \<le> length (pending_bytes b)"
  defines "b' \<equiv> fst (OnProcess (int n) b)"
  shows "rb_ok b'" "pending_bytes b' = drop n (pending_bytes b)" "rb_readPos b' = rb_readPos b"
proof -
  have l: "n \<le> unat (rb_readPos b) - unat (rb_processedPos b)" using len by (simp add: length_pending [OF ok])
  have b': "b' = b\<lparr>rb_processedPos := rb_processedPos b + to_u32 (int n)\<rparr>"
    using len by (simp add: b'_def OnProcess_def DataSize_pending [OF ok])
  have n: "unat (to_u32 (int n)) = n" using l ok by (intro unat_to_u32) (auto simp: rb_ok_def)
  have "unat (rb_processedPos b + to_u32 (int n)) = unat (rb_processedPos b) + unat (to_u32 (int n))"
    using ok l n by (intro unat_add_lem [THEN iffD1]) (auto simp: rb_ok_def)
  then have p: "unat (rb_processedPos b') = unat (rb_processedPos b) + n" by (simp add: b' n)
  show "rb_readPos b' = rb_readPos b" by (simp add: b')
  show "rb_ok b'" using ok p l by (auto simp: rb_ok_def b')
  show "pending_bytes b' = drop n (pending_bytes b)"
    using p by (simp add: pending_bytes_def) (simp add: b' drop_take add.commute)
qed

text \<open>
  \<open>Clean\<close>, which nothing calls, would reclaim the room without losing a byte. (The source
  copies with \<open>memcpy\<close>, for which the regions must not overlap.)
\<close>

lemma Clean_pending:
  assumes ok: "rb_ok b"
  shows "rb_ok (Clean b)" "pending_bytes (Clean b) = pending_bytes b"
    "pending_bytes b = [] \<Longrightarrow> FreeSize (Clean b) = 65536"
proof -
  define p n where "p = unat (rb_processedPos b)" and "n = unat (rb_readPos b) - unat (rb_processedPos b)"
  have n: "DataSize b = int n" by (simp only: DataSize_pending [OF ok] length_pending [OF ok] n_def)
  have le: "n \<le> 65536" "p + n \<le> 65536" using ok by (auto simp: rb_ok_def p_def n_def)
  then have u: "unat (to_u32 (int n)) = n" by (intro unat_to_u32) simp
  have b: "pending_bytes b = take n (drop p (rb_buffer b))" "length (rb_buffer b) = 65536" "rb_capacity b = 65536"
    using ok by (simp_all add: pending_bytes_def p_def n_def rb_ok_def)
  have "rb_ok (Clean b) \<and> pending_bytes (Clean b) = pending_bytes b"
  proof (cases "n = 0")
    case True
    then have "Clean b = b\<lparr>rb_processedPos := 0, rb_readPos := 0\<rparr>" by (simp add: Clean_def n)
    then show ?thesis using b True by (simp add: rb_ok_def pending_bytes_def)
  next
    case False
    show ?thesis
    proof (cases "to_u32 (FreeSize b) < rb_bufferSize b")
      case True
      with False have "Clean b = b\<lparr>rb_buffer := copy_bytes 0 p n (rb_buffer b), rb_processedPos := 0, rb_readPos := to_u32 (int n)\<rparr>"
        by (simp add: Clean_def n p_def Let_def)
      moreover have "pending_bytes (b\<lparr>rb_buffer := copy_bytes 0 p n (rb_buffer b), rb_processedPos := 0, rb_readPos := to_u32 (int n)\<rparr>) = pending_bytes b"
        using b le by (simp add: b(1)) (simp add: pending_bytes_def u copy_bytes_def)
      ultimately show ?thesis using b le by (simp add: rb_ok_def u copy_bytes_def)
    next
      case F: False
      then show ?thesis using ok False by (simp add: Clean_def n Let_def)
    qed
  qed
  then show "rb_ok (Clean b)" "pending_bytes (Clean b) = pending_bytes b" by blast+
  show "pending_bytes b = [] \<Longrightarrow> FreeSize (Clean b) = 65536"
  proof -
    assume "pending_bytes b = []"
    then have "n = 0" using length_pending [OF ok] by (simp add: n_def)
    then have "unat (rb_readPos (Clean b)) = 0" by (simp add: Clean_def n)
    then show ?thesis using FreeSize_eq [OF \<open>rb_ok (Clean b)\<close>] by simp
  qed
qed


section \<open>Framing is undone by the read loop\<close>

definition framed :: "u8 list \<Rightarrow> bool" where
  "framed p \<longleftrightarrow> IPC_HEADER_SIZE \<le> length p \<and> unat (ipc_size p) = length p"

text \<open>Less than a packet: the header is not complete, or the body is not.\<close>

definition incomplete :: "u8 list \<Rightarrow> bool" where
  "incomplete bs \<longleftrightarrow> length bs < IPC_HEADER_SIZE \<or> length bs < unat (ipc_size bs)"

fun accepts :: "(u8 list \<Rightarrow> 's \<Rightarrow> 's \<times> bool) \<Rightarrow> u8 list list \<Rightarrow> 's \<Rightarrow> bool" where
  "accepts handle [] s = True"
| "accepts handle (p # ps) s \<longleftrightarrow> snd (handle p s) \<and> accepts handle ps (fst (handle p s))"

definition handle_all :: "(u8 list \<Rightarrow> 's \<Rightarrow> 's \<times> bool) \<Rightarrow> u8 list list \<Rightarrow> 's \<Rightarrow> 's" where
  "handle_all handle ps s = fold (\<lambda>p s. fst (handle p s)) ps s"

lemma ipc_size_prefix: "IPC_HEADER_SIZE \<le> length p \<Longrightarrow> ipc_size (p @ xs) = ipc_size p"
  by (simp add: ipc_size_def field_def IPC_HEADER_SIZE_def)

lemma buffer_pending:
  "drop (unat (rb_processedPos b)) (rb_buffer b) =
     pending_bytes b @ drop (unat (rb_readPos b) - unat (rb_processedPos b)) (drop (unat (rb_processedPos b)) (rb_buffer b))"
  unfolding pending_bytes_def by (rule append_take_drop_id [symmetric])

lemma ipc_size_pending:
  assumes "IPC_HEADER_SIZE \<le> length (pending_bytes b)"
  shows "ipc_size (drop (unat (rb_processedPos b)) (rb_buffer b)) = ipc_size (pending_bytes b)"
  using ipc_size_prefix [OF assms] buffer_pending by metis

text \<open>One turn of the loop on the pending bytes.\<close>

lemma process_stop:
  assumes "rb_ok b" "incomplete (pending_bytes b)"
  shows "process_packets handle b s = Some (b, s, True)"
proof -
  have "DataSize b < int IPC_HEADER_SIZE \<or>
      DataSize b < uint (ipc_size (drop (unat (rb_processedPos b)) (rb_buffer b)))"
    using assms ipc_size_pending [of b]
    by (cases "length (pending_bytes b) < IPC_HEADER_SIZE") (auto simp: incomplete_def DataSize_pending uint_nat simp del: of_nat_unat)
  then show ?thesis by (subst process_packets.simps) (auto simp: Let_def)
qed

lemma process_turn:
  assumes ok: "rb_ok b" and p: "framed p" and b: "pending_bytes b = p @ rest"
  shows "process_packets handle b s =
    (if snd (handle p s) then process_packets handle (fst (OnProcess (int (length p)) b)) (fst (handle p s))
     else Some (b, fst (handle p s), False))"
proof -
  let ?d = "drop (unat (rb_processedPos b)) (rb_buffer b)"
  have len: "IPC_HEADER_SIZE \<le> length (pending_bytes b)" using p by (simp add: b framed_def)
  have sz: "uint (ipc_size ?d) = int (length p)"
    using p by (simp add: ipc_size_pending [OF len] b ipc_size_prefix framed_def uint_nat del: of_nat_unat)
  have t: "take (length p) ?d = p" by (subst buffer_pending) (simp add: b)
  have n: "DataSize b = int (length p + length rest)" using DataSize_pending [OF ok] b by simp
  show ?thesis
    using p by (subst process_packets.simps) (simp add: sz t n Let_def framed_def max_def case_prod_beta)
qed

lemma process_frames:
  "rb_ok b \<Longrightarrow> \<forall>p\<in>set fs. framed p \<Longrightarrow> pending_bytes b = concat fs @ rest \<Longrightarrow> incomplete rest \<Longrightarrow> accepts handle fs s \<Longrightarrow>
   \<exists>b'. process_packets handle b s = Some (b', handle_all handle fs s, True) \<and> rb_ok b' \<and> pending_bytes b' = rest \<and>
     rb_readPos b' = rb_readPos b"
proof (induction fs arbitrary: b s)
  case Nil
  then show ?case by (intro exI [of _ b]) (simp add: process_stop handle_all_def)
next
  case (Cons p fs)
  define b1 where "b1 = fst (OnProcess (int (length p)) b)"
  have "length p \<le> length (pending_bytes b)" using Cons.prems(3) by simp
  note b1 = process_pending [OF Cons.prems(1) this, folded b1_def]
  have "process_packets handle b s = process_packets handle b1 (fst (handle p s))"
    unfolding b1_def using Cons.prems by (subst process_turn [where p = p and rest = "concat fs @ rest"]) auto
  moreover have "\<exists>b'. process_packets handle b1 (fst (handle p s)) = Some (b', handle_all handle fs (fst (handle p s)), True) \<and>
      rb_ok b' \<and> pending_bytes b' = rest \<and> rb_readPos b' = rb_readPos b1"
    using Cons.prems b1 by (intro Cons.IH) auto
  ultimately show ?case using b1(3) by (simp add: handle_all_def)
qed

text \<open>A refused packet ends the loop before the packet is taken out of the buffer.\<close>

lemma process_refused:
  "rb_ok b \<Longrightarrow> \<forall>q\<in>set (fs @ [p]). framed q \<Longrightarrow> pending_bytes b = concat fs @ p @ rest \<Longrightarrow> accepts handle fs s \<Longrightarrow>
   \<not> snd (handle p (handle_all handle fs s)) \<Longrightarrow>
   \<exists>b'. process_packets handle b s = Some (b', fst (handle p (handle_all handle fs s)), False) \<and> pending_bytes b' = p @ rest"
proof (induction fs arbitrary: b s)
  case Nil
  then show ?case by (intro exI [of _ b]) (simp add: process_turn [where p = p and rest = rest] handle_all_def)
next
  case (Cons q fs)
  define b1 where "b1 = fst (OnProcess (int (length q)) b)"
  have "length q \<le> length (pending_bytes b)" using Cons.prems(3) by simp
  note b1 = process_pending [OF Cons.prems(1) this, folded b1_def]
  have "process_packets handle b s = process_packets handle b1 (fst (handle q s))"
    unfolding b1_def using Cons.prems by (subst process_turn [where p = q and rest = "concat fs @ p @ rest"]) auto
  moreover have "\<exists>b'. process_packets handle b1 (fst (handle q s)) =
      Some (b', fst (handle p (handle_all handle fs (fst (handle q s)))), False) \<and> pending_bytes b' = p @ rest"
    using Cons.prems b1 by (intro Cons.IH) (auto simp: handle_all_def)
  ultimately show ?case by (simp add: handle_all_def)
qed

text \<open>A prefix of a stream of packets is some whole packets and less than the next one.\<close>

lemma prefix_of_frames:
  "bs @ xs = concat fs \<Longrightarrow> \<forall>p\<in>set fs. framed p \<Longrightarrow>
   \<exists>fs1 fs2 rest. fs = fs1 @ fs2 \<and> bs = concat fs1 @ rest \<and> incomplete rest \<and> rest @ xs = concat fs2 \<and> (xs = [] \<longrightarrow> fs2 = [])"
proof (induction fs arbitrary: bs)
  case Nil
  then show ?case by (intro exI [of _ "[]"]) (simp add: incomplete_def IPC_HEADER_SIZE_def)
next
  case (Cons p fs)
  from Cons.prems(1) have "bs @ xs = p @ concat fs" by simp
  then consider (whole) us where "bs = p @ us" "us @ xs = concat fs"
    | (part) us where "p = bs @ us" "us \<noteq> []" "xs = us @ concat fs"
    unfolding append_eq_append_conv2 by (metis append_Nil append_Nil2)
  then show ?case
  proof cases
    case whole
    from Cons.IH [OF whole(2)] Cons.prems(2) obtain fs1 fs2 rest where
      "fs = fs1 @ fs2" "us = concat fs1 @ rest" "incomplete rest" "rest @ xs = concat fs2" "xs = [] \<longrightarrow> fs2 = []" by auto
    then show ?thesis by (intro exI [of _ "p # fs1"] exI [of _ fs2] exI [of _ rest]) (simp add: whole(1))
  next
    case part
    have "incomplete bs"
    proof (cases "length bs < IPC_HEADER_SIZE")
      case False
      then show ?thesis using Cons.prems(2) part(1,2) by (simp add: incomplete_def framed_def ipc_size_prefix)
    qed (simp add: incomplete_def)
    moreover have "xs \<noteq> []" using part by simp
    ultimately show ?thesis using Cons.prems(1) by (intro exI [of _ "[]"] exI [of _ "p # fs"] exI [of _ bs]) simp
  qed
qed

text \<open>The kernel delivers the stream in pieces; each piece completes a read.\<close>

fun deliver :: "(u8 list \<Rightarrow> 's \<Rightarrow> 's \<times> bool) \<Rightarrow> u8 list list \<Rightarrow> RecvBuffer \<Rightarrow> 's \<Rightarrow> (RecvBuffer \<times> 's \<times> bool) option" where
  "deliver handle [] b s = Some (b, s, True)"
| "deliver handle (c # cs) b s =
     (case OnReadComplete handle (int (length c)) (kernel_write c b) s of None \<Rightarrow> None
      | Some (b', s', again) \<Rightarrow> if again then deliver handle cs b' s' else Some (b', s', False))"

lemma accepts_append: "accepts handle (ps @ qs) s \<longleftrightarrow> accepts handle ps s \<and> accepts handle qs (handle_all handle ps s)"
  by (induction ps arbitrary: s) (auto simp: handle_all_def)

lemma handle_all_append: "handle_all handle (ps @ qs) s = handle_all handle qs (handle_all handle ps s)"
  by (simp add: handle_all_def)

lemma deliver_frames:
  "rb_ok b \<Longrightarrow> \<forall>p\<in>set fs. framed p \<Longrightarrow> [] \<notin> set cs \<Longrightarrow> pending_bytes b @ concat cs = concat fs \<Longrightarrow>
   incomplete (pending_bytes b) \<Longrightarrow> (cs = [] \<longrightarrow> fs = []) \<Longrightarrow>
   unat (rb_readPos b) + length (concat cs) \<le> 65536 \<Longrightarrow> accepts handle fs s \<Longrightarrow>
   \<exists>b'. deliver handle cs b s = Some (b', handle_all handle fs s, True) \<and> rb_ok b' \<and> pending_bytes b' = [] \<and>
     unat (rb_readPos b') = unat (rb_readPos b) + length (concat cs)"
proof (induction cs arbitrary: b fs s)
  case Nil
  then show ?case by (intro exI [of _ b]) (simp add: handle_all_def)
next
  case (Cons c cs)
  define b1 where "b1 = OnRead (int (length c)) (kernel_write c b)"
  have "unat (rb_readPos b) + length c \<le> 65536" using Cons.prems(7) by simp
  note b1 = receive_pending [OF Cons.prems(1) this, folded b1_def]
  have "(pending_bytes b @ c) @ concat cs = concat fs" using Cons.prems(4) by simp
  from prefix_of_frames [OF this Cons.prems(2)] obtain fs1 fs2 rest where
    fs: "fs = fs1 @ fs2" "pending_bytes b @ c = concat fs1 @ rest" "incomplete rest" "rest @ concat cs = concat fs2"
      "concat cs = [] \<longrightarrow> fs2 = []" by blast
  have acc: "accepts handle fs1 s" "accepts handle fs2 (handle_all handle fs1 s)"
    using Cons.prems(8) by (simp_all add: fs(1) accepts_append)
  obtain b2 where b2: "process_packets handle b1 s = Some (b2, handle_all handle fs1 s, True)" "rb_ok b2"
    "pending_bytes b2 = rest" "rb_readPos b2 = rb_readPos b1"
    using process_frames [OF b1(1) _ _ fs(3) acc(1)] Cons.prems(2) b1(2) fs(1,2) by auto
  have "c \<noteq> []" using Cons.prems(3) by auto
  then have st: "deliver handle (c # cs) b s = deliver handle cs b2 (handle_all handle fs1 s)"
    by (simp add: OnReadComplete_def b1_def [symmetric] b2(1))
  have "\<exists>b'. deliver handle cs b2 (handle_all handle fs1 s) = Some (b', handle_all handle fs2 (handle_all handle fs1 s), True) \<and>
      rb_ok b' \<and> pending_bytes b' = [] \<and> unat (rb_readPos b') = unat (rb_readPos b2) + length (concat cs)"
    using Cons.prems(2,3,7) b1(3) b2 fs acc(2) by (intro Cons.IH) auto
  then show ?case using b1(3) b2(4) by (simp add: st fs(1) handle_all_append add.assoc del: deliver.simps)
qed

text \<open>The frames of \<open>MakeSendBuffer\<close>, for messages that fit.\<close>

lemma MakeSendBuffer_framed:
  assumes "length payload + IPC_HEADER_SIZE < 2 ^ 16"
  shows "framed (MakeSendBuffer i payload)" "ipc_id (MakeSendBuffer i payload) = i"
    "drop IPC_HEADER_SIZE (MakeSendBuffer i payload) = payload" "length (MakeSendBuffer i payload) = length payload + IPC_HEADER_SIZE"
proof -
  define sz :: u16 where "sz = of_nat (length payload) + of_nat IPC_HEADER_SIZE"
  have u: "unat (of_nat (length payload) :: u16) = length payload" using assms by (simp add: unat_of_nat IPC_HEADER_SIZE_def)
  have "sz = of_nat (length payload + IPC_HEADER_SIZE)" by (simp add: sz_def)
  then have "unat sz = (length payload + IPC_HEADER_SIZE) mod 2 ^ LENGTH(16)" by (simp only: unat_of_nat)
  then have us: "unat sz = length payload + IPC_HEADER_SIZE" using assms by simp
  have m: "MakeSendBuffer i payload = le_bytes 2 i @ le_bytes 2 sz @ payload"
    unfolding MakeSendBuffer_def Let_def sz_def [symmetric] u us by (simp add: IPC_HEADER_SIZE_def)
  show "length (MakeSendBuffer i payload) = length payload + IPC_HEADER_SIZE" by (simp add: m IPC_HEADER_SIZE_def)
  show "ipc_id (MakeSendBuffer i payload) = i"
    unfolding ipc_id_def by (rule field_at [where xs = "[]"]) (simp_all add: m)
  have "ipc_size (MakeSendBuffer i payload) = sz"
    unfolding ipc_size_def by (rule field_at [where xs = "le_bytes 2 i"]) (simp_all add: m)
  then show "framed (MakeSendBuffer i payload)" by (simp add: framed_def us) (simp add: m IPC_HEADER_SIZE_def)
  show "drop IPC_HEADER_SIZE (MakeSendBuffer i payload) = payload" by (simp add: m IPC_HEADER_SIZE_def)
qed

text \<open>Messages framed by \<open>MakeSendBuffer\<close> and cut into reads in any way reach the handler in order.\<close>

lemma deliver_messages:
  assumes "\<forall>x\<in>set msgs. length (snd x) + IPC_HEADER_SIZE < 2 ^ 16"
    and "concat cs = concat (map (\<lambda>x. MakeSendBuffer (fst x) (snd x)) msgs)" and "[] \<notin> set cs"
    and "length (concat cs) \<le> 65536"
    and "accepts handle (map (\<lambda>x. MakeSendBuffer (fst x) (snd x)) msgs) s"
  shows "\<exists>b. deliver handle cs MakeRecvBuffer s =
        Some (b, handle_all handle (map (\<lambda>x. MakeSendBuffer (fst x) (snd x)) msgs) s, True) \<and>
      pending_bytes b = [] \<and> FreeSize b = 65536 - int (length (concat cs))"
proof -
  let ?fs = "map (\<lambda>x. MakeSendBuffer (fst x) (snd x)) msgs"
  have fr: "\<forall>p\<in>set ?fs. framed p" using assms(1) MakeSendBuffer_framed(1) by auto
  have "p \<noteq> []" if "p \<in> set ?fs" for p using fr that by (auto simp: framed_def IPC_HEADER_SIZE_def)
  then have "cs = [] \<longrightarrow> ?fs = []" using assms(2) by (cases msgs) auto
  moreover have "incomplete (pending_bytes MakeRecvBuffer)" by (simp add: rb_ok_new incomplete_def IPC_HEADER_SIZE_def)
  ultimately have "\<exists>b. deliver handle cs MakeRecvBuffer s = Some (b, handle_all handle ?fs s, True) \<and> rb_ok b \<and>
      pending_bytes b = [] \<and> unat (rb_readPos b) = unat (rb_readPos MakeRecvBuffer) + length (concat cs)"
    using assms(2,4,5) by (intro deliver_frames [OF rb_ok_new(1) fr assms(3)]) (simp_all add: rb_ok_new)
  then obtain b where b: "deliver handle cs MakeRecvBuffer s = Some (b, handle_all handle ?fs s, True)" "rb_ok b"
    "pending_bytes b = []" "unat (rb_readPos b) = length (concat cs)" by (auto simp: rb_ok_new)
  have "FreeSize b = 65536 - int (length (concat cs))" using FreeSize_eq [OF b(2)] b(4) by simp
  then show ?thesis using b by blast
qed

text \<open>C32. The byte stream between the processes loses nothing: however the kernel cuts the stream into
  reads, the packets written by \<open>MakeSendBuffer\<close> reach the handler one by one, in order, each
  with its own id and payload, as long as the handler accepts them and the stream fits the
  buffer. The buffer is not reclaimed while it runs empty again and again: every byte received
  shortens the room for the next read for good.\<close>

theorem ipc_stream_roundtrip:
  assumes "\<forall>x\<in>set msgs. length (snd x) + IPC_HEADER_SIZE < 2 ^ 16"
    and "concat cs = concat (map (\<lambda>x. MakeSendBuffer (fst x) (snd x)) msgs)" and "[] \<notin> set cs"
    and "length (concat cs) \<le> 65536"
    and "accepts handle (map (\<lambda>x. MakeSendBuffer (fst x) (snd x)) msgs) s"
  shows "(\<exists>b. deliver handle cs MakeRecvBuffer s =
        Some (b, fold (\<lambda>x s. fst (handle (MakeSendBuffer (fst x) (snd x)) s)) msgs s, True) \<and>
      pending_bytes b = [] \<and> FreeSize b = 65536 - int (length (concat cs))) \<and>
    (\<forall>x\<in>set msgs. ipc_id (MakeSendBuffer (fst x) (snd x)) = fst x \<and>
       drop IPC_HEADER_SIZE (MakeSendBuffer (fst x) (snd x)) = snd x)"
  using deliver_messages [OF assms] assms(1) MakeSendBuffer_framed(2,3) by (auto simp: handle_all_def fold_map comp_def)

theorem ipc_stream_roundtrip_witness:
  "\<exists>b. deliver (\<lambda>p s. (s @ [drop 4 p], True)) [[2, 0, 5], [0, 7, 3, 0], [6, 0, 8, 9]] MakeRecvBuffer [] =
     Some (b, [[7], [8, 9]], True) \<and> pending_bytes b = []"
proof -
  let ?msgs = "[(2, [7]), (3, [8, 9])] :: (u16 \<times> u8 list) list"
  have p: "map (\<lambda>x. MakeSendBuffer (fst x) (snd x)) ?msgs = [[2, 0, 5, 0, 7], [3, 0, 6, 0, 8, 9]]" by code_simp
  show ?thesis
    using ipc_stream_roundtrip [of ?msgs "[[2, 0, 5], [0, 7, 3, 0], [6, 0, 8, 9]]" "\<lambda>p s. (s @ [drop 4 p], True)" "[]"] p
    by (auto simp: IPC_HEADER_SIZE_def)
qed

section \<open>Send buffers do not overlap\<close>

definition chunks_ok :: "SendChunks \<Rightarrow> bool" where
  "chunks_ok st = (case sc_current st of None \<Rightarrow> True | Some c \<Rightarrow> \<not> ch_isOpen c \<and> unat (ch_usedSize c) \<le> 65536)"

text \<open>A region lies behind everything the state has handed out, and behind an earlier region.\<close>

definition region_after :: "SendChunks \<Rightarrow> SendRegion \<Rightarrow> bool" where
  "region_after st r \<longleftrightarrow> sc_count st < sr_chunk r \<or>
     (sc_count st = sr_chunk r \<and> (\<exists>c. sc_current st = Some c \<and> unat (ch_usedSize c) \<le> unat (sr_offset r)))"

definition region_before :: "SendRegion \<Rightarrow> SendRegion \<Rightarrow> bool" where
  "region_before r r' \<longleftrightarrow> sr_chunk r < sr_chunk r' \<or>
     (sr_chunk r = sr_chunk r' \<and> unat (sr_offset r) + unat (sr_writeSize r) \<le> unat (sr_offset r'))"

lemma unat_free:
  assumes "unat u \<le> 65536"
  shows "65536 - u < n \<longleftrightarrow> 65536 - unat u < unat (n :: u32)"
proof -
  have "unat (65536 - u) = unat (65536 :: u32) - unat u" using assms by (intro unat_sub) (simp add: word_le_nat_alt)
  then show ?thesis by (simp add: word_less_nat_alt)
qed

lemma unat_used:
  assumes "unat u + unat n \<le> 65536"
  shows "unat (u + n :: u32) = unat u + unat n"
  using assms by (intro unat_add_lem [THEN iffD1]) simp

lemma send_region_ok:
  assumes ok: "chunks_ok st" and n: "n \<le> 65536"
  shows "\<exists>b st'. send_region n st = Inr (Some b, st') \<and> chunks_ok st' \<and> sr_writeSize b = n \<and> unat (sr_offset b) + unat n \<le> 65536 \<and>
     region_after st b \<and> (\<forall>r. region_after st' r \<longrightarrow> region_before b r \<and> region_after st r)"
proof (cases "\<exists>c. sc_current st = Some c \<and> \<not> Chunk_FreeSize c < n")
  case True
  then obtain c where c: "sc_current st = Some c" "\<not> Chunk_FreeSize c < n" by blast
  then have u: "\<not> ch_isOpen c" "unat (ch_usedSize c) \<le> 65536" using ok by (auto simp: chunks_ok_def)
  have f: "unat (ch_usedSize c) + unat n \<le> 65536"
    using c(2) u(2) by (simp add: Chunk_FreeSize_def SEND_BUFFER_CHUNK_SIZE_def unat_free)
  show ?thesis
    using c u n f unat_used [OF f]
    by (auto simp: send_region_def OpenSendBuffer_def SendBuffer_Close_def Chunk_Open_def Chunk_Close_def chunks_ok_def
      region_after_def region_before_def SEND_BUFFER_CHUNK_SIZE_def)
next
  case False
  have un: "unat n \<le> 65536" using n by (simp add: word_le_nat_alt)
  show ?thesis
  proof (cases "sc_current st")
    case None
    then show ?thesis using n un
      by (auto simp: send_region_def OpenSendBuffer_def SendBuffer_Close_def Chunk_Open_def Chunk_Close_def Chunk_FreeSize_def
        chunks_ok_def region_after_def region_before_def SEND_BUFFER_CHUNK_SIZE_def)
  next
    case (Some c)
    then have "Chunk_FreeSize c < n" using False by blast
    then show ?thesis using Some n un
      by (auto simp: send_region_def OpenSendBuffer_def SendBuffer_Close_def Chunk_Open_def Chunk_Close_def Chunk_FreeSize_def
        chunks_ok_def region_after_def region_before_def SEND_BUFFER_CHUNK_SIZE_def)
  qed
qed

lemma send_regions_ok:
  "chunks_ok st \<Longrightarrow> \<forall>n\<in>set ns. n \<le> 65536 \<Longrightarrow>
   \<exists>bs st'. send_regions ns st = Inr (bs, st') \<and> chunks_ok st' \<and> map sr_writeSize bs = ns \<and>
     (\<forall>b\<in>set bs. unat (sr_offset b) + unat (sr_writeSize b) \<le> 65536 \<and> region_after st b) \<and> sorted_wrt region_before bs"
proof (induction ns arbitrary: st)
  case (Cons n ns)
  then have "n \<le> 65536" by simp
  from send_region_ok [OF Cons.prems(1) this] obtain b st1 where b: "send_region n st = Inr (Some b, st1)" "chunks_ok st1"
    "sr_writeSize b = n" "unat (sr_offset b) + unat n \<le> 65536" "region_after st b"
    "\<forall>r. region_after st1 r \<longrightarrow> region_before b r \<and> region_after st r" by blast
  from Cons.IH [OF b(2)] Cons.prems(2) obtain bs st2 where "send_regions ns st1 = Inr (bs, st2)" "chunks_ok st2"
    "map sr_writeSize bs = ns" "\<forall>b\<in>set bs. unat (sr_offset b) + unat (sr_writeSize b) \<le> 65536 \<and> region_after st1 b"
    "sorted_wrt region_before bs" by auto
  then show ?case using b by (intro exI [of _ "b # bs"] exI [of _ st2]) auto
qed simp

text \<open>C33. The packets waiting to be sent never overwrite each other: whatever the sizes, up to a
  chunk each, every packet gets a region of its own, of its size and inside one chunk of 65536
  bytes, opening and closing never fail, and two regions of the same chunk are disjoint.\<close>

theorem send_buffers_disjoint:
  assumes "\<forall>n\<in>set ns. n \<le> SEND_BUFFER_CHUNK_SIZE"
  shows "\<exists>bs st. send_regions ns \<lparr>sc_current = None, sc_count = 0\<rparr> = Inr (bs, st) \<and> map sr_writeSize bs = ns \<and>
     (\<forall>b\<in>set bs. unat (sr_offset b) + unat (sr_writeSize b) \<le> unat SEND_BUFFER_CHUNK_SIZE) \<and>
     (\<forall>i j. i < j \<longrightarrow> j < length bs \<longrightarrow> sr_chunk (bs ! i) = sr_chunk (bs ! j) \<longrightarrow>
        unat (sr_offset (bs ! i)) + unat (sr_writeSize (bs ! i)) \<le> unat (sr_offset (bs ! j)))"
proof -
  let ?st = "\<lparr>sc_current = None, sc_count = 0\<rparr>"
  have "chunks_ok ?st" by (simp add: chunks_ok_def)
  from send_regions_ok [OF this] assms obtain bs st where bs: "send_regions ns ?st = Inr (bs, st)" "map sr_writeSize bs = ns"
    "\<forall>b\<in>set bs. unat (sr_offset b) + unat (sr_writeSize b) \<le> 65536" "sorted_wrt region_before bs"
    unfolding SEND_BUFFER_CHUNK_SIZE_def by blast
  have "unat (sr_offset (bs ! i)) + unat (sr_writeSize (bs ! i)) \<le> unat (sr_offset (bs ! j))"
    if "i < j" "j < length bs" "sr_chunk (bs ! i) = sr_chunk (bs ! j)" for i j
    using sorted_wrt_nth_less [OF bs(4) that(1,2)] that(3) by (simp add: region_before_def)
  then show ?thesis using bs by (intro exI [of _ bs] exI [of _ st]) (simp add: SEND_BUFFER_CHUNK_SIZE_def)
qed

theorem send_buffers_disjoint_witness:
  "\<exists>bs st. send_regions [40000, 20000, 30000] \<lparr>sc_current = None, sc_count = 0\<rparr> = Inr (bs, st) \<and> length bs = 3"
proof -
  have "\<forall>n\<in>set [40000, 20000, 30000]. n \<le> SEND_BUFFER_CHUNK_SIZE" by (simp add: SEND_BUFFER_CHUNK_SIZE_def)
  from send_buffers_disjoint [OF this] obtain bs st where
    "send_regions [40000, 20000, 30000] \<lparr>sc_current = None, sc_count = 0\<rparr> = Inr (bs, st)"
    "map sr_writeSize bs = [40000, 20000, 30000]" by (elim exE conjE) (rule that)
  moreover from arg_cong [OF this(2), of length] have "length bs = 3" by simp
  ultimately show ?thesis by blast
qed

section \<open>Dispatch\<close>

text \<open>The handlers \<open>PacketHandler::Init\<close> registers; \<open>UINT16_MAX\<close> entries, one less than there are ids.\<close>

datatype IpcHandler = IpcInvalid | IpcWelcome | IpcMatchMake | IpcMatchMakeCancel | IpcBindClientIpToSession | IpcInitComplete
  | IpcMakeRoomForThisGroup | IpcUpdateEntryToken | IpcNotifyPlayerLeft | IpcNotifyRoomDestroyed

definition ipc_handlers :: "(nat \<times> IpcHandler) list" where
  "ipc_handlers = [(1, IpcWelcome), (2, IpcMatchMake), (3, IpcMatchMakeCancel), (4, IpcBindClientIpToSession), (100, IpcInitComplete),
     (101, IpcMakeRoomForThisGroup), (102, IpcUpdateEntryToken), (103, IpcNotifyPlayerLeft), (104, IpcNotifyRoomDestroyed)]"

definition PacketHandler_Init :: "IpcHandler list" where
  "PacketHandler_Init = fold (\<lambda>(i, h) t. t[i := h]) ipc_handlers (replicate 65535 IpcInvalid)"

text \<open>The entry \<open>HandlePacket\<close> reads for a packet; \<open>None\<close> is a read past the end of the table.\<close>

definition packet_handler :: "u8 list \<Rightarrow> IpcHandler option" where
  "packet_handler bs =
     (let i = unat (ipc_id bs) in if i < length PacketHandler_Init then Some (PacketHandler_Init ! i) else None)"

lemma length_handlers: "length PacketHandler_Init = 65535"
  by (simp add: PacketHandler_Init_def ipc_handlers_def)

lemma handler_at: "i < 65535 \<Longrightarrow> PacketHandler_Init ! i = (case map_of ipc_handlers i of None \<Rightarrow> IpcInvalid | Some h \<Rightarrow> h)"
  by (simp add: PacketHandler_Init_def ipc_handlers_def nth_list_update)

text \<open>A packet made for an id reaches the handler registered for the id, an id nobody registered reaches
  the invalid handler, and the last of the 16-bit ids reads past the end of the table.\<close>

theorem ipc_dispatch:
  assumes "length payload + IPC_HEADER_SIZE < 2 ^ 16"
  shows "packet_handler (MakeSendBuffer i payload) =
    (if i = 65535 then None else Some (case map_of ipc_handlers (unat i) of None \<Rightarrow> IpcInvalid | Some h \<Rightarrow> h))"
proof -
  have "unat i < 65536" using unsigned_less [of i, where ?'a = nat] by simp
  moreover have "i = 65535 \<longleftrightarrow> unat i = 65535" by (simp add: word_unat_eq_iff)
  ultimately have "(i = 65535) \<longleftrightarrow> \<not> unat i < 65535" by linarith
  then show ?thesis by (simp add: packet_handler_def MakeSendBuffer_framed(2) [OF assms] Let_def length_handlers handler_at)
qed

theorem ipc_dispatch_witness: "packet_handler (MakeSendBuffer 65535 []) = None \<and> packet_handler (MakeSendBuffer 2 []) = Some IpcMatchMake"
  using ipc_dispatch [of "[]" 65535] ipc_dispatch [of "[]" 2] by (simp add: IPC_HEADER_SIZE_def ipc_handlers_def)

end
