(* ===== verification/IpcRun.thy ===== *)
theory IpcRun
  imports MainRun Ipc
begin

text \<open>
  The main process fed by its sockets: \<open>PacketHandler::HandlePacket\<close> with the handlers of
  \<open>src/PacketHandler.cpp\<close> as they run there, the sessions of \<open>src/SocketWrapper.cpp\<close> and
  \<open>src/M2DSessions.cpp\<close> that call it from the read loop, and the handshake of
  \<open>M2DTempSession\<close>. Protocol Buffers is a parameter: a parser takes the size it is told, which
  is negative for a packet shorter than its header, and the bytes behind the header.
\<close>

section \<open>The packets of the main process\<close>

record ipc_codec =
  pb_welcome :: "int \<Rightarrow> u8 list \<Rightarrow> i32 option"
  pb_match_make :: "int \<Rightarrow> u8 list \<Rightarrow> string option"
  pb_match_make_cancel :: "int \<Rightarrow> u8 list \<Rightarrow> string option"
  pb_bind_client_ip :: "int \<Rightarrow> u8 list \<Rightarrow> (string \<times> string) option"
  pb_init_complete :: "int \<Rightarrow> u8 list \<Rightarrow> i32 option"
  pb_make_room :: "int \<Rightarrow> u8 list \<Rightarrow> M2DMakeRoomForThisGroup option"
  pb_update_entry_token :: "int \<Rightarrow> u8 list \<Rightarrow> D2MUpdateEntryToken option"
  pb_notify_player_left :: "int \<Rightarrow> u8 list \<Rightarrow> D2MNotifyPlayerLeft option"
  pb_notify_room_destroyed :: "int \<Rightarrow> u8 list \<Rightarrow> (i32 \<times> i32) option"

text \<open>The session a packet came from: the HTTPS server, or the dedicated process of a pid.\<close>

datatype IpcSession = HttpIPC i32 | DediIPC i32 i32

text \<open>The private template \<open>HandlePacket\<close>: parse, then call the handler.\<close>

definition HandleParsed ::
  "(int \<Rightarrow> u8 list \<Rightarrow> 'a option) \<Rightarrow> u8 list \<Rightarrow> ('a \<Rightarrow> ('r, 'd) main \<Rightarrow> MainError + bool \<times> ('r, 'd) main) \<Rightarrow> ('r, 'd) main \<Rightarrow>
   MainError + bool \<times> ('r, 'd) main" where
  "HandleParsed parse p func m =
     (case parse (uint (ipc_size p) - int IPC_HEADER_SIZE) (drop IPC_HEADER_SIZE p) of None \<Rightarrow> Inr (False, m)
      | Some pkt \<Rightarrow> func pkt m)"

text \<open>
  The remaining handlers of \<open>src/PacketHandler.cpp\<close>, as they run in the main process, where
  \<open>pDediServer\<close> is null. They return whether the packet is accepted.
\<close>

definition Handle_Invalid :: "('r, 'd) main \<Rightarrow> MainError + bool \<times> ('r, 'd) main" where
  "Handle_Invalid m = Inr (False, m)"

definition Handle_H2M_Welcome :: "i32 \<Rightarrow> ('r, 'd) main \<Rightarrow> MainError + bool \<times> ('r, 'd) main" where
  "Handle_H2M_Welcome echo m = Inr (True, m)"

definition Handle_H2M_MatchMakeCancel :: "string \<Rightarrow> ('r, 'd) main \<Rightarrow> MainError + bool \<times> ('r, 'd) main" where
  "Handle_H2M_MatchMakeCancel ticketKey m = Inr (True, m)"

definition Handle_H2M2D_BindClientIpToSession ::
  "('r, 'd) menv \<Rightarrow> IpcSession \<Rightarrow> string \<times> string \<Rightarrow> ('r, 'd) main \<Rightarrow> MainError + bool \<times> ('r, 'd) main" where
  "Handle_H2M2D_BindClientIpToSession e ss pkt m =
     (case ss of HttpIPC fd \<Rightarrow> Inr (True, BindClientIpToSession e (fst pkt) (snd pkt) m) | DediIPC pid fd \<Rightarrow> Inr (False, m))"

definition Handle_D2M_InitComplete :: "i32 \<Rightarrow> ('r, 'd) main \<Rightarrow> MainError + bool \<times> ('r, 'd) main" where
  "Handle_D2M_InitComplete pid m = Inr (True, m)"

definition Handle_M2D_MakeRoomForThisGroup :: "M2DMakeRoomForThisGroup \<Rightarrow> ('r, 'd) main \<Rightarrow> MainError + bool \<times> ('r, 'd) main" where
  "Handle_M2D_MakeRoomForThisGroup pkt m = Inr (False, m)"

definition GetFd :: "IpcSession \<Rightarrow> i32" where
  "GetFd ss = (case ss of HttpIPC fd \<Rightarrow> fd | DediIPC pid fd \<Rightarrow> fd)"

text \<open>\<open>HandlePacket\<close>: the handler the table has for the id. A read past the table is undefined.\<close>

definition HandlePacket ::
  "ipc_codec \<Rightarrow> ('r, 'd) menv \<Rightarrow> IpcSession \<Rightarrow> u8 list \<Rightarrow> ('r, 'd) main \<Rightarrow> MainError + bool \<times> ('r, 'd) main" where
  "HandlePacket c e ss p m =
     (case packet_handler p of None \<Rightarrow> Inl WildIndex
      | Some h \<Rightarrow>
        (case h of
           IpcInvalid \<Rightarrow> Handle_Invalid m
         | IpcWelcome \<Rightarrow> HandleParsed (pb_welcome c) p Handle_H2M_Welcome m
         | IpcMatchMake \<Rightarrow> HandleParsed (pb_match_make c) p (Handle_H2M_MatchMake e) m
         | IpcMatchMakeCancel \<Rightarrow> HandleParsed (pb_match_make_cancel c) p Handle_H2M_MatchMakeCancel m
         | IpcBindClientIpToSession \<Rightarrow> HandleParsed (pb_bind_client_ip c) p (Handle_H2M2D_BindClientIpToSession e ss) m
         | IpcInitComplete \<Rightarrow> HandleParsed (pb_init_complete c) p Handle_D2M_InitComplete m
         | IpcMakeRoomForThisGroup \<Rightarrow> HandleParsed (pb_make_room c) p Handle_M2D_MakeRoomForThisGroup m
         | IpcUpdateEntryToken \<Rightarrow> HandleParsed (pb_update_entry_token c) p (Handle_D2M_UpdateEntryToken (GetFd ss)) m
         | IpcNotifyPlayerLeft \<Rightarrow> HandleParsed (pb_notify_player_left c) p (\<lambda>pkt m. Inr (True, Handle_D2M_NotifyPlayerLeft (GetFd ss) pkt m)) m
         | IpcNotifyRoomDestroyed \<Rightarrow> HandleParsed (pb_notify_room_destroyed c) p (\<lambda>(roomId, cnt) m.
             case ss of HttpIPC fd \<Rightarrow> Inr (False, m) | DediIPC pid fd \<Rightarrow> Inr (True, Handle_D2M_NotifyRoomDestroyed pid cnt m)) m))"

text \<open>The handler of the read loop, over a process that may have ended.\<close>

definition ipc_handle ::
  "ipc_codec \<Rightarrow> ('r, 'd) menv \<Rightarrow> IpcSession \<Rightarrow> u8 list \<Rightarrow> MainError + ('r, 'd) main \<Rightarrow> (MainError + ('r, 'd) main) \<times> bool" where
  "ipc_handle c e ss p s =
     (case s of Inl er \<Rightarrow> (Inl er, False)
      | Inr m \<Rightarrow> (case HandlePacket c e ss p m of Inl er \<Rightarrow> (Inl er, False) | Inr (ok, m') \<Rightarrow> (Inr m', ok)))"

section \<open>Handshake\<close>

text \<open>What becomes of a temporary session: it reads on, it is deleted (with its socket handed over or closed), or nothing.\<close>

datatype TempResult = TempRecv | TempDeleted bool | TempIdle

definition M2DTempSession_OnReadComplete ::
  "ipc_codec \<Rightarrow> i32 \<Rightarrow> i32 \<Rightarrow> RecvBuffer \<Rightarrow> ('r, 'd) main \<Rightarrow> TempResult \<times> RecvBuffer \<times> ('r, 'd) main" where
  "M2DTempSession_OnReadComplete c fd readBytes b m =
     (let b1 = OnRead readBytes b;
          bytes = drop (unat (rb_processedPos b1)) (rb_buffer b1);
          sz = uint (ipc_size bytes)
      in if 0 < readBytes then
           if DataSize b1 < int IPC_HEADER_SIZE then (TempRecv, b1, m)
           else if DataSize b1 < sz then (TempRecv, b1, m)
           else case pb_init_complete c (sz - int IPC_HEADER_SIZE) (drop IPC_HEADER_SIZE (take (nat sz) bytes)) of
               Some childPid \<Rightarrow> (let (m', ok) = FinalizeConnection childPid fd m in (TempDeleted ok, b1, m'))
             | None \<Rightarrow> (TempDeleted False, b1, m)
         else (TempIdle, b1, m))"

text \<open>The reads of a temporary session, until one does not register the next.\<close>

fun temp_deliver :: "ipc_codec \<Rightarrow> i32 \<Rightarrow> u8 list list \<Rightarrow> RecvBuffer \<Rightarrow> ('r, 'd) main \<Rightarrow> TempResult \<times> ('r, 'd) main" where
  "temp_deliver c fd [] b m = (TempRecv, m)"
| "temp_deliver c fd (bs # cs) b m =
     (case M2DTempSession_OnReadComplete c fd (int (length bs)) (kernel_write bs b) m of
        (TempRecv, b', m') \<Rightarrow> temp_deliver c fd cs b' m'
      | (x, b', m') \<Rightarrow> (x, m'))"

section \<open>The messages of a dedicated process\<close>

datatype D2MMessage = TokensMsg D2MUpdateEntryToken | LeftMsg D2MNotifyPlayerLeft | DestroyedMsg i32 nat

record d2m_encoder =
  en_tokens :: "D2MUpdateEntryToken \<Rightarrow> u8 list"
  en_left :: "D2MNotifyPlayerLeft \<Rightarrow> u8 list"
  en_destroyed :: "i32 \<times> i32 \<Rightarrow> u8 list"

text \<open>The overloads of \<open>MakeSendBuffer\<close>: the id of the packet and its encoded message.\<close>

definition d2m_packet :: "d2m_encoder \<Rightarrow> D2MMessage \<Rightarrow> u16 \<times> u8 list" where
  "d2m_packet en x =
     (case x of TokensMsg pkt \<Rightarrow> (102, en_tokens en pkt)
      | LeftMsg pkt \<Rightarrow> (103, en_left en pkt)
      | DestroyedMsg roomId n \<Rightarrow> (104, en_destroyed en (roomId, int n)))"

definition d2m_input :: "i32 \<Rightarrow> i32 \<Rightarrow> D2MMessage \<Rightarrow> MainInput" where
  "d2m_input pid fd x =
     (case x of TokensMsg pkt \<Rightarrow> EntryTokens fd pkt | LeftMsg pkt \<Rightarrow> PlayerLeft fd pkt | DestroyedMsg roomId n \<Rightarrow> RoomDestroyed pid n)"

text \<open>The documented behaviour of Protocol Buffers: parsing gives back the message that was encoded.\<close>

definition decodes :: "ipc_codec \<Rightarrow> d2m_encoder \<Rightarrow> D2MMessage \<Rightarrow> bool" where
  "decodes c en x \<longleftrightarrow>
     (let bs = snd (d2m_packet en x); n = int (length bs) in
      case x of TokensMsg pkt \<Rightarrow> pb_update_entry_token c n bs = Some pkt
      | LeftMsg pkt \<Rightarrow> pb_notify_player_left c n bs = Some pkt
      | DestroyedMsg roomId k \<Rightarrow> pb_notify_room_destroyed c n bs = Some (roomId, int k))"

definition refused_tokens :: "D2MMessage \<Rightarrow> bool" where
  "refused_tokens x \<longleftrightarrow> (case x of TokensMsg pkt \<Rightarrow> ut_size pkt = - 1 | _ \<Rightarrow> False)"

section \<open>A stream is a run\<close>

lemma MakeSendBuffer_parse:
  assumes "length payload + IPC_HEADER_SIZE < 2 ^ 16"
  shows "HandleParsed f (MakeSendBuffer i payload) func m =
    (case f (int (length payload)) payload of None \<Rightarrow> Inr (False, m) | Some pkt \<Rightarrow> func pkt m)"
proof -
  have "unat (ipc_size (MakeSendBuffer i payload)) = length payload + IPC_HEADER_SIZE"
    using MakeSendBuffer_framed(1,4) [OF assms, of i] by (simp add: framed_def)
  then have "uint (ipc_size (MakeSendBuffer i payload)) - int IPC_HEADER_SIZE = int (length payload)"
    by (simp add: uint_nat del: of_nat_unat)
  then show ?thesis by (simp add: HandleParsed_def MakeSendBuffer_framed(3) [OF assms])
qed

lemma MakeSendBuffer_handler:
  assumes "length payload + IPC_HEADER_SIZE < 2 ^ 16"
  shows "packet_handler (MakeSendBuffer 2 payload) = Some IpcMatchMake"
    "packet_handler (MakeSendBuffer 102 payload) = Some IpcUpdateEntryToken"
    "packet_handler (MakeSendBuffer 103 payload) = Some IpcNotifyPlayerLeft"
    "packet_handler (MakeSendBuffer 104 payload) = Some IpcNotifyRoomDestroyed"
  by (simp_all add: packet_handler_def MakeSendBuffer_framed(2) [OF assms] length_handlers handler_at ipc_handlers_def)

lemma main_dead: "run (main_step e) (Inl er) is = Inl er"
  by (induction "is") (simp_all add: main_step_def bnd_def)

text \<open>One message is one step of the main process.\<close>

lemma ipc_handle_step:
  assumes len: "length (snd (d2m_packet en x)) + IPC_HEADER_SIZE < 2 ^ 16" and dec: "decodes c en x"
    and st: "main_step e s (d2m_input pid fd x) = Inr m'" and acc: "\<not> refused_tokens x"
  shows "ipc_handle c e (DediIPC pid fd) (MakeSendBuffer (fst (d2m_packet en x)) (snd (d2m_packet en x))) s = (Inr m', True)"
proof -
  from st obtain m where s: "s = Inr m" by (cases s) (auto simp: main_step_def bnd_def)
  have len': "length (snd (d2m_packet en x)) + IPC_HEADER_SIZE < 2 ^ 16" using len .
  show ?thesis
  proof (cases x)
    case (TokensMsg pkt)
    then show ?thesis using st acc dec len'
      by (auto simp: s ipc_handle_def HandlePacket_def GetFd_def d2m_packet_def MakeSendBuffer_handler MakeSendBuffer_parse decodes_def
        main_step_def d2m_input_def refused_tokens_def Handle_D2M_UpdateEntryToken_def bnd_def Let_def split: if_splits sum.splits)
  next
    case (LeftMsg pkt)
    then show ?thesis using st dec len'
      by (auto simp: s ipc_handle_def HandlePacket_def GetFd_def d2m_packet_def MakeSendBuffer_handler MakeSendBuffer_parse decodes_def
        main_step_def d2m_input_def Let_def)
  next
    case (DestroyedMsg r n)
    then show ?thesis using st dec len'
      by (auto simp: s ipc_handle_def HandlePacket_def GetFd_def d2m_packet_def MakeSendBuffer_handler MakeSendBuffer_parse decodes_def
        main_step_def d2m_input_def Let_def)
  qed
qed

lemma ipc_handle_run:
  "\<forall>x\<in>set msgs. length (snd (d2m_packet en x)) + IPC_HEADER_SIZE < 2 ^ 16 \<and> decodes c en x \<and> \<not> refused_tokens x \<Longrightarrow>
   run (main_step e) s (map (d2m_input pid fd) msgs) = Inr m' \<Longrightarrow>
   accepts (ipc_handle c e (DediIPC pid fd)) (map (\<lambda>y. MakeSendBuffer (fst y) (snd y)) (map (d2m_packet en) msgs)) s \<and>
   handle_all (ipc_handle c e (DediIPC pid fd)) (map (\<lambda>y. MakeSendBuffer (fst y) (snd y)) (map (d2m_packet en) msgs)) s = Inr m'"
proof (induction msgs arbitrary: s)
  case (Cons x msgs)
  have "\<exists>m1. main_step e s (d2m_input pid fd x) = Inr m1"
  proof (cases "main_step e s (d2m_input pid fd x)")
    case (Inl er)
    then have "run (main_step e) (Inl er) (map (d2m_input pid fd) msgs) = Inr m'" using Cons.prems(2) by simp
    then show ?thesis using main_dead [of e er "map (d2m_input pid fd) msgs"] by simp
  qed blast
  then obtain m1 where m1: "main_step e s (d2m_input pid fd x) = Inr m1" by blast
  have "ipc_handle c e (DediIPC pid fd) (MakeSendBuffer (fst (d2m_packet en x)) (snd (d2m_packet en x))) s = (Inr m1, True)"
    using Cons.prems(1) by (intro ipc_handle_step [OF _ _ m1]) auto
  moreover have "run (main_step e) (Inr m1) (map (d2m_input pid fd) msgs) = Inr m'" using Cons.prems(2) m1 by simp
  from Cons.IH [OF _ this] Cons.prems(1) have
    "accepts (ipc_handle c e (DediIPC pid fd)) (map (\<lambda>y. MakeSendBuffer (fst y) (snd y)) (map (d2m_packet en) msgs)) (Inr m1)"
    "handle_all (ipc_handle c e (DediIPC pid fd)) (map (\<lambda>y. MakeSendBuffer (fst y) (snd y)) (map (d2m_packet en) msgs)) (Inr m1) = Inr m'"
    by auto
  ultimately show ?case by (simp add: handle_all_def)
qed (simp add: handle_all_def)

lemma stream_run:
  assumes "\<forall>x\<in>set msgs. length (snd (d2m_packet en x)) + IPC_HEADER_SIZE < 2 ^ 16 \<and> decodes c en x \<and> \<not> refused_tokens x"
    and "concat cs = concat (map (\<lambda>x. MakeSendBuffer (fst (d2m_packet en x)) (snd (d2m_packet en x))) msgs)"
    and "[] \<notin> set cs" "length (concat cs) \<le> 65536"
    and "run (main_step e) (Inr m) (map (d2m_input pid fd) msgs) = Inr m'"
  shows "\<exists>b. deliver (ipc_handle c e (DediIPC pid fd)) cs MakeRecvBuffer (Inr m) = Some (b, Inr m', True) \<and> pending_bytes b = []"
proof -
  note h = ipc_handle_run [OF assms(1,5)]
  have "\<forall>y\<in>set (map (d2m_packet en) msgs). length (snd y) + IPC_HEADER_SIZE < 2 ^ 16" using assms(1) by auto
  moreover have "concat cs = concat (map (\<lambda>y. MakeSendBuffer (fst y) (snd y)) (map (d2m_packet en) msgs))"
    by (simp add: assms(2) comp_def)
  ultimately show ?thesis using deliver_messages [OF _ _ assms(3,4) conjunct1 [OF h]] conjunct2 [OF h] by auto
qed

text \<open>What the main process does with the bytes of a dedicated process is what it does with the
  messages: however the kernel cuts the stream, reading the encoded messages of a dedicated
  process takes the main process through the steps of these messages, in order, and the session
  goes on reading. The messages must be ones the process accepts and survives, each must fit a
  packet and all together the buffer.\<close>

theorem dedi_stream_is_run:
  assumes "\<forall>x\<in>set msgs. length (snd (d2m_packet en x)) + IPC_HEADER_SIZE < 2 ^ 16 \<and> decodes c en x \<and> \<not> refused_tokens x"
    and "concat cs = concat (map (\<lambda>x. MakeSendBuffer (fst (d2m_packet en x)) (snd (d2m_packet en x))) msgs)"
    and "[] \<notin> set cs" "length (concat cs) \<le> 65536"
    and "run (main_step e) (Inr m) (map (d2m_input pid fd) msgs) = Inr m'"
  shows "\<exists>b. deliver (ipc_handle c e (DediIPC pid fd)) cs MakeRecvBuffer (Inr m) = Some (b, Inr m', True) \<and> pending_bytes b = []"
  using assms by (rule stream_run)

text \<open>A concrete codec: two messages, told apart by their only byte.\<close>

definition ex_left :: D2MNotifyPlayerLeft where
  "ex_left = \<lparr>nl_uid = 7, nl_reason = LR_DEAD, nl_inventory = [], nl_equipment = []\<rparr>"

definition ex_codec :: ipc_codec where
  "ex_codec = \<lparr>pb_welcome = (\<lambda>n bs. None), pb_match_make = (\<lambda>n bs. if bs = [3] then Some ''gone'' else None), pb_match_make_cancel = (\<lambda>n bs. None),
     pb_bind_client_ip = (\<lambda>n bs. None), pb_init_complete = (\<lambda>n bs. if bs = [9, 1] then Some 100 else None), pb_make_room = (\<lambda>n bs. None),
     pb_update_entry_token = (\<lambda>n bs. None), pb_notify_player_left = (\<lambda>n bs. if bs = [5] then Some ex_left else None),
     pb_notify_room_destroyed = (\<lambda>n bs. if bs = [6] then Some (0, 1) else None)\<rparr>"

definition ex_encoder :: d2m_encoder where
  "ex_encoder = \<lparr>en_tokens = (\<lambda>x. []), en_left = (\<lambda>x. [5]), en_destroyed = (\<lambda>x. [6])\<rparr>"

theorem dedi_stream_is_run_witness:
  "\<exists>b. deliver (ipc_handle ex_codec ex_menv (DediIPC 100 9)) [[103, 0], [5, 0, 5, 104, 0], [5, 0, 6]] MakeRecvBuffer (Inr ex_main) =
     Some (b, Inr (Handle_D2M_NotifyPlayerLeft 9 ex_left ex_main), True) \<and> pending_bytes b = []"
proof -
  let ?msgs = "[LeftMsg ex_left, DestroyedMsg 0 1]"
  have r: "run (main_step ex_menv) (Inr ex_main) (map (d2m_input 100 9) ?msgs) = Inr (Handle_D2M_NotifyPlayerLeft 9 ex_left ex_main)"
    by (simp add: main_step_def d2m_input_def ex_main_def MakeDediManager_def Handle_D2M_NotifyPlayerLeft_def
        Handle_D2M_NotifyRoomDestroyed_def RegisterDBRequest_def hm_mod_def)
  have p: "concat [[103, 0], [5, 0, 5, 104, 0], [5, 0, 6]] =
      concat (map (\<lambda>x. MakeSendBuffer (fst (d2m_packet ex_encoder x)) (snd (d2m_packet ex_encoder x))) ?msgs)"
    by code_simp
  show ?thesis
    by (rule dedi_stream_is_run [OF _ p _ _ r])
      (auto simp: IPC_HEADER_SIZE_def d2m_packet_def ex_encoder_def decodes_def ex_codec_def refused_tokens_def)
qed

section \<open>A refused request\<close>

text \<open>C35. A request the main process refuses is the last one it reads: when the ticket of a match request
  is no longer in Redis, as after a quick cancellation, the packet stays in the buffer of the
  session of the HTTPS server together with everything behind it, and the next read is not
  registered. Nothing in the main process reads from that session again.\<close>

theorem refused_request_silences_http:
  assumes "rb_ok b" "unat (rb_readPos b) + length bytes \<le> 65536" "bytes \<noteq> []"
    and "length payload + IPC_HEADER_SIZE < 2 ^ 16" "pending_bytes b @ bytes = MakeSendBuffer 2 payload @ rest"
    and "pb_match_make c (int (length payload)) payload = Some key"
    and "rd_hgetall (me_redis e) key (mn_redis m) = (Some [], r)"
  shows "\<exists>b'. OnReadComplete (ipc_handle c e (HttpIPC fd)) (int (length bytes)) (kernel_write bytes b) (Inr m) =
      Some (b', Inr (m\<lparr>mn_redis := r\<rparr>), False) \<and> pending_bytes b' = MakeSendBuffer 2 payload @ rest"
proof -
  let ?h = "ipc_handle c e (HttpIPC fd)" and ?p = "MakeSendBuffer 2 payload"
  note rb = receive_pending [OF assms(1,2)]
  have h: "?h ?p (Inr m) = (Inr (m\<lparr>mn_redis := r\<rparr>), False)"
    using assms(6,7) by (simp add: ipc_handle_def HandlePacket_def MakeSendBuffer_handler [OF assms(4)] MakeSendBuffer_parse [OF assms(4)]
        Handle_H2M_MatchMake_def)
  have "\<exists>b'. process_packets ?h (OnRead (int (length bytes)) (kernel_write bytes b)) (Inr m) =
      Some (b', fst (?h ?p (handle_all ?h [] (Inr m))), False) \<and> pending_bytes b' = ?p @ rest"
    using MakeSendBuffer_framed(1) [OF assms(4)] rb assms(5) h
    by (intro process_refused) (simp_all add: handle_all_def)
  then show ?thesis using assms(3) h by (simp add: OnReadComplete_def handle_all_def)
qed

theorem refused_request_silences_http_witness:
  "\<exists>b'. OnReadComplete (ipc_handle ex_codec ex_menv (HttpIPC 8)) 5 (kernel_write [2, 0, 5, 0, 3] MakeRecvBuffer) (Inr ex_main) =
     Some (b', Inr ex_main, False) \<and> pending_bytes b' = [2, 0, 5, 0, 3]"
proof -
  have p: "MakeSendBuffer 2 [3] = [2, 0, 5, 0, 3]" by code_simp
  have g: "rd_hgetall (me_redis ex_menv) ''gone'' (mn_redis ex_main) = (Some [], mn_redis ex_main)" by code_simp
  show ?thesis
    using refused_request_silences_http [OF rb_ok_new(1), of "[2, 0, 5, 0, 3]" "[3]" "[]" ex_codec, OF _ _ _ _ _ g] p
    by (simp add: rb_ok_new IPC_HEADER_SIZE_def ex_codec_def)
qed

section \<open>The handshake\<close>

lemma temp_deliver_frame:
  "rb_ok b \<Longrightarrow> framed p \<Longrightarrow> incomplete (pending_bytes b) \<Longrightarrow> pending_bytes b @ concat cs = p \<Longrightarrow> [] \<notin> set cs \<Longrightarrow>
   unat (rb_readPos b) + length (concat cs) \<le> 65536 \<Longrightarrow>
   pb_init_complete c (int (length p) - int IPC_HEADER_SIZE) (drop IPC_HEADER_SIZE p) = Some pid \<Longrightarrow>
   temp_deliver c fd cs b m = (TempDeleted (snd (FinalizeConnection pid fd m)), fst (FinalizeConnection pid fd m))"
proof (induction cs arbitrary: b)
  case Nil
  then show ?case by (simp add: framed_def incomplete_def)
next
  case (Cons bs cs)
  define b1 where "b1 = OnRead (int (length bs)) (kernel_write bs b)"
  have "unat (rb_readPos b) + length bs \<le> 65536" using Cons.prems(6) by simp
  note b1 = receive_pending [OF Cons.prems(1) this, folded b1_def]
  let ?d = "drop (unat (rb_processedPos b1)) (rb_buffer b1)"
  have n: "DataSize b1 = int (length (pending_bytes b1))" by (rule DataSize_pending [OF b1(1)])
  have bs: "bs \<noteq> []" using Cons.prems(5) by auto
  show ?case
  proof (cases "incomplete (pending_bytes b1)")
    case True
    have "DataSize b1 < int IPC_HEADER_SIZE \<or> DataSize b1 < uint (ipc_size ?d)"
      using True ipc_size_pending [of b1] n
      by (cases "length (pending_bytes b1) < IPC_HEADER_SIZE") (auto simp: incomplete_def uint_nat simp del: of_nat_unat)
    then have "M2DTempSession_OnReadComplete c fd (int (length bs)) (kernel_write bs b) m = (TempRecv, b1, m)"
      using bs by (auto simp: M2DTempSession_OnReadComplete_def b1_def [symmetric] Let_def)
    then have "temp_deliver c fd (bs # cs) b m = temp_deliver c fd cs b1 m" by simp
    also have "\<dots> = (TempDeleted (snd (FinalizeConnection pid fd m)), fst (FinalizeConnection pid fd m))"
      using Cons.prems True b1 by (intro Cons.IH) auto
    finally show ?thesis .
  next
    case False
    then have len: "IPC_HEADER_SIZE \<le> length (pending_bytes b1)" by (simp add: incomplete_def)
    have split: "p = pending_bytes b1 @ concat cs" using Cons.prems(4) b1(2) by simp
    then have "ipc_size p = ipc_size (pending_bytes b1)" using ipc_size_prefix [OF len] by simp
    with False have "length p \<le> length (pending_bytes b1)" using Cons.prems(2) by (simp add: incomplete_def framed_def)
    then have p: "pending_bytes b1 = p" using split by simp
    have sz: "uint (ipc_size ?d) = int (length p)"
      using Cons.prems(2) by (simp add: ipc_size_pending [OF len] p framed_def uint_nat del: of_nat_unat)
    have t: "take (length p) ?d = p" by (subst buffer_pending) (simp add: p)
    show ?thesis
      using bs Cons.prems(7) len n sz t p
      by (simp add: M2DTempSession_OnReadComplete_def b1_def [symmetric] Let_def case_prod_beta)
  qed
qed

text \<open>C34. The handshake connects the right process: when the bytes of the \<open>D2MInitComplete\<close> of a
  process that the main process has started arrive on an accepted socket, in any pieces, that
  process and no other is bound to the socket and ready, the socket leads back to its pid, and
  the temporary session is gone with its socket handed over.\<close>

theorem dedi_handshake:
  assumes "length payload + IPC_HEADER_SIZE < 2 ^ 16" "pb_init_complete c (int (length payload)) payload = Some pid"
    and "concat cs = MakeSendBuffer 100 payload" "[] \<notin> set cs"
    and "fd \<in> set (mn_tempSessions m)" "hm_find (mn_dediSessions m) pid = Some s"
  shows "\<exists>m'. temp_deliver c fd cs MakeRecvBuffer m = (TempDeleted True, m') \<and>
    hm_find (mn_dediSessions m') pid = Some (s\<lparr>md_fd := fd, md_state := Ready\<rparr>) \<and>
    (\<forall>q. q \<noteq> pid \<longrightarrow> hm_find (mn_dediSessions m') q = hm_find (mn_dediSessions m) q) \<and>
    hm_find (mn_sessionFd2pid m') fd = Some pid \<and> fd \<notin> set (mn_tempSessions m')"
proof -
  note fr = MakeSendBuffer_framed [OF assms(1), of 100]
  have "temp_deliver c fd cs MakeRecvBuffer m = (TempDeleted (snd (FinalizeConnection pid fd m)), fst (FinalizeConnection pid fd m))"
    using assms(1,2,3) fr
    by (intro temp_deliver_frame [OF rb_ok_new(1) fr(1) _ _ assms(4)])
      (simp_all add: rb_ok_new incomplete_def IPC_HEADER_SIZE_def)
  then show ?thesis
    using assms(5,6) by (simp add: FinalizeConnection_def hm_find_mod hm_find_set BindSocket_def)
qed

theorem dedi_handshake_witness:
  "\<exists>m'. temp_deliver ex_codec 9 [[100], [0, 6, 0, 9], [1]] MakeRecvBuffer (OnAcceptDedi 9 (snd (SpawnSingleServer ex_menv ex_main))) =
     (TempDeleted True, m') \<and> hm_find (mn_sessionFd2pid m') 9 = Some 100"
proof -
  let ?m = "OnAcceptDedi 9 (snd (SpawnSingleServer ex_menv ex_main))"
  have p: "concat [[100], [0, 6, 0, 9], [1]] = MakeSendBuffer 100 [9, 1]" by code_simp
  have t: "9 \<in> set (mn_tempSessions ?m)" "hm_find (mn_dediSessions ?m) 100 = Some (MakeM2DSession 100)" by code_simp+
  from dedi_handshake [OF _ _ p _ t, of ex_codec] obtain m' where
    "temp_deliver ex_codec 9 [[100], [0, 6, 0, 9], [1]] MakeRecvBuffer ?m = (TempDeleted True, m')" "hm_find (mn_sessionFd2pid m') 9 = Some 100"
    by (auto simp: IPC_HEADER_SIZE_def ex_codec_def)
  then show ?thesis by blast
qed

end
