(* ===== verification/RoomStart.thy ===== *)
theory RoomStart
  imports RoomItems
begin

text \<open>
  Freshly made rooms: both kinds of rooms start well formed and without sessions, whatever the
  random engine draws, and the partial shuffle that picks the loot containers is a permutation.
\<close>

section \<open>Shuffling\<close>

lemma swap_at_mset: "i < length xs \<Longrightarrow> j < length xs \<Longrightarrow> mset (swap_at i j xs) = mset xs"
  by (simp add: swap_at_def mset_swap)

lemma swap_at_length [simp]: "length (swap_at i j xs) = length xs"
  by (simp add: swap_at_def)

lemma rng_index: "rng_ok rng \<Longrightarrow> i < len \<Longrightarrow> i \<le> nat (rng n (int i) (int len - 1)) \<and> nat (rng n (int i) (int len - 1)) < len"
proof -
  assume "rng_ok rng" "i < len"
  then have "int i \<le> rng n (int i) (int len - 1) \<and> rng n (int i) (int len - 1) \<le> int len - 1"
    unfolding rng_ok_def by (metis int_ops(6) less_imp_of_nat_less linorder_not_less zle_diff1_eq)
  then show ?thesis by linarith
qed

lemma shuffle_loop_perm:
  assumes "rng_ok rng" "i + k \<le> length xs"
  shows "mset (fst (shuffle_loop rng k i xs n)) = mset xs \<and> snd (shuffle_loop rng k i xs n) = n + k"
  using assms(2)
proof (induction k arbitrary: i xs n)
  case (Suc k)
  let ?j = "nat (rng n (int i) (int (length xs) - 1))"
  have j: "i \<le> ?j" "?j < length xs" using rng_index [OF assms(1), of i "length xs" n] Suc.prems by auto
  have "mset (swap_at i ?j xs) = mset xs" using Suc.prems j by (intro swap_at_mset) simp_all
  then show ?case using Suc.IH [of "Suc i" "swap_at i ?j xs" "Suc n"] Suc.prems by simp
qed simp

text \<open>
  (functional) \<open>PartialShuffle\<close> only permutes the index list, so the containers it picks
  are pairwise different and all exist; it draws one number per pick.
\<close>

theorem partial_shuffle_picks_distinct:
  assumes "rng_ok rng" "pick \<le> cnt"
  shows "case PartialShuffle rng [0..<cnt] pick n of (ind, n') \<Rightarrow>
    mset ind = mset [0..<cnt] \<and> n' = n + pick \<and> distinct (take pick ind) \<and> set (take pick ind) \<subseteq> {..<cnt}"
proof -
  obtain ind n' where p: "PartialShuffle rng [0..<cnt] pick n = (ind, n')" by fastforce
  have m: "mset ind = mset [0..<cnt]" "n' = n + pick"
    using shuffle_loop_perm [OF assms(1), of 0 pick "[0..<cnt]" n] assms(2) p by (simp_all add: PartialShuffle_def)
  then have "distinct ind" "set ind = {..<cnt}"
    by (metis distinct_upt mset_eq_imp_distinct_iff, metis atLeast_upt set_mset_mset)
  then show ?thesis using m p by (auto dest: in_set_takeD)
qed

text \<open>A random engine that always draws the upper bound.\<close>

definition ex_rng :: rng where "ex_rng n lo hi = hi"

lemma ex_rng_ok: "rng_ok ex_rng"
  by (simp add: rng_ok_def ex_rng_def)

theorem partial_shuffle_picks_distinct_witness:
  "PartialShuffle ex_rng [0..<5] 2 7 = ([4, 0, 2, 3, 1], 9) \<and> distinct (take 2 (fst (PartialShuffle ex_rng [0..<5] 2 7)))"
proof -
  have "PartialShuffle ex_rng [0..<5] 2 7 = ([4, 0, 2, 3, 1], 9)" by code_simp
  then show ?thesis using partial_shuffle_picks_distinct [OF ex_rng_ok, of 2 5 7] by simp
qed

section \<open>Loot\<close>

text \<open>What making a room keeps: well-formedness, no sessions, and the id of the room.\<close>

definition fresh_room :: "i32 \<Rightarrow> i32 \<Rightarrow> GameRoom \<Rightarrow> bool" where
  "fresh_room roomId mapId r \<longleftrightarrow> room_ok r \<and> gr_playerSessions r = [] \<and> gr_roomId r = roomId \<and> gr_mapId r = mapId \<and>
     \<not> gr_allLeftReported r"

lemma fresh_frame [simp]:
  "fresh_room i m (r\<lparr>gr_nextWorldItemUid := u\<rparr>) = fresh_room i m r" "fresh_room i m (r\<lparr>gr_nxtObjectId := z\<rparr>) = fresh_room i m r"
  by (simp_all add: fresh_room_def)

lemma fresh_mod_container:
  "fresh_room i m r \<Longrightarrow> (\<And>c. np_ok oid (ContainerObj c) \<Longrightarrow> np_ok oid (ContainerObj (f c))) \<Longrightarrow> fresh_room i m (mod_container oid f r)"
  using mod_container_ok [of r oid f] by (auto simp: fresh_room_def mod_container_def mod_nonplayer_def)

lemma PlaceInitialLoot_ok:
  "np_ok oid (ContainerObj c) \<Longrightarrow> b \<noteq> 0 \<Longrightarrow> np_ok oid (ContainerObj (fst (PlaceInitialLoot b q u c)))"
  using PlaceItem_ok [OF _ _ prod.collapse [symmetric], of c b "c_nextLootSlot c" q u]
  by (auto simp: PlaceInitialLoot_def Let_def case_prod_beta' container_ok_def)

lemma place_loot_fresh: "fresh_room i m r \<Longrightarrow> b \<noteq> 0 \<Longrightarrow> fresh_room i m (place_loot oid b q r)"
  unfolding place_loot_def by (rule fresh_mod_container) (simp, rule PlaceInitialLoot_ok)

lemma GetType_nonzero: "GetType (to_i32 b) \<noteq> IT_NONE \<Longrightarrow> b \<noteq> 0"
  by (auto simp: to_i32_def)

lemma fold_fresh: "(\<And>x r. x \<in> set xs \<Longrightarrow> fresh_room i m r \<Longrightarrow> fresh_room i m (f x r)) \<Longrightarrow> fresh_room i m r \<Longrightarrow> fresh_room i m (fold f xs r)"
  by (induction xs arbitrary: r) auto

lemma placeAmmo_fresh:
  assumes "rng_ok rng" "pool \<noteq> []" "\<forall>b\<in>set pool. GetType (to_i32 b) = IT_AMMO" "fresh_room i m (snd st)"
  shows "fresh_room i m (snd (placeAmmo rng pool lo hi oid st))"
proof -
  obtain n r where st: "st = (n, r)" by (cases st)
  have "nat (rng n 0 (int (length pool) - 1)) < length pool"
    using rng_index [OF assms(1), of 0 "length pool" n] assms(2) by simp
  then have "GetType (to_i32 (pool ! nat (rng n 0 (int (length pool) - 1)))) = IT_AMMO" using assms(3) by simp
  then have "pool ! nat (rng n 0 (int (length pool) - 1)) \<noteq> 0" using GetType_nonzero by force
  then show ?thesis using assms(4) by (simp add: placeAmmo_def st Let_def place_loot_fresh)
qed

lemma fold_placeAmmo_fresh:
  assumes "rng_ok rng" "pool \<noteq> []" "\<forall>b\<in>set pool. GetType (to_i32 b) = IT_AMMO" "fresh_room i m (snd st)"
  shows "fresh_room i m (snd (fold (placeAmmo rng pool lo hi) oids st))"
  using assms(4) by (induction oids arbitrary: st) (simp_all add: placeAmmo_fresh [OF assms(1-3)])

lemma quota_loop_fresh: "fresh_room i m r \<Longrightarrow> fresh_room i m (quota_loop qs picked tot cursor r)"
proof (induction qs arbitrary: cursor r)
  case (Cons q qs)
  let ?t = "GetType (to_i32 (lq_blueprintId q))"
  have "fresh_room i m (fold (\<lambda>i. place_loot (picked ! i) (lq_blueprintId q) 1) xs r)" if "?t = IT_WEAPON \<or> ?t = IT_ARMOR" for xs
    using that GetType_nonzero [of "lq_blueprintId q"] Cons.prems by (intro fold_fresh place_loot_fresh) auto
  then show ?case using Cons by (simp add: Let_def)
qed simp

lemma DistributeLoot_fresh:
  assumes "rng_ok rng" "fresh_room i m (snd st)"
  shows "fresh_room i m (snd (DistributeLoot rng containers st))"
proof -
  define pool where "pool = filter (\<lambda>b. GetType (to_i32 b) = IT_AMMO)
    (case GetLootAmmoPool (gr_mapId (snd st)) of Some p \<Rightarrow> p | None \<Rightarrow> [])"
  have p: "\<forall>b\<in>set pool. GetType (to_i32 b) = IT_AMMO" by (simp add: pool_def)
  define st1 where "st1 = (if pool = [] then ([0..<length containers], st)
      else let sa = fold (placeAmmo rng pool TENERIFE_BASE_AMMO_MIN TENERIFE_BASE_AMMO_MAX) containers st;
               extraCount = min (unat TENERIFE_EXTRA_AMMO_CONTAINERS) (length containers);
               (ind, n) = PartialShuffle rng [0..<length containers] extraCount (fst sa)
           in (ind, fold (placeAmmo rng pool TENERIFE_EXTRA_AMMO_MIN TENERIFE_EXTRA_AMMO_MAX)
                            (map (\<lambda>i. containers ! (ind ! i)) [0..<extraCount]) (n, snd sa)))"
  have f: "fresh_room i m (snd (snd st1))"
    using assms(2) fold_placeAmmo_fresh [OF assms(1) _ p]
    by (simp add: st1_def Let_def case_prod_beta')
  have "snd (DistributeLoot rng containers st) = (if containers = [] then snd st else
      case GetLootEquipQuotas (gr_mapId (snd st)) of None \<Rightarrow> snd (snd st1)
           | Some quotas \<Rightarrow>
               if quotas = [] then snd (snd st1)
               else
                 let equipTotal = min (unat (sum_list (map lq_containerCount quotas))) (length containers);
                     (ind2, n2) = PartialShuffle rng (fst st1) equipTotal (fst (snd st1))
                 in quota_loop quotas (map (\<lambda>i. containers ! i) ind2) equipTotal 0 (snd (snd st1)))"
    unfolding DistributeLoot_def st1_def pool_def Let_def by (simp add: case_prod_beta' split: option.split)
  then show ?thesis using assms(2) f by (simp add: Let_def case_prod_beta' quota_loop_fresh split: option.split)
qed

section \<open>Spawning\<close>

lemma spawn_fresh:
  assumes "fresh_room i m r" "np_ok (np_objectId x) x"
  shows "fresh_room i m (SpawnStaticObject e x r)" "fresh_room i m (SpawnDynamicObject e x r)"
proof -
  have q: "Broadcast e msg r' = r'" if "gr_playerSessions r' = []" for msg r'
    using that by (simp add: Broadcast_def BroadcastExcept_def hm_keys_def)
  show "fresh_room i m (SpawnStaticObject e x r)" "fresh_room i m (SpawnDynamicObject e x r)"
    using assms spawn_ok(1,2) [of r x e] q
    by (auto simp: fresh_room_def SpawnStaticObject_def SpawnDynamicObject_def NotifySpawnObject_def insert_ok)
qed

lemma made_objects_ok:
  "np_ok oid (ContainerObj (MakeVehicleContainer oid ty pos yaw))" "np_ok oid (ContainerObj (MakeTestItemBox oid pos))"
  "np_ok oid (NpcObj (MakeTurret oid pos yaw))"
proof -
  show "np_ok oid (ContainerObj (MakeVehicleContainer oid ty pos yaw))"
    by (simp add: MakeVehicleContainer_def InitializeSlots_ok) (simp add: MakeContainer_def InitializeSlots_def)
  let ?c0 = "InitializeSlots DEFAULT_CONTAINER_VOLUME (MakeContainer oid OT_TestItemBox True pos)"
  have P: "container_ok c \<Longrightarrow> b \<noteq> 0 \<Longrightarrow> container_ok (fst (PlaceItem j b q u c))" for j b q u c
    using PlaceItem_ok [OF _ _ prod.collapse [symmetric]] .
  show "np_ok oid (ContainerObj (MakeTestItemBox oid pos))"
    by (simp add: MakeTestItemBox_def Let_def P InitializeSlots_ok) (simp add: MakeContainer_def InitializeSlots_def)
  show "np_ok oid (NpcObj (MakeTurret oid pos yaw))"
    by (simp add: MakeTurret_ok) (simp add: MakeTurret_def combat_ok_def)
qed

lemma make_ids [simp]:
  "objectId (MakeVehicleContainer oid ty pos yaw) = oid" "objectId (MakeTestItemBox oid pos) = oid"
  "objectId (MakeTurret oid pos yaw) = oid"
  using made_objects_ok [of oid] by simp_all

lemma spawn_container_fresh: "fresh_room i m (snd st) \<Longrightarrow> fresh_room i m (snd (spawn_container e s st))"
  by (auto simp: spawn_container_def GetNewObjectId_def Let_def simp del: np_ok.simps intro!: spawn_fresh made_objects_ok)

lemma fold_spawn_container_fresh: "fresh_room i m (snd st) \<Longrightarrow> fresh_room i m (snd (fold (spawn_container e) ss st))"
  by (induction ss arbitrary: st) (simp_all add: spawn_container_fresh)

lemma spawn_npc_fresh: "fresh_room i m r \<Longrightarrow> fresh_room i m (spawn_npc e s r)"
  by (auto simp: spawn_npc_def GetNewObjectId_def Let_def simp del: np_ok.simps intro!: spawn_fresh made_objects_ok)

lemma MakeGameRoom_fresh: "fresh_room i m (MakeGameRoom i m spots now)"
  by (simp add: fresh_room_def MakeGameRoom_def room_ok_def room_hm_ok_def hm_all_iff)

lemma new_rooms_fresh:
  assumes "rng_ok rng"
  shows "fresh_room i MAP_TUTORIAL (MakeTestGameRoom e i now)" "fresh_room i MAP_TENERIFE (snd (MakeTenerifeGameRoom e rng i now n))"
proof -
  show "fresh_room i MAP_TUTORIAL (MakeTestGameRoom e i now)"
    using MakeGameRoom_fresh
    by (auto simp: MakeTestGameRoom_def InitTestGameRoom_def GetNewObjectId_def Let_def simp del: np_ok.simps
        intro!: spawn_fresh made_objects_ok)
  show "fresh_room i MAP_TENERIFE (snd (MakeTenerifeGameRoom e rng i now n))"
    unfolding MakeTenerifeGameRoom_def InitTenerifeGameRoom_def Let_def case_prod_beta'
    using MakeGameRoom_fresh DistributeLoot_fresh [OF assms] fold_spawn_container_fresh [of i MAP_TENERIFE]
    by (auto split: option.split intro!: fold_fresh spawn_npc_fresh)
qed

text \<open>
  C28. (type) A freshly made room of either kind is well formed, has no sessions and carries the
  room id and the map id it was made for, whatever the random engine draws for the loot.
\<close>

theorem new_room_well_formed:
  assumes "rng_ok rng"
  shows "fresh_room roomId MAP_TUTORIAL (MakeTestGameRoom e roomId now) \<and>
    fresh_room roomId MAP_TENERIFE (snd (MakeTenerifeGameRoom e rng roomId now n))"
  using new_rooms_fresh [OF assms] by blast

theorem new_room_well_formed_witness:
  "room_ok (MakeTestGameRoom ex_env 7 0) \<and> gr_roomId (snd (MakeTenerifeGameRoom ex_env ex_rng 8 0 0)) = 8"
  using new_room_well_formed [OF ex_rng_ok, of 7 ex_env 0 0] new_room_well_formed [OF ex_rng_ok, of 8 ex_env 0 0]
  by (simp add: fresh_room_def)

end
