(* ===== verification/DediInv.thy ===== *)
theory DediInv
  imports DediServer Delivery RoomStart
begin

text \<open>
  The invariant of the dedicated process and its properties: the session table agrees with the
  rooms, free session ids are really free, an entry token leads to the session it was issued
  for, and a room is only destroyed when all of its sessions are finalized.
\<close>

section \<open>Entry tokens\<close>

lemma GetUniqueToken_fresh:
  "GetUniqueToken rng m n = Some y \<Longrightarrow>
     hm_find m (fst y) = None \<and> n < snd y \<and> (\<exists>k. fst y = token_at rng (n + 16 * k))"
proof (rule GetUniqueToken.raw_induct [where P = "\<lambda>rng m n y. hm_find m (fst y) = None \<and> n < snd y \<and>
    (\<exists>k. fst y = token_at rng (n + 16 * k))"])
  fix f :: "rng \<Rightarrow> (string, i32) hmap \<Rightarrow> nat \<Rightarrow> (string \<times> nat) option" and rng m n y
  assume IH: "\<And>rng m n y. f rng m n = Some y \<Longrightarrow> hm_find m (fst y) = None \<and> n < snd y \<and> (\<exists>k. fst y = token_at rng (n + 16 * k))"
    and y: "(let t = token_at rng n in if hm_find m t = None then Some (t, n + 16) else f rng m (n + 16)) = Some y"
  show "hm_find m (fst y) = None \<and> n < snd y \<and> (\<exists>k. fst y = token_at rng (n + 16 * k))"
  proof (cases "hm_find m (token_at rng n) = None")
    case True
    then have "y = (token_at rng n, n + 16)" using y by (simp add: Let_def)
    with True show ?thesis by (auto intro: exI [of _ 0])
  next
    case False
    then have "f rng m (n + 16) = Some y" using y by (simp only: Let_def if_False)
    from IH [OF this] obtain k where "hm_find m (fst y) = None" "n + 16 < snd y" "fst y = token_at rng (n + 16 + 16 * k)" by blast
    then show ?thesis by (auto intro!: exI [of _ "Suc k"] simp: algebra_simps)
  qed
qed assumption

lemma GetUniqueToken_reaches:
  "hm_find m (token_at rng (n + 16 * k)) = None \<Longrightarrow> \<exists>p. GetUniqueToken rng m n = Some p"
proof (induction k arbitrary: n)
  case 0
  then show ?case by (simp add: GetUniqueToken.simps [of rng m n] Let_def)
next
  case (Suc k)
  have "hm_find m (token_at rng ((n + 16) + 16 * k)) = None" using Suc.prems by (simp add: algebra_simps)
  from Suc.IH [OF this] show ?case by (simp add: GetUniqueToken.simps [of rng m n] Let_def)
qed

text \<open>
  C27. (termination) The loop of \<open>GetUniqueToken\<close> returns exactly when the random engine
  eventually draws a token that is not in use, and then it returns an unused token.
\<close>

theorem unique_token_terminates:
  "(\<exists>t n'. GetUniqueToken rng m n = Some (t, n') \<and> hm_find m t = None) \<longleftrightarrow>
   (\<exists>k. hm_find m (token_at rng (n + 16 * k)) = None)"
proof
  assume "\<exists>t n'. GetUniqueToken rng m n = Some (t, n') \<and> hm_find m t = None"
  then show "\<exists>k. hm_find m (token_at rng (n + 16 * k)) = None" by (fastforce dest: GetUniqueToken_fresh)
next
  assume "\<exists>k. hm_find m (token_at rng (n + 16 * k)) = None"
  then obtain y where "GetUniqueToken rng m n = Some y" using GetUniqueToken_reaches by blast
  with GetUniqueToken_fresh [OF this] show "\<exists>t n'. GetUniqueToken rng m n = Some (t, n') \<and> hm_find m t = None"
    by (cases y) auto
qed

section \<open>The session table\<close>

text \<open>
  \<open>R\<close> gives the credentials of the sessions of each room, \<open>pl\<close> the room of each session
  slot, \<open>fr\<close> the free ids and \<open>T\<close> the session of each entry token.
\<close>

type_synonym room_creds = "i32 \<Rightarrow> (i32 \<Rightarrow> (string \<times> u32) option) option"

definition in_slot :: "i32 option list \<Rightarrow> i32 \<Rightarrow> i32 option \<Rightarrow> bool" where
  "in_slot pl k x \<longleftrightarrow> 0 \<le> k \<and> k < int (length pl) \<and> pl ! nat k = x"

definition table_ok :: "room_creds \<Rightarrow> i32 option list \<Rightarrow> i32 list \<Rightarrow> (string \<Rightarrow> i32 option) \<Rightarrow> bool" where
  "table_ok R pl fr T \<longleftrightarrow>
     (\<forall>rid k. (\<exists>C. R rid = Some C \<and> C k \<noteq> None) \<longleftrightarrow> in_slot pl k (Some rid)) \<and>
     distinct fr \<and> (\<forall>k\<in>set fr. in_slot pl k None) \<and>
     (\<forall>t k. T t = Some k \<longrightarrow> (\<exists>rid C key. R rid = Some C \<and> C k = Some (t, key)))"

lemma in_slot_unique: "in_slot pl k x \<Longrightarrow> in_slot pl k y \<Longrightarrow> x = y"
  by (simp add: in_slot_def)

lemma in_slot_update:
  "0 \<le> k \<Longrightarrow> k < int (length pl) \<Longrightarrow> in_slot (pl[nat k := x]) j y \<longleftrightarrow> (if j = k then y = x else in_slot pl j y)"
  by (auto simp: in_slot_def nth_list_update)

lemma in_slot_append: "in_slot (pl @ [x]) j y \<longleftrightarrow> in_slot pl j y \<or> j = int (length pl) \<and> y = x"
  by (auto simp: in_slot_def nth_append nat_less_iff)

text \<open>\<open>GetFreeSessionId\<close> gives an id that no session has.\<close>

lemma table_take_free:
  assumes "table_ok R pl (k # fr) T"
  shows "table_ok R pl fr T" "in_slot pl k None" "k \<notin> set fr"
  using assms by (auto simp: table_ok_def)

lemma table_grow:
  assumes "table_ok R pl [] T"
  shows "table_ok R (pl @ [None]) [] T" "in_slot (pl @ [None]) (int (length pl)) None"
  using assms by (auto simp: table_ok_def in_slot_append)

lemma table_register:
  assumes ok: "table_ok R pl fr T" and C: "R rid = Some C" and k: "in_slot pl k None" "k \<notin> set fr" and t: "T tok = None"
  shows "table_ok (R(rid \<mapsto> C(k \<mapsto> (tok, key)))) (pl[nat k := Some rid]) fr (T(tok \<mapsto> k))"
proof -
  have rng: "0 \<le> k" "k < int (length pl)" using k(1) by (auto simp: in_slot_def)
  have 1: "(\<exists>C. R rid' = Some C \<and> C j \<noteq> None) \<longleftrightarrow> in_slot pl j (Some rid')" for rid' j using ok by (simp add: table_ok_def)
  have n: "R rid' = Some C' \<Longrightarrow> C' k = None" for rid' C'
    using 1 [of rid' k] in_slot_unique [OF k(1), of "Some rid'"] by (cases "C' k") auto
  have "(\<exists>C'. (R(rid \<mapsto> C(k \<mapsto> (tok, key)))) rid' = Some C' \<and> C' j \<noteq> None) \<longleftrightarrow> in_slot (pl[nat k := Some rid]) j (Some rid')" for rid' j
    using 1 [of rid' j] C n [of rid'] unfolding in_slot_update [OF rng] by auto
  moreover have "\<exists>rid' C' key'. (R(rid \<mapsto> C(k \<mapsto> (tok, key)))) rid' = Some C' \<and> C' j = Some (u, key')"
    if T: "(T(tok \<mapsto> k)) u = Some j" for u j
  proof (cases "u = tok")
    case False
    then obtain rid' C' key' where w: "R rid' = Some C'" "C' j = Some (u, key')" using ok T unfolding table_ok_def by (metis fun_upd_other)
    then have "j \<noteq> k" using n [of rid' C'] by auto
    then show ?thesis using w C by (intro exI [of _ rid'] exI [of _ "if rid' = rid then C(k \<mapsto> (tok, key)) else C'"] exI [of _ key']) auto
  qed (use T in auto)
  ultimately show ?thesis using ok k by (auto simp: table_ok_def in_slot_update [OF rng])
qed

lemma table_release:
  assumes ok: "table_ok R pl fr T" and C: "R rid = Some C" and k: "C k = Some (t, key)"
  shows "table_ok (R(rid \<mapsto> C(k := None))) (pl[nat k := None]) (fr @ [k]) (T(t := None))" "in_slot pl k (Some rid)"
proof -
  have 1: "(\<exists>C. R rid' = Some C \<and> C j \<noteq> None) \<longleftrightarrow> in_slot pl j (Some rid')" for rid' j using ok by (simp add: table_ok_def)
  show s: "in_slot pl k (Some rid)" using 1 [of rid k] C k by auto
  then have rng: "0 \<le> k" "k < int (length pl)" by (auto simp: in_slot_def)
  have n: "R rid' = Some C' \<Longrightarrow> C' k \<noteq> None \<Longrightarrow> rid' = rid" for rid' C' using 1 [of rid' k] in_slot_unique [OF s] by auto
  have "(\<exists>C'. (R(rid \<mapsto> C(k := None))) rid' = Some C' \<and> C' j \<noteq> None) \<longleftrightarrow> in_slot (pl[nat k := None]) j (Some rid')" for rid' j
    using 1 [of rid' j] C n [of rid'] unfolding in_slot_update [OF rng] by auto
  moreover have "\<exists>rid' C' key'. (R(rid \<mapsto> C(k := None))) rid' = Some C' \<and> C' j = Some (u, key')"
    if T: "(T(t := None)) u = Some j" for u j
  proof -
    have u: "u \<noteq> t" "T u = Some j" using T by (auto split: if_splits)
    then obtain rid' C' key' where w: "R rid' = Some C'" "C' j = Some (u, key')" using ok unfolding table_ok_def by blast
    then have "rid' = rid \<Longrightarrow> j \<noteq> k" using C k u by auto
    then show ?thesis using w C by (intro exI [of _ rid'] exI [of _ "if rid' = rid then C(k := None) else C'"] exI [of _ key']) auto
  qed
  moreover have "k \<notin> set fr" using ok in_slot_unique [OF s, of None] by (auto simp: table_ok_def)
  ultimately show "table_ok (R(rid \<mapsto> C(k := None))) (pl[nat k := None]) (fr @ [k]) (T(t := None))"
    using ok by (auto simp: table_ok_def in_slot_update [OF rng])
qed

lemma table_drop_room:
  assumes "table_ok R pl fr T" "R rid = Some C" "\<forall>k. C k = None"
  shows "table_ok (R(rid := None)) pl fr T"
  using assms unfolding table_ok_def by (auto split: if_splits) (metis option.distinct(1) option.inject)+

lemma table_new_room:
  assumes "table_ok R pl fr T" "R rid = None"
  shows "table_ok (R(rid \<mapsto> Map.empty)) pl fr T"
  using assms unfolding table_ok_def by (auto split: if_splits) (metis option.distinct(1))+

section \<open>The invariant\<close>

definition room_creds_of :: "(i32, GameRoom) hmap \<Rightarrow> room_creds" where
  "room_creds_of rooms = (\<lambda>rid. map_option (\<lambda>r. hm_find (credentials r)) (hm_find rooms rid))"

definition rooms_ok :: "i32 \<Rightarrow> (i32, GameRoom) hmap \<Rightarrow> bool" where
  "rooms_ok n rooms \<longleftrightarrow> hm_ok rooms \<and> hm_all (\<lambda>rid r. room_ok r \<and> gr_roomId r = rid \<and> rid \<le> n) rooms"

definition pending_ok :: "i32 \<Rightarrow> (i32, GameRoom) hmap \<Rightarrow> i32 list \<Rightarrow> bool" where
  "pending_ok n rooms ps \<longleftrightarrow> (\<forall>rid\<in>set ps. rid \<le> n \<and> (\<forall>r. hm_find rooms rid = Some r \<longrightarrow> all_final r))"

definition dedi_ok :: "DediServerService \<Rightarrow> bool" where
  "dedi_ok d \<longleftrightarrow> rooms_ok (ds_roomId d) (ds_gameRooms d) \<and>
     table_ok (room_creds_of (ds_gameRooms d)) (ds_players d) (ds_freePlayerIds d) (hm_find (ds_tokenToPlayerSession d)) \<and>
     hm_ok (ds_tokenToPlayerSession d) \<and> pending_ok (ds_roomId d) (ds_gameRooms d) (ds_pendingDestroyRooms d)"

lemma dedi_ok_frame [simp]:
  "dedi_ok (d\<lparr>ds_reads := a\<rparr>) = dedi_ok d" "dedi_ok (d\<lparr>ds_draws := b\<rparr>) = dedi_ok d" "dedi_ok (d\<lparr>ds_out := c\<rparr>) = dedi_ok d"
  "dedi_ok (d\<lparr>ds_lastRetransmitTime := t\<rparr>) = dedi_ok d" "dedi_ok (d\<lparr>ds_retransmitPhase := ph\<rparr>) = dedi_ok d"
  "dedi_ok (d\<lparr>ds_lastRoomUpdateTime := t\<rparr>) = dedi_ok d" "dedi_ok (d\<lparr>ds_updatePhase := u\<rparr>) = dedi_ok d"
  "dedi_ok (d\<lparr>ds_lastRoomDestroyTime := t\<rparr>) = dedi_ok d"
  by (simp_all add: dedi_ok_def)

lemma credentials_frame [simp]:
  "credentials (r\<lparr>gr_reads := n\<rparr>) = credentials r" "credentials (r\<lparr>gr_outbox := ob\<rparr>) = credentials r"
  by (simp_all add: credentials_def)

lemma all_final_frame [simp]: "all_final (r\<lparr>gr_reads := n\<rparr>) = all_final r" "all_final (r\<lparr>gr_outbox := ob\<rparr>) = all_final r"
  by (simp_all add: all_final_def)

section \<open>Operations of a room inside the process\<close>

definition reserved :: "Effect list \<Rightarrow> i32 list" where
  "reserved es = concat (map (\<lambda>x. case x of EffReserveRoomDestroy i \<Rightarrow> [i] | _ \<Rightarrow> []) es)"

lemma reserve_all_eq: "reserve_all es d = d\<lparr>ds_pendingDestroyRooms := ds_pendingDestroyRooms d @ reserved es\<rparr>"
  by (induction es arbitrary: d) (auto simp: reserve_all_def reserved_def ReserveRoomDestroy_def split: Effect.split)

lemma set_reserved: "i \<in> set (reserved es) \<longleftrightarrow> EffReserveRoomDestroy i \<in> set (destroys es)"
proof (induction es)
  case (Cons x es)
  then show ?case by (cases x) (auto simp: reserved_def destroys_def)
qed (simp add: reserved_def destroys_def)

text \<open>
  The contract of an operation the process runs on one of its rooms: it keeps the room well
  formed, its id, its sessions with their credentials and the finalized state, and it asks for
  the destruction of that room only, once all of its sessions are finalized.
\<close>

locale room_op =
  fixes f :: "GameRoom \<Rightarrow> GameRoom"
  assumes op_ok: "room_ok r \<Longrightarrow> room_ok (f r)"
    and op_id: "room_ok r \<Longrightarrow> gr_roomId (f r) = gr_roomId r"
    and op_creds: "room_ok r \<Longrightarrow> credentials (f r) = credentials r"
    and op_final: "room_ok r \<Longrightarrow> all_final r \<Longrightarrow> all_final (f r)"
    and op_destroys: "room_ok r \<Longrightarrow> gr_outbox r = [] \<Longrightarrow> destroys (gr_outbox (f r)) \<noteq> [] \<Longrightarrow>
      destroys (gr_outbox (f r)) = [EffReserveRoomDestroy (gr_roomId r)] \<and> all_final (f r)"
begin

text \<open>Writing the new state of a room back keeps the tables.\<close>

lemma write_room:
  assumes ok: "dedi_ok d" and r: "hm_find (ds_gameRooms d) rid = Some r"
    and r0: "r0 = r\<lparr>gr_reads := n, gr_outbox := ob\<rparr>" and ps: "\<forall>i\<in>set ps. i = rid \<and> all_final (f r0)"
  shows "dedi_ok (d\<lparr>ds_gameRooms := hm_mod rid (\<lambda>_. f r0) (ds_gameRooms d),
    ds_pendingDestroyRooms := ds_pendingDestroyRooms d @ ps\<rparr>)"
proof -
  have R: "rooms_ok (ds_roomId d) (ds_gameRooms d)" using ok by (simp add: dedi_ok_def)
  then have rr: "room_ok r" "gr_roomId r = rid" "rid \<le> ds_roomId d"
    using r by (auto simp: rooms_ok_def dest: hm_all_find)
  then have k0: "room_ok r0" by (simp add: r0)
  have c: "credentials (f r0) = credentials r" using op_creds [OF k0] by (simp add: r0)
  have "rooms_ok (ds_roomId d) (hm_mod rid (\<lambda>_. f r0) (ds_gameRooms d))"
    using R op_ok [OF k0] op_id [OF k0] rr by (auto simp: rooms_ok_def r0 intro!: hm_all_mod)
  moreover have "room_creds_of (hm_mod rid (\<lambda>_. f r0) (ds_gameRooms d)) = room_creds_of (ds_gameRooms d)"
    using r c by (auto simp: room_creds_of_def hm_find_mod)
  moreover have "pending_ok (ds_roomId d) (hm_mod rid (\<lambda>_. f r0) (ds_gameRooms d)) (ds_pendingDestroyRooms d @ ps)"
    using ok r rr(3) ps op_final [OF k0] unfolding dedi_ok_def pending_ok_def
    by (auto simp: hm_find_mod r0 split: if_splits)
  ultimately show ?thesis using ok by (simp add: dedi_ok_def)
qed

lemma on_room_ok:
  assumes ok: "dedi_ok d"
  shows "dedi_ok (on_room rid f d)"
proof (cases "hm_find (ds_gameRooms d) rid")
  case (Some r)
  define r0 where "r0 = r\<lparr>gr_reads := ds_reads d, gr_outbox := []\<rparr>"
  have rr: "room_ok r0" "gr_roomId r0 = rid" "gr_outbox r0 = []"
    using ok Some by (auto simp: r0_def dedi_ok_def rooms_ok_def dest: hm_all_find)
  have ps: "\<forall>i\<in>set (reserved (gr_outbox (f r0))). i = rid \<and> all_final (f r0)"
    using op_destroys [OF rr(1,3)] rr(2) by (cases "destroys (gr_outbox (f r0)) = []") (auto simp: set_reserved)
  have "on_room rid f d = d\<lparr>ds_gameRooms := hm_mod rid (\<lambda>_. f r0) (ds_gameRooms d),
      ds_pendingDestroyRooms := ds_pendingDestroyRooms d @ reserved (gr_outbox (f r0)),
      ds_reads := gr_reads (f r0), ds_out := ds_out d @ map OutRoom (gr_outbox (f r0))\<rparr>"
    by (simp add: on_room_def Some r0_def [symmetric] Let_def reserve_all_eq)
  then show ?thesis using write_room [OF ok Some r0_def ps] by simp
qed (simp add: on_room_def ok)

end

interpretation step_op: room_op "\<lambda>r. room_step e r i" for e i
proof
  fix r assume ok: "room_ok r"
  show "room_ok (room_step e r i)" by (rule room_step_ok [OF ok])
  show "gr_roomId (room_step e r i) = gr_roomId r"
    using room_step_closing [of e r i] ProcessLeaves_closing [of e r]
    by (cases "i = RUpdate") (auto simp: closing_def Let_def split: if_splits)
  show "credentials (room_step e r i) = credentials r" by (rule room_step_credentials [OF ok])
  show "all_final r \<Longrightarrow> all_final (room_step e r i)"
    using all_final_mono [OF ok room_step_ok [OF ok] room_step_refines [OF ok]] .
  assume ob: "gr_outbox r = []" and ne: "destroys (gr_outbox (room_step e r i)) \<noteq> []"
  have i: "i = RUpdate"
    using ne ob room_step_closing [of e r i] by (auto simp: closing_def destroys_def split: if_splits)
  show "destroys (gr_outbox (room_step e r i)) = [EffReserveRoomDestroy (gr_roomId r)] \<and> all_final (room_step e r i)"
    using ne ob room_step_closing [of e r i] ProcessLeaves_closing [of e r]
    by (auto simp: i closing_def Let_def destroys_def [of "[]"] split: if_splits)
qed

section \<open>Steps of the process\<close>

lemma step_op_ok: "dedi_ok d \<Longrightarrow> dedi_ok (on_room rid (\<lambda>r. room_step e r i) d)"
  by (rule step_op.on_room_ok)

lemmas room_calls_ok =
  step_op_ok [where i = "RPacket sid bytes addr" for sid bytes addr, simplified]
  step_op_ok [where i = "RRecall sid uid gen" for sid uid gen, simplified]
  step_op_ok [where i = RUpdate, simplified] step_op_ok [where i = RNpcStates, simplified]

lemma HandleClientPacket_ok: "dedi_ok d \<Longrightarrow> dedi_ok (HandleClientPacket e bytes addr d)"
  by (auto simp: HandleClientPacket_def room_calls_ok split: option.split)

lemma FireRecallTimer_ok: "dedi_ok d \<Longrightarrow> dedi_ok (FireRecallTimer e sid uid gen d)"
  using room_calls_ok(2) by (auto simp: FireRecallTimer_def split: option.split)

lemma fold_dedi_ok: "(\<And>x d. dedi_ok d \<Longrightarrow> dedi_ok (f x d)) \<Longrightarrow> dedi_ok d \<Longrightarrow> dedi_ok (fold f xs d)"
  by (induction xs arbitrary: d) auto

lemma UpdateGameRooms_ok: "dedi_ok d \<Longrightarrow> dedi_ok (fst (UpdateGameRooms e d))"
  using room_calls_ok(3,4)
  by (auto simp: UpdateGameRooms_def update_room_def ds_clock_def Let_def intro!: fold_dedi_ok)

text \<open>Writes to one session that keep its credentials.\<close>

lemma session_write_ok:
  assumes ok: "dedi_ok d" and f: "f = SetIp e ip \<or> f = touch_sent now"
  shows "dedi_ok (d\<lparr>ds_gameRooms := hm_mod rid (mod_session sid f) (ds_gameRooms d)\<rparr>)"
proof (cases "hm_find (ds_gameRooms d) rid")
  case None
  then have "hm_mod rid (mod_session sid f) (ds_gameRooms d) = ds_gameRooms d"
    by (intro hm_mod_fixed) (auto simp: hm_find_None hm_keys_def rev_image_eqI)
  then show ?thesis using ok by simp
next
  case (Some r)
  obtain i where i: "mod_session sid f r = room_step e r i"
    using f by (metis room_step.simps(5,6))
  have "\<exists>n ob. r = r\<lparr>gr_reads := n, gr_outbox := ob\<rparr>" by (intro exI [of _ "gr_reads r"] exI [of _ "gr_outbox r"]) simp
  then obtain n ob where r: "r = r\<lparr>gr_reads := n, gr_outbox := ob\<rparr>" by blast
  have "hm_ok (ds_gameRooms d)" using ok by (simp add: dedi_ok_def rooms_ok_def)
  then have "hm_mod rid (mod_session sid f) (ds_gameRooms d) = hm_mod rid (\<lambda>_. room_step e r i) (ds_gameRooms d)"
    using hm_mod_const [of "ds_gameRooms d" rid r "mod_session sid f"] Some i by simp
  then show ?thesis using step_op.write_room [OF ok Some r, of "[]" e i] by simp
qed

lemma retransmit_session_ok: "dedi_ok (fst st) \<Longrightarrow> dedi_ok (fst (retransmit_session now i st))"
  by (auto simp: retransmit_session_def Let_def session_write_ok [OF _ disjI2 [OF refl]] split: option.split)

lemma CheckRetransmits_ok: "dedi_ok d \<Longrightarrow> dedi_ok (fst (CheckRetransmits e now d))"
proof -
  have "dedi_ok (fst st) \<Longrightarrow> dedi_ok (fst (fold (retransmit_session now) xs st))" for xs st
    by (induction xs arbitrary: st) (simp_all add: retransmit_session_ok)
  then show "dedi_ok d \<Longrightarrow> ?thesis" by (simp add: CheckRetransmits_def ds_clock_def Let_def)
qed

lemma BCITS_ok: "dedi_ok d \<Longrightarrow> dedi_ok (fst (Handle_H2M2D_BCITSpkt e tok ip d))"
proof -
  assume ok: "dedi_ok d"
  have erase: "dedi_ok (d'\<lparr>ds_tokenToPlayerSession := hm_erase tok (ds_tokenToPlayerSession d')\<rparr>)" if "dedi_ok d'" for d'
    using that by (auto simp: dedi_ok_def table_ok_def hm_find_erase)
  show ?thesis
    using ok erase [OF ok] erase [OF session_write_ok [OF ok disjI1 [OF refl], of _ _ e ip]]
    by (auto simp: Handle_H2M2D_BCITSpkt_def Let_def split: option.split)
qed

section \<open>Making and destroying rooms\<close>

lemma GetFreeSessionId_ok:
  assumes "table_ok R (ds_players d) (ds_freePlayerIds d) T" "GetFreeSessionId d = (k, d1)"
  shows "table_ok R (ds_players d1) (ds_freePlayerIds d1) T" "in_slot (ds_players d1) k None" "k \<notin> set (ds_freePlayerIds d1)"
    "d1 = d\<lparr>ds_players := ds_players d1, ds_freePlayerIds := ds_freePlayerIds d1\<rparr>"
proof -
  have "table_ok R (ds_players d1) (ds_freePlayerIds d1) T \<and> in_slot (ds_players d1) k None \<and> k \<notin> set (ds_freePlayerIds d1) \<and>
    d1 = d\<lparr>ds_players := ds_players d1, ds_freePlayerIds := ds_freePlayerIds d1\<rparr>"
  proof (cases "ds_freePlayerIds d")
    case Nil
    with assms table_grow [of R "ds_players d" T] show ?thesis by (auto simp: GetFreeSessionId_def)
  next
    case (Cons i "is")
    with assms table_take_free [of R "ds_players d" i "is" T] show ?thesis by (auto simp: GetFreeSessionId_def)
  qed
  then show "table_ok R (ds_players d1) (ds_freePlayerIds d1) T" "in_slot (ds_players d1) k None" "k \<notin> set (ds_freePlayerIds d1)"
    "d1 = d\<lparr>ds_players := ds_players d1, ds_freePlayerIds := ds_freePlayerIds d1\<rparr>" by auto
qed

text \<open>What the process is told of a player, and the state while a room is being filled.\<close>

definition info_ok :: "PlayerInfo \<Rightarrow> bool" where
  "info_ok i \<longleftrightarrow> loadout_ok (map slot_of_ipc (pi_inventory_items i)) (map slot_of_ipc (pi_equipment_items i))"

definition filling_ok :: "i32 \<Rightarrow> DediServerService \<Rightarrow> GameRoom \<Rightarrow> bool" where
  "filling_ok rid d r \<longleftrightarrow> hm_find (ds_gameRooms d) rid = None \<and> rid \<le> ds_roomId d \<and> room_ok r \<and> gr_roomId r = rid \<and>
     rid \<notin> set (ds_pendingDestroyRooms d) \<and> rooms_ok (ds_roomId d) (ds_gameRooms d) \<and>
     pending_ok (ds_roomId d) (ds_gameRooms d) (ds_pendingDestroyRooms d) \<and> hm_ok (ds_tokenToPlayerSession d) \<and>
     table_ok ((room_creds_of (ds_gameRooms d))(rid \<mapsto> hm_find (credentials r)))
       (ds_players d) (ds_freePlayerIds d) (hm_find (ds_tokenToPlayerSession d))"

lemma MakePlayerSession_fields [simp]:
  "ps_sessionId (MakePlayerSession tk tok sid room uid us ra ivs eqs ch key) = sid"
  "ps_entryToken (MakePlayerSession tk tok sid room uid us ra ivs eqs ch key) = tok"
  "ps_securityKey (MakePlayerSession tk tok sid room uid us ra ivs eqs ch key) = key"
  by (simp_all add: MakePlayerSession_def)

lemma MakePlayerSession_ok:
  assumes "loadout_ok ivs eqs"
  shows "session_ok sid (MakePlayerSession tk tok sid room uid us ra ivs eqs ch key)"
proof -
  have "inv_ok (MakePlayerInventory ivs eqs)" by (rule MakePlayerInventory_ok(1) [OF assms])
  then show ?thesis by (simp add: session_ok_def gone_ok_def) (simp add: MakePlayerSession_def MakePlayer_def)
qed

lemma register_ok:
  assumes "room_ok r" "session_ok (ps_sessionId s) s"
  shows "room_ok (RegisterPlayerSession s r)"
  using assms by (auto simp: RegisterPlayerSession_def room_ok_def room_hm_ok_def intro!: hm_all_insert)

lemma make_session_ok:
  assumes F: "filling_ok rid d r" and i: "info_ok info" and m: "make_session rng rid info (d, r) = Some (d', r', s)"
  shows "filling_ok rid d' r'"
proof -
  obtain tok n where t: "GetUniqueToken rng (ds_tokenToPlayerSession d) (ds_draws d) = Some (tok, n)"
    using m by (auto simp: make_session_def split: option.splits)
  obtain sid d1 where g: "GetFreeSessionId d = (sid, d1)" by fastforce
  have T: "hm_find (ds_tokenToPlayerSession d) tok = None" using GetUniqueToken_fresh [OF t] by simp
  let ?R = "room_creds_of (ds_gameRooms d)" and ?C = "hm_find (credentials r)"
  have tab: "table_ok (?R(rid \<mapsto> ?C)) (ds_players d) (ds_freePlayerIds d) (hm_find (ds_tokenToPlayerSession d))"
    using F by (simp add: filling_ok_def)
  note G = GetFreeSessionId_ok [OF tab g]
  define key where "key = (word_of_int (rng n 1 2147483647) :: u32)"
  define s0 where "s0 = MakePlayerSession (pi_ticket_id info) tok sid rid (pi_uid info) (pi_user_id info) (pi_rating info)
                    (map slot_of_ipc (pi_inventory_items info)) (map slot_of_ipc (pi_equipment_items info))
                    (pi_character_type info) key"
  have eq: "d' = d1\<lparr>ds_draws := n + 1, ds_players := (ds_players d1)[nat sid := Some rid],
                ds_tokenToPlayerSession := hm_set tok sid (ds_tokenToPlayerSession d1)\<rparr>" "r' = RegisterPlayerSession s0 r" "s = s0"
    using m by (auto simp: make_session_def t g Let_def s0_def key_def)
  have same: "ds_gameRooms d1 = ds_gameRooms d" "ds_roomId d1 = ds_roomId d" "ds_pendingDestroyRooms d1 = ds_pendingDestroyRooms d"
    "ds_tokenToPlayerSession d1 = ds_tokenToPlayerSession d"
    by (subst G(4), simp)+
  have "?C sid = None"
    using G(1,2) in_slot_unique [OF G(2), of "Some rid"] unfolding table_ok_def by (metis fun_upd_same option.distinct(1))
  then have nk: "hm_find (gr_playerSessions r) sid = None" by (simp add: credentials_def hm_find_def map_of_lv)
  then have "credentials r' = credentials r @ [(sid, tok, key)]"
    by (simp add: eq credentials_def RegisterPlayerSession_def hm_insert_def hm_find_None s0_def)
  then have C': "hm_find (credentials r') = ?C(sid \<mapsto> (tok, key))"
    using \<open>?C sid = None\<close> by (auto simp: hm_find_def map_add_def split: option.splits)
  have set: "hm_find (hm_set tok sid (ds_tokenToPlayerSession d)) = (hm_find (ds_tokenToPlayerSession d))(tok \<mapsto> sid)"
    by (auto simp: hm_find_set)
  have "table_ok (?R(rid \<mapsto> ?C(sid \<mapsto> (tok, key)))) ((ds_players d1)[nat sid := Some rid]) (ds_freePlayerIds d1)
      ((hm_find (ds_tokenToPlayerSession d))(tok \<mapsto> sid))"
    using table_register [OF G(1) _ G(2,3) T, of rid ?C key] by simp
  moreover have "room_ok r'" unfolding eq
    using F i by (intro register_ok) (auto simp: filling_ok_def info_ok_def s0_def intro!: MakePlayerSession_ok)
  moreover have "gr_roomId r' = rid" using F by (simp add: eq filling_ok_def RegisterPlayerSession_def)
  ultimately show ?thesis using F by (simp add: filling_ok_def eq(1) same C' set)
qed

lemma make_sessions_ok:
  "filling_ok rid d r \<Longrightarrow> list_all info_ok infos \<Longrightarrow> make_sessions rng rid infos (d, r) = Some (d', r', ss) \<Longrightarrow> filling_ok rid d' r'"
proof (induction infos arbitrary: d r ss)
  case (Cons i "is")
  from Cons.prems(3) obtain d1 r1 s ss' where m: "make_session rng rid i (d, r) = Some (d1, r1, s)"
    "make_sessions rng rid is (d1, r1) = Some (d', r', ss')"
    by (auto split: option.splits prod.splits)
  have "filling_ok rid d1 r1" using make_session_ok [OF Cons.prems(1) _ m(1)] Cons.prems(2) by simp
  then show ?case using Cons.IH [OF _ _ m(2)] Cons.prems(2) by simp
qed simp

lemma creds_insert:
  "hm_find rooms rid = None \<Longrightarrow> room_creds_of (hm_insert rid r rooms) = (room_creds_of rooms)(rid \<mapsto> hm_find (credentials r))"
  by (auto simp: room_creds_of_def hm_find_insert)

lemma filling_done:
  assumes "filling_ok rid d r"
  shows "dedi_ok (d\<lparr>ds_gameRooms := hm_insert rid r (ds_gameRooms d)\<rparr>)"
proof -
  have n: "hm_find (ds_gameRooms d) rid = None" using assms by (simp add: filling_ok_def)
  have "rooms_ok (ds_roomId d) (hm_insert rid r (ds_gameRooms d))"
    using assms by (auto simp: filling_ok_def rooms_ok_def intro!: hm_all_insert)
  moreover have "pending_ok (ds_roomId d) (hm_insert rid r (ds_gameRooms d)) (ds_pendingDestroyRooms d)"
    using assms by (auto simp: filling_ok_def pending_ok_def hm_find_insert)
  ultimately show ?thesis using assms creds_insert [OF n, of r] by (simp add: filling_ok_def dedi_ok_def)
qed

lemma dedi_ok_next_id: "dedi_ok d \<Longrightarrow> dedi_ok (d\<lparr>ds_roomId := ds_roomId d + 1\<rparr>)"
  by (auto simp: dedi_ok_def rooms_ok_def pending_ok_def hm_all_iff)

lemma new_room_filling:
  assumes ok: "dedi_ok d" and rng: "rng_ok rng" and n: "new_room e rng mapId (ds_roomId d + 1) (d\<lparr>ds_roomId := ds_roomId d + 1\<rparr>) = Some (d1, r)"
  shows "filling_ok (ds_roomId d + 1) d1 r"
proof -
  let ?i = "ds_roomId d + 1"
  have f: "\<exists>m. fresh_room ?i m r"
    using n new_rooms_fresh [OF rng, of ?i e] by (auto simp: new_room_def Let_def case_prod_beta' split: if_splits)
  then have r: "room_ok r" "gr_roomId r = ?i" "hm_find (credentials r) = Map.empty"
    by (auto simp: fresh_room_def credentials_def hm_find_def)
  have same: "ds_gameRooms d1 = ds_gameRooms d" "ds_roomId d1 = ?i" "ds_pendingDestroyRooms d1 = ds_pendingDestroyRooms d"
    "ds_tokenToPlayerSession d1 = ds_tokenToPlayerSession d" "ds_players d1 = ds_players d" "ds_freePlayerIds d1 = ds_freePlayerIds d"
    using n by (auto simp: new_room_def ds_clock_def Let_def case_prod_beta' split: if_splits)
  have ids: "rid \<le> ds_roomId d" if "hm_find (ds_gameRooms d) rid = Some x" for rid x
    using ok that by (auto simp: dedi_ok_def rooms_ok_def dest: hm_all_find)
  then have none: "hm_find (ds_gameRooms d) ?i = None" by (cases "hm_find (ds_gameRooms d) ?i") fastforce+
  then have "table_ok ((room_creds_of (ds_gameRooms d))(?i \<mapsto> Map.empty)) (ds_players d) (ds_freePlayerIds d)
      (hm_find (ds_tokenToPlayerSession d))"
    using ok by (intro table_new_room) (simp_all add: dedi_ok_def room_creds_of_def)
  moreover have "?i \<notin> set (ds_pendingDestroyRooms d)" using ok by (auto simp: dedi_ok_def pending_ok_def)
  ultimately show ?thesis
    using dedi_ok_next_id [OF ok] none r by (simp add: filling_ok_def same dedi_ok_def)
qed

lemma MakeRoom_ok:
  assumes ok: "dedi_ok d" and rng: "rng_ok rng" and i: "list_all info_ok infos"
    and m: "MakeRoomForThisGroup e rng mapId infos d = Some (d', b)"
  shows "dedi_ok d'"
proof (cases "new_room e rng mapId (ds_roomId d + 1) (d\<lparr>ds_roomId := ds_roomId d + 1\<rparr>)")
  case None
  then show ?thesis using m dedi_ok_next_id [OF ok] by (simp add: MakeRoomForThisGroup_def Let_def)
next
  case (Some x)
  obtain d1 r where x: "x = (d1, r)" by (cases x)
  have F: "filling_ok (ds_roomId d + 1) d1 r" using new_room_filling [OF ok rng] Some x by simp
  obtain d2 r2 ss where ms: "make_sessions rng (ds_roomId d + 1) infos (d1, r) = Some (d2, r2, ss)"
    using m Some x by (auto simp: MakeRoomForThisGroup_def Let_def split: option.splits)
  have "dedi_ok (d2\<lparr>ds_gameRooms := hm_insert (ds_roomId d + 1) r2 (ds_gameRooms d2)\<rparr>)"
    by (rule filling_done [OF make_sessions_ok [OF F i ms]])
  then show ?thesis using m Some x ms by (auto simp: MakeRoomForThisGroup_def Let_def)
qed

text \<open>The table while the sessions of a room are released one by one.\<close>

lemma release_sessions_ok:
  assumes "table_ok (R(rid \<mapsto> hm_find (map (\<lambda>(k, s). (k, ps_entryToken s, ps_securityKey s)) ss))) (ds_players d)
      (ds_freePlayerIds d) (hm_find (ds_tokenToPlayerSession d))" "hm_ok ss" "hm_ok (ds_tokenToPlayerSession d)"
  shows "let d' = fold release_session ss d in
    table_ok (R(rid \<mapsto> Map.empty)) (ds_players d') (ds_freePlayerIds d') (hm_find (ds_tokenToPlayerSession d')) \<and>
    hm_ok (ds_tokenToPlayerSession d') \<and> (\<forall>x\<in>set ss. fst x \<in> set (ds_freePlayerIds d')) \<and>
    set (ds_freePlayerIds d) \<subseteq> set (ds_freePlayerIds d') \<and>
    ds_gameRooms d' = ds_gameRooms d \<and> ds_roomId d' = ds_roomId d \<and> ds_pendingDestroyRooms d' = ds_pendingDestroyRooms d"
  using assms
proof (induction ss arbitrary: d)
  case Nil
  then show ?case by (simp add: hm_find_def)
next
  case (Cons x ss)
  obtain k s where x: "x = (k, s)" by (cases x)
  let ?C = "hm_find (map (\<lambda>(k, s). (k, ps_entryToken s, ps_securityKey s)) (x # ss))"
  have C: "?C k = Some (ps_entryToken s, ps_securityKey s)" by (simp add: hm_find_def x)
  have k: "k \<notin> set (map fst ss)" using Cons.prems(2) by (simp add: x hm_ok_def hm_keys_def)
  have C0: "?C(k := None) = hm_find (map (\<lambda>(k, s). (k, ps_entryToken s, ps_securityKey s)) ss)"
    using k by (fastforce simp: x hm_find_def map_of_lv map_of_eq_None_iff)
  have R: "(R(rid \<mapsto> ?C)) rid = Some ?C" by simp
  have sl: "in_slot (ds_players d) k (Some rid)"
    using table_release(2) [where C = ?C and k = k, OF Cons.prems(1) R C] .
  have rel: "ds_players (release_session x d) = (ds_players d)[nat k := None]"
    "ds_freePlayerIds (release_session x d) = ds_freePlayerIds d @ [k]"
    "hm_find (ds_tokenToPlayerSession (release_session x d)) = (hm_find (ds_tokenToPlayerSession d))(ps_entryToken s := None)"
    "hm_ok (ds_tokenToPlayerSession (release_session x d))" "ds_gameRooms (release_session x d) = ds_gameRooms d"
    "ds_roomId (release_session x d) = ds_roomId d" "ds_pendingDestroyRooms (release_session x d) = ds_pendingDestroyRooms d"
    using sl Cons.prems(3) by (auto simp: release_session_def x in_slot_def hm_find_erase)
  have "table_ok (R(rid \<mapsto> hm_find (map (\<lambda>(k, s). (k, ps_entryToken s, ps_securityKey s)) ss)))
      (ds_players (release_session x d)) (ds_freePlayerIds (release_session x d))
      (hm_find (ds_tokenToPlayerSession (release_session x d)))"
    using table_release(1) [where C = ?C and k = k and R = "R(rid \<mapsto> ?C)", OF Cons.prems(1) R C] unfolding C0 rel
    by (simp only: fun_upd_upd)
  moreover have "hm_ok ss" using Cons.prems(2) by (simp add: hm_ok_def hm_keys_def)
  ultimately have "let d' = fold release_session ss (release_session x d) in
      table_ok (R(rid \<mapsto> Map.empty)) (ds_players d') (ds_freePlayerIds d') (hm_find (ds_tokenToPlayerSession d')) \<and>
      hm_ok (ds_tokenToPlayerSession d') \<and> (\<forall>x\<in>set ss. fst x \<in> set (ds_freePlayerIds d')) \<and>
      set (ds_freePlayerIds (release_session x d)) \<subseteq> set (ds_freePlayerIds d') \<and>
      ds_gameRooms d' = ds_gameRooms (release_session x d) \<and> ds_roomId d' = ds_roomId (release_session x d) \<and>
      ds_pendingDestroyRooms d' = ds_pendingDestroyRooms (release_session x d)"
    using Cons.IH rel(4) by blast
  then show ?case unfolding Let_def rel by (simp add: x)
qed

lemma creds_erase: "room_creds_of (hm_erase rid rooms) = (room_creds_of rooms)(rid := None)"
  by (auto simp: room_creds_of_def hm_find_erase)

lemma DestroyRoom_ok:
  assumes ok: "dedi_ok d"
  shows "dedi_ok (DestroyRoom rid d)"
    "hm_find (ds_gameRooms d) rid = Some r \<Longrightarrow> k \<in> set (hm_keys (gr_playerSessions r)) \<Longrightarrow> k \<in> set (ds_freePlayerIds (DestroyRoom rid d))"
proof -
  have "dedi_ok (DestroyRoom rid d) \<and> (\<forall>r k. hm_find (ds_gameRooms d) rid = Some r \<longrightarrow> k \<in> set (hm_keys (gr_playerSessions r)) \<longrightarrow>
      k \<in> set (ds_freePlayerIds (DestroyRoom rid d)))"
  proof (cases "hm_find (ds_gameRooms d) rid")
    case (Some r)
    let ?R = "room_creds_of (ds_gameRooms d)"
    define d1 where "d1 = d\<lparr>ds_out := ds_out d @ [OutRoomDestroyed rid (int (length (gr_playerSessions r)))]\<rparr>"
    define d2 where "d2 = fold release_session (gr_playerSessions r) d1"
    have D: "DestroyRoom rid d = d2\<lparr>ds_gameRooms := hm_erase rid (ds_gameRooms d2)\<rparr>"
      by (simp add: DestroyRoom_def Some Let_def d2_def d1_def)
    have rk: "room_ok r" using ok Some by (auto simp: dedi_ok_def rooms_ok_def dest: hm_all_find)
    have "?R(rid \<mapsto> hm_find (credentials r)) = ?R" using Some by (auto simp: room_creds_of_def)
    then have "table_ok (?R(rid \<mapsto> hm_find (map (\<lambda>(k, s). (k, ps_entryToken s, ps_securityKey s)) (gr_playerSessions r))))
        (ds_players d1) (ds_freePlayerIds d1) (hm_find (ds_tokenToPlayerSession d1))"
      using ok by (simp add: dedi_ok_def d1_def credentials_def)
    from release_sessions_ok [OF this] rk ok
    have t: "table_ok (?R(rid \<mapsto> Map.empty)) (ds_players d2) (ds_freePlayerIds d2) (hm_find (ds_tokenToPlayerSession d2))"
      "hm_ok (ds_tokenToPlayerSession d2)" "\<forall>x\<in>set (gr_playerSessions r). fst x \<in> set (ds_freePlayerIds d2)"
      "ds_gameRooms d2 = ds_gameRooms d" "ds_roomId d2 = ds_roomId d" "ds_pendingDestroyRooms d2 = ds_pendingDestroyRooms d"
      by (auto simp: Let_def d2_def d1_def room_ok_def room_hm_ok_def dedi_ok_def)
    have "table_ok (?R(rid := None)) (ds_players d2) (ds_freePlayerIds d2) (hm_find (ds_tokenToPlayerSession d2))"
      using table_drop_room [OF t(1), of rid] by simp
    then show ?thesis using ok t Some
      by (auto simp: D dedi_ok_def creds_erase rooms_ok_def pending_ok_def hm_find_erase hm_keys_def intro!: hm_all_erase)
  qed (simp add: DestroyRoom_def ok)
  then show "dedi_ok (DestroyRoom rid d)"
    "hm_find (ds_gameRooms d) rid = Some r \<Longrightarrow> k \<in> set (hm_keys (gr_playerSessions r)) \<Longrightarrow> k \<in> set (ds_freePlayerIds (DestroyRoom rid d))"
    by auto
qed

lemma fold_DestroyRoom:
  assumes "dedi_ok d"
  shows "dedi_ok (fold DestroyRoom ps d) \<and> ds_pendingDestroyRooms (fold DestroyRoom ps d) = ds_pendingDestroyRooms d \<and>
    (\<forall>rid. hm_find (ds_gameRooms (fold DestroyRoom ps d)) rid = (if rid \<in> set ps then None else hm_find (ds_gameRooms d) rid))"
  using assms
proof (induction ps arbitrary: d)
  case (Cons p ps)
  have rel: "ds_gameRooms (fold release_session xs d) = ds_gameRooms d \<and>
      ds_pendingDestroyRooms (fold release_session xs d) = ds_pendingDestroyRooms d" for xs d
    by (induction xs arbitrary: d) (simp_all add: release_session_def)
  have "hm_find (ds_gameRooms (DestroyRoom p d)) rid = (if rid = p then None else hm_find (ds_gameRooms d) rid)"
    "ds_pendingDestroyRooms (DestroyRoom p d) = ds_pendingDestroyRooms d" for rid
    using rel by (auto simp: DestroyRoom_def Let_def hm_find_erase split: option.split)
  then show ?case using Cons.IH [OF DestroyRoom_ok(1) [OF Cons.prems]] by auto
qed simp

lemma DestroyPendingRooms_ok: "dedi_ok d \<Longrightarrow> dedi_ok (fst (DestroyPendingRooms e d))"
proof -
  assume ok: "dedi_ok d"
  have "dedi_ok (d'\<lparr>ds_pendingDestroyRooms := []\<rparr>)" if "dedi_ok d'" for d'
    using that by (simp add: dedi_ok_def pending_ok_def)
  then show ?thesis using ok fold_DestroyRoom by (simp add: DestroyPendingRooms_def ds_clock_def Let_def)
qed

section \<open>Runs of the process\<close>

datatype dedi_input =
  DPacket "u8 list" sockaddr_in
| DTimer i32 i32 u32
| DRetransmits u32
| DUpdateRooms
| DDestroyRooms
| DMakeRoom i32 "PlayerInfo list"
| DClientAddress string string

text \<open>A call that does not return (the token loop) leaves no later state; the model stays where it is.\<close>

fun dedi_step :: "env \<Rightarrow> rng \<Rightarrow> DediServerService \<Rightarrow> dedi_input \<Rightarrow> DediServerService" where
  "dedi_step e rng d (DPacket bytes addr) = HandleClientPacket e bytes addr d"
| "dedi_step e rng d (DTimer sid uid gen) = FireRecallTimer e sid uid gen d"
| "dedi_step e rng d (DRetransmits now) = fst (CheckRetransmits e now d)"
| "dedi_step e rng d DUpdateRooms = fst (UpdateGameRooms e d)"
| "dedi_step e rng d DDestroyRooms = fst (DestroyPendingRooms e d)"
| "dedi_step e rng d (DMakeRoom mapId infos) =
     (case MakeRoomForThisGroup e rng mapId infos d of None \<Rightarrow> d | Some (d', b) \<Rightarrow> d')"
| "dedi_step e rng d (DClientAddress tok ip) = fst (Handle_H2M2D_BCITSpkt e tok ip d)"

fun dinput_ok :: "dedi_input \<Rightarrow> bool" where
  "dinput_ok (DMakeRoom mapId infos) = list_all info_ok infos"
| "dinput_ok _ = True"

lemma dedi_step_ok:
  assumes "dedi_ok d" "rng_ok rng" "dinput_ok i"
  shows "dedi_ok (dedi_step e rng d i)"
proof (cases i)
  case (DMakeRoom mapId infos)
  then show ?thesis using assms MakeRoom_ok by (auto split: option.split)
qed (simp_all add: assms HandleClientPacket_ok FireRecallTimer_ok CheckRetransmits_ok UpdateGameRooms_ok
    DestroyPendingRooms_ok BCITS_ok)

lemma Make_dedi_ok: "dedi_ok (MakeDediServerService port now)"
proof -
  have "in_slot (replicate 51 (None :: i32 option)) k None \<longleftrightarrow> 0 \<le> k \<and> k < 51" for k by (auto simp: in_slot_def)
  moreover have "\<not> in_slot (replicate 51 None) k (Some rid)" for k and rid :: i32 by (auto simp: in_slot_def)
  ultimately show ?thesis
    by (auto simp: dedi_ok_def MakeDediServerService_def rooms_ok_def table_ok_def pending_ok_def room_creds_of_def
        hm_find_def hm_all_def distinct_map simp del: replicate.simps upt_rec_numeral)
qed

lemma dedi_run_ok: "dedi_ok d \<Longrightarrow> rng_ok rng \<Longrightarrow> list_all dinput_ok is \<Longrightarrow> dedi_ok (run (dedi_step e rng) d is)"
  by (induction "is" arbitrary: d) (simp_all add: dedi_step_ok)

abbreviation reached :: "env \<Rightarrow> rng \<Rightarrow> dedi_input list \<Rightarrow> DediServerService" where
  "reached e rng is \<equiv> run (dedi_step e rng) (MakeDediServerService 9000 0) is"

section \<open>Properties\<close>


definition ex_info :: PlayerInfo where
  "ex_info = \<lparr>pi_ticket_id = ''t1'', pi_uid = 42, pi_user_id = ''user'', pi_rating = 1000,
     pi_inventory_items = [\<lparr>is_item_id = 6, is_slot_index = 0, is_quantity = 40\<rparr>],
     pi_equipment_items = [\<lparr>is_item_id = 1, is_slot_index = 0, is_quantity = 1\<rparr>], pi_character_type = 0\<rparr>"

definition ex_dedi_inputs :: "dedi_input list" where
  "ex_dedi_inputs = [DMakeRoom MAP_TUTORIAL [ex_info, ex_info\<lparr>pi_uid := 43\<rparr>], DMakeRoom 99 [], DUpdateRooms]"

text \<open>A random engine whose token draws differ from call to call.\<close>

definition ex_rng2 :: rng where
  "ex_rng2 n lo hi = lo + (int n mod (hi - lo + 1))"

lemma ex_rng2_ok: "rng_ok ex_rng2"
proof -
  have "0 \<le> int n mod (hi - lo + 1)" "int n mod (hi - lo + 1) \<le> hi - lo" if "lo \<le> hi" for n and lo hi :: int
    using that pos_mod_bound [of "hi - lo + 1" "int n"] by simp_all
  then show ?thesis unfolding rng_ok_def ex_rng2_def by (metis add.commute le_add_same_cancel2 le_diff_eq)
qed

lemma ex_dedi_inputs_ok: "list_all dinput_ok ex_dedi_inputs"
  by code_simp


lemma creds_of_Some:
  "room_creds_of rooms rid = Some C \<longleftrightarrow> (\<exists>r. hm_find rooms rid = Some r \<and> C = hm_find (credentials r))"
  by (auto simp: room_creds_of_def)

lemma find_credentials: "hm_find (credentials r) k = map_option (\<lambda>s. (ps_entryToken s, ps_securityKey s)) (GetPlayerSession r k)"
  by (simp add: credentials_def hm_find_def GetPlayerSession_def map_of_lv)

lemma dedi_routes:
  assumes "dedi_ok d"
  shows "(\<exists>r. hm_find (ds_gameRooms d) rid = Some r \<and> GetPlayerSession r k \<noteq> None) \<longleftrightarrow> in_slot (ds_players d) k (Some rid)"
proof -
  have "(\<exists>C. room_creds_of (ds_gameRooms d) rid = Some C \<and> C k \<noteq> None) \<longleftrightarrow> in_slot (ds_players d) k (Some rid)"
    using assms by (simp add: dedi_ok_def table_ok_def)
  then show ?thesis by (auto simp: creds_of_Some find_credentials)
qed

text \<open>
  C9. (safety) Packets are routed to the right session: in every state the process reaches, the
  lookup of a session id gives a room that exists and has a session with exactly that id, and
  no other room has a session with this id.
\<close>

theorem session_routing:
  assumes "rng_ok rng" "list_all dinput_ok is" "d = run (dedi_step e rng) (MakeDediServerService port now) is"
    "FindPlayer d w = Some (k, rid)"
  shows "\<exists>r s. hm_find (ds_gameRooms d) rid = Some r \<and> GetPlayerSession r k = Some s \<and> ps_sessionId s = k \<and> k = sint w \<and>
    (\<forall>rid' r'. hm_find (ds_gameRooms d) rid' = Some r' \<and> GetPlayerSession r' k \<noteq> None \<longrightarrow> rid' = rid)"
proof -
  have ok: "dedi_ok d" using dedi_run_ok [OF Make_dedi_ok assms(1,2)] assms(3) by simp
  have sl: "in_slot (ds_players d) k (Some rid)" "k = sint w"
    using assms(4) by (auto simp: FindPlayer_def Let_def in_slot_def split: if_splits)
  then obtain r s where r: "hm_find (ds_gameRooms d) rid = Some r" "GetPlayerSession r k = Some s"
    using dedi_routes [OF ok, of rid k] by auto
  have "room_ok r" using ok r(1) by (auto simp: dedi_ok_def rooms_ok_def dest: hm_all_find)
  then have "ps_sessionId s = k" using room_okD(2) [OF _ r(2)] by (simp add: session_ok_def)
  moreover have "rid' = rid" if "hm_find (ds_gameRooms d) rid' = Some r'" "GetPlayerSession r' k \<noteq> None" for rid' r'
    using dedi_routes [OF ok, of rid' k] that in_slot_unique [OF sl(1), of "Some rid'"] by auto
  ultimately show ?thesis using r sl(2) by blast
qed

theorem session_routing_witness:
  "\<exists>r s. hm_find (ds_gameRooms (reached ex_env ex_rng2 ex_dedi_inputs)) 1 = Some r \<and> GetPlayerSession r 1 = Some s \<and> ps_sessionId s = 1"
proof -
  have "FindPlayer (reached ex_env ex_rng2 ex_dedi_inputs) 1 = Some (1, 1)" by code_simp
  from session_routing [OF ex_rng2_ok ex_dedi_inputs_ok refl this] show ?thesis by blast
qed

text \<open>
  C10. (safety) An entry token that is still valid leads to the session it was issued for, so the
  address a client announces with its token is never stored into somebody else's session, even
  after session ids have been reused.
\<close>

theorem entry_token_owner:
  assumes "rng_ok rng" "list_all dinput_ok is" "d = run (dedi_step e rng) (MakeDediServerService port now) is"
    "hm_find (ds_tokenToPlayerSession d) tok = Some sid"
  shows "\<exists>rid r s. in_slot (ds_players d) sid (Some rid) \<and> hm_find (ds_gameRooms d) rid = Some r \<and>
    GetPlayerSession r sid = Some s \<and> ps_entryToken s = tok"
proof -
  have ok: "dedi_ok d" using dedi_run_ok [OF Make_dedi_ok assms(1,2)] assms(3) by simp
  then obtain rid C key where "room_creds_of (ds_gameRooms d) rid = Some C" "C sid = Some (tok, key)"
    using assms(4) unfolding dedi_ok_def table_ok_def by blast
  then obtain r s where r: "hm_find (ds_gameRooms d) rid = Some r" "GetPlayerSession r sid = Some s" "ps_entryToken s = tok"
    by (auto simp: creds_of_Some find_credentials)
  moreover have "in_slot (ds_players d) sid (Some rid)" using dedi_routes [OF ok, of rid sid] r by auto
  ultimately show ?thesis by blast
qed

theorem entry_token_owner_witness:
  "\<exists>rid r s. hm_find (ds_gameRooms (reached ex_env ex_rng2 ex_dedi_inputs)) rid = Some r \<and>
     GetPlayerSession r 0 = Some s \<and> ps_entryToken s = token_at ex_rng2 0"
proof -
  have "hm_find (ds_tokenToPlayerSession (reached ex_env ex_rng2 ex_dedi_inputs)) (token_at ex_rng2 0) = Some 0" by code_simp
  from entry_token_owner [OF ex_rng2_ok ex_dedi_inputs_ok refl this] show ?thesis by blast
qed

lemma slots_after_destroy:
  assumes "dedi_ok d" "hm_find (ds_gameRooms d) rid = Some r" "k \<in> set (hm_keys (gr_playerSessions r))" "rid \<in> set ps"
  shows "in_slot (ds_players (fold DestroyRoom ps d)) k None"
proof -
  have free: "in_slot (ds_players d') j None" if "dedi_ok d'" "j \<in> set (ds_freePlayerIds d')" for d' j
    using that by (auto simp: dedi_ok_def table_ok_def)
  have keep: "j \<in> set (ds_freePlayerIds (DestroyRoom p d'))" if "j \<in> set (ds_freePlayerIds d')" for j p d'
  proof -
    have "set (ds_freePlayerIds d'') \<subseteq> set (ds_freePlayerIds (fold release_session xs d''))" for xs d''
      by (induction xs arbitrary: d'') (fastforce simp: release_session_def)+
    then show ?thesis using that by (fastforce simp: DestroyRoom_def Let_def split: option.split)
  qed
  have "k \<in> set (ds_freePlayerIds (fold DestroyRoom ps d)) \<and> dedi_ok (fold DestroyRoom ps d)"
    using assms
  proof (induction ps arbitrary: d)
    case (Cons p ps)
    have stay: "j \<in> set (ds_freePlayerIds d') \<Longrightarrow> j \<in> set (ds_freePlayerIds (fold DestroyRoom ps d'))" for j d'
      by (induction ps arbitrary: d') (simp_all add: keep)
    note ok = DestroyRoom_ok(1) [OF Cons.prems(1), of p]
    show ?case
    proof (cases "p = rid")
      case True
      then have "k \<in> set (ds_freePlayerIds (DestroyRoom p d))" using DestroyRoom_ok(2) [OF Cons.prems(1)] Cons.prems(2,3) by blast
      then show ?thesis using stay fold_DestroyRoom [OF ok, of ps] by simp
    next
      case False
      have "hm_find (ds_gameRooms (DestroyRoom p d)) rid = Some r"
        using fold_DestroyRoom [OF Cons.prems(1), of "[p]"] False Cons.prems(2) by simp
      then show ?thesis using Cons.IH [OF ok _ Cons.prems(3)] Cons.prems(4) False by simp
    qed
  qed simp
  then show ?thesis using free by blast
qed

text \<open>
  C11. (safety) \<open>DestroyPendingRooms\<close> removes a room only when all of its sessions are
  finalized, and the session ids of the room are free afterwards.
\<close>

theorem destroyed_only_when_finalized:
  assumes ok: "dedi_ok d" and "hm_find (ds_gameRooms d) rid = Some r" and "hm_find (ds_gameRooms (fst (DestroyPendingRooms e d))) rid = None"
  shows "all_final r \<and>
    (\<forall>k\<in>set (hm_keys (gr_playerSessions r)). in_slot (ds_players (fst (DestroyPendingRooms e d))) k None)"
proof -
  obtain d2 where d2: "ds_gameRooms d2 = ds_gameRooms d" "ds_pendingDestroyRooms d2 = ds_pendingDestroyRooms d" "dedi_ok d2"
    "fst (DestroyPendingRooms e d) = (fold DestroyRoom (ds_pendingDestroyRooms d2) d2)\<lparr>ds_pendingDestroyRooms := []\<rparr>"
    using assms(2,3) ok that [of "d\<lparr>ds_reads := Suc (ds_reads d), ds_lastRoomDestroyTime := e_clock e (ds_reads d)\<rparr>"]
    by (auto simp: DestroyPendingRooms_def ds_clock_def Let_def split: if_splits)
  have p: "rid \<in> set (ds_pendingDestroyRooms d2)"
    using fold_DestroyRoom [OF d2(3), of "ds_pendingDestroyRooms d2"] assms(2,3) d2(1,4) by (auto split: if_splits)
  then have "all_final r" using ok assms(2) d2(2) by (auto simp: dedi_ok_def pending_ok_def)
  moreover have "in_slot (ds_players (fst (DestroyPendingRooms e d))) k None" if "k \<in> set (hm_keys (gr_playerSessions r))" for k
    using slots_after_destroy [OF d2(3) _ that p] assms(2) d2(1,4) by simp
  ultimately show ?thesis by blast
qed

text \<open>A process with one room, which has no sessions and waits for destruction.\<close>

definition ex_waiting :: DediServerService where
  "ex_waiting = (MakeDediServerService 9000 0)\<lparr>ds_gameRooms := [(1, MakeGameRoom 1 MAP_TUTORIAL [] 0)], ds_roomId := 1,
     ds_pendingDestroyRooms := [1]\<rparr>"

lemma ex_waiting_ok: "dedi_ok ex_waiting"
proof -
  let ?r = "MakeGameRoom 1 MAP_TUTORIAL [] 0"
  have f: "fresh_room 1 MAP_TUTORIAL ?r" by (rule MakeGameRoom_fresh)
  have e: "hm_find [] = (\<lambda>k. None)" by (simp add: hm_find_def fun_eq_iff)
  have "filling_ok 1 ((MakeDediServerService 9000 0)\<lparr>ds_roomId := 1\<rparr>) ?r"
    using dedi_ok_next_id [OF Make_dedi_ok, of 9000 0] f
    by (simp add: filling_ok_def dedi_ok_def fresh_room_def table_new_room)
      (auto simp: MakeDediServerService_def credentials_def MakeGameRoom_def room_creds_of_def e
        intro!: table_new_room)
  from filling_done [OF this] show ?thesis
    by (auto simp: ex_waiting_def dedi_ok_def pending_ok_def MakeDediServerService_def hm_insert_def hm_keys_def hm_find_def
        all_final_def MakeGameRoom_def)
qed

theorem destroyed_only_when_finalized_witness:
  "all_final (MakeGameRoom 1 MAP_TUTORIAL [] 0) \<and> ds_gameRooms ex_waiting = [(1, MakeGameRoom 1 MAP_TUTORIAL [] 0)]"
proof -
  have g: "ds_gameRooms ex_waiting = [(1, MakeGameRoom 1 MAP_TUTORIAL [] 0)]" by (simp add: ex_waiting_def)
  then have r: "hm_find (ds_gameRooms ex_waiting) 1 = Some (MakeGameRoom 1 MAP_TUTORIAL [] 0)" by (simp add: hm_find_def)
  have "hm_find (ds_gameRooms (fst (DestroyPendingRooms (ex_env\<lparr>e_clock := \<lambda>n. 2000000000\<rparr>) ex_waiting))) 1 = None" by code_simp
  from destroyed_only_when_finalized [OF ex_waiting_ok r this] g show ?thesis by blast
qed

end
