(* ===== verification/Timer.thy ===== *)
theory Timer
  imports Prelude "HOL-Library.Multiset"
begin

text \<open>
  \<open>src/DedicateProcess/TimerExecuter.h\<close> and \<open>.cpp\<close>. The heap is a multiset: the standard
  fixes that \<open>pop_heap\<close> takes an entry that no other entry precedes, not which one, so \<open>Tick\<close> is a
  relation. A callback is any code: what it does to the state of the program and which timers
  it adds is a parameter, as is the clock (a reading per call of \<open>now\<close>, in nanoseconds).
\<close>

section \<open>Timers\<close>

record 'c TimerEntry =
  te_execAt :: int
  te_callback :: 'c

record ('c, 's) timers =
  tm_heap :: "'c TimerEntry multiset"
  tm_reads :: nat
  tm_state :: 's

definition Add :: "(nat \<Rightarrow> int) \<Rightarrow> u32 \<Rightarrow> 'c \<Rightarrow> ('c, 's) timers \<Rightarrow> ('c, 's) timers" where
  "Add clk delayMs f t =
     t\<lparr>tm_heap := add_mset \<lparr>te_execAt = clk (tm_reads t) + uint delayMs * 1000000, te_callback = f\<rparr> (tm_heap t),
       tm_reads := Suc (tm_reads t)\<rparr>"

text \<open>A callback runs on the state and adds timers.\<close>

definition run_callback ::
  "(nat \<Rightarrow> int) \<Rightarrow> ('c \<Rightarrow> 's \<Rightarrow> 's \<times> (u32 \<times> 'c) list) \<Rightarrow> 'c \<Rightarrow> ('c, 's) timers \<Rightarrow> ('c, 's) timers" where
  "run_callback clk call f t =
     (let (s, adds) = call f (tm_state t) in fold (\<lambda>(d, g). Add clk d g) adds (t\<lparr>tm_state := s\<rparr>))"

text \<open>The loop of \<open>Tick\<close>, with the entries in the order in which they run.\<close>

inductive tick_loop ::
  "(nat \<Rightarrow> int) \<Rightarrow> ('c \<Rightarrow> 's \<Rightarrow> 's \<times> (u32 \<times> 'c) list) \<Rightarrow> int \<Rightarrow> ('c, 's) timers \<Rightarrow> 'c TimerEntry list \<Rightarrow> ('c, 's) timers \<Rightarrow> bool"
  for clk call now where
  stop: "\<forall>x\<in>#tm_heap t. now < te_execAt x \<Longrightarrow> tick_loop clk call now t [] t"
| fire: "x \<in># tm_heap t \<Longrightarrow> \<forall>y\<in>#tm_heap t. te_execAt x \<le> te_execAt y \<Longrightarrow> te_execAt x \<le> now \<Longrightarrow>
    tick_loop clk call now (run_callback clk call (te_callback x) (t\<lparr>tm_heap := tm_heap t - {#x#}\<rparr>)) xs t' \<Longrightarrow>
    tick_loop clk call now t (x # xs) t'"


text \<open>\<open>Tick\<close> and its result.\<close>

definition Tick ::
  "(nat \<Rightarrow> int) \<Rightarrow> ('c \<Rightarrow> 's \<Rightarrow> 's \<times> (u32 \<times> 'c) list) \<Rightarrow> ('c, 's) timers \<Rightarrow> 'c TimerEntry list \<Rightarrow> ('c, 's) timers \<Rightarrow> bool \<Rightarrow> bool" where
  "Tick clk call t xs t' didExecute \<longleftrightarrow>
     tick_loop clk call (clk (tm_reads t)) (t\<lparr>tm_reads := Suc (tm_reads t)\<rparr>) xs t' \<and> (didExecute \<longleftrightarrow> xs \<noteq> [])"

section \<open>Entries added while the loop runs are not due\<close>

abbreviation due :: "int \<Rightarrow> 'c TimerEntry multiset \<Rightarrow> 'c TimerEntry multiset" where
  "due now h \<equiv> filter_mset (\<lambda>x. te_execAt x \<le> now) h"

abbreviation later :: "int \<Rightarrow> 'c TimerEntry multiset \<Rightarrow> 'c TimerEntry multiset" where
  "later now h \<equiv> filter_mset (\<lambda>x. \<not> te_execAt x \<le> now) h"

definition delays :: "('c \<Rightarrow> 's \<Rightarrow> 's \<times> (u32 \<times> 'c) list) \<Rightarrow> bool" where
  "delays call \<longleftrightarrow> (\<forall>f s. \<forall>x\<in>set (snd (call f s)). 0 < fst x)"

lemma Add_later:
  assumes "0 < d" "now \<le> clk (tm_reads t)"
  shows "due now (tm_heap (Add clk d f t)) = due now (tm_heap t)" "later now (tm_heap t) \<subseteq># later now (tm_heap (Add clk d f t))"
    "tm_reads t \<le> tm_reads (Add clk d f t)"
proof -
  have "0 < uint d" using assms(1) by (simp add: word_less_def)
  then have "\<not> clk (tm_reads t) + uint d * 1000000 \<le> now" using assms(2) by linarith
  then show "due now (tm_heap (Add clk d f t)) = due now (tm_heap t)" "later now (tm_heap t) \<subseteq># later now (tm_heap (Add clk d f t))"
    "tm_reads t \<le> tm_reads (Add clk d f t)" by (simp_all add: Add_def)
qed

lemma adds_later:
  "\<forall>x\<in>set adds. 0 < fst x \<Longrightarrow> mono clk \<Longrightarrow> now \<le> clk (tm_reads t) \<Longrightarrow>
   (let t' = fold (\<lambda>(d, g). Add clk d g) adds t in
    due now (tm_heap t') = due now (tm_heap t) \<and> later now (tm_heap t) \<subseteq># later now (tm_heap t') \<and> now \<le> clk (tm_reads t'))"
proof (induction adds arbitrary: t)
  case (Cons a adds)
  obtain d f where a: "a = (d, f)" by (cases a)
  have d: "0 < d" using Cons.prems(1) by (simp add: a)
  note add = Add_later [where now = now and clk = clk and t = t, OF d Cons.prems(3), of f]
  have "now \<le> clk (tm_reads (Add clk d f t))" using Cons.prems(3) monoD [OF Cons.prems(2) add(3)] by simp
  from Cons.IH [OF _ Cons.prems(2) this] Cons.prems(1) add show ?case
    by (auto simp: a Let_def intro: subset_mset.order_trans)
qed (simp add: Let_def)

lemma callback_later:
  assumes "delays call" "mono clk" "now \<le> clk (tm_reads t)" and t': "t' = run_callback clk call f t"
  shows "due now (tm_heap t') = due now (tm_heap t)" "later now (tm_heap t) \<subseteq># later now (tm_heap t')" "now \<le> clk (tm_reads t')"
proof -
  obtain s adds where c: "call f (tm_state t) = (s, adds)" by (cases "call f (tm_state t)")
  have "\<forall>x\<in>set adds. 0 < fst x" using assms(1) c by (metis delays_def snd_conv)
  from adds_later [OF this assms(2), of now "t\<lparr>tm_state := s\<rparr>"] assms(3)
  show "due now (tm_heap t') = due now (tm_heap t)" "later now (tm_heap t) \<subseteq># later now (tm_heap t')" "now \<le> clk (tm_reads t')"
    by (simp_all add: t' run_callback_def c Let_def)
qed

section \<open>A tick runs what is due\<close>

lemma tick_loop_due:
  "tick_loop clk call now t xs t' \<Longrightarrow> delays call \<Longrightarrow> mono clk \<Longrightarrow> now \<le> clk (tm_reads t) \<Longrightarrow>
   mset xs = due now (tm_heap t) \<and> sorted (map te_execAt xs) \<and> due now (tm_heap t') = {#} \<and> later now (tm_heap t) \<subseteq># tm_heap t'"
proof (induction rule: tick_loop.induct)
  case (stop t)
  then have "due now (tm_heap t) = {#}" by (auto simp: filter_mset_eq_conv not_le)
  then show ?case by simp
next
  case (fire x t xs t')
  define t1 where "t1 = t\<lparr>tm_heap := tm_heap t - {#x#}\<rparr>"
  have h: "tm_heap t = add_mset x (tm_heap t1)" using fire(1) by (simp add: t1_def)
  have "now \<le> clk (tm_reads t1)" using fire by (simp add: t1_def)
  note cb = callback_later [OF fire(6,7) this refl, of "te_callback x"]
  have IH: "mset xs = due now (tm_heap (run_callback clk call (te_callback x) t1)) \<and> sorted (map te_execAt xs) \<and>
      due now (tm_heap t') = {#} \<and> later now (tm_heap (run_callback clk call (te_callback x) t1)) \<subseteq># tm_heap t'"
    using fire(5) fire(6,7) cb(3) by (simp add: t1_def)
  then have xs: "mset xs = due now (tm_heap t1)" by (simp add: cb(1))
  have "te_execAt x \<le> te_execAt y" if "y \<in> set xs" for y
  proof -
    have "y \<in># due now (tm_heap t1)" using that xs by (metis set_mset_mset)
    then show ?thesis using fire(2) h by simp
  qed
  then show ?case using IH xs cb(2) fire(3) by (auto simp: h intro: subset_mset.order_trans)
qed

lemma tick_loop_ends:
  "delays call \<Longrightarrow> mono clk \<Longrightarrow> now \<le> clk (tm_reads t) \<Longrightarrow> \<exists>xs t'. tick_loop clk call now t xs t'"
proof (induction "size (due now (tm_heap t))" arbitrary: t)
  case 0
  then have "\<forall>x\<in>#tm_heap t. now < te_execAt x" by (auto simp: filter_mset_eq_conv not_le)
  then show ?case using tick_loop.stop by blast
next
  case (Suc k)
  let ?ks = "te_execAt ` set_mset (tm_heap t)"
  obtain z where z: "z \<in># tm_heap t" "te_execAt z \<le> now"
    using Suc.hyps(2) by (metis (no_types, lifting) filter_mset_False filter_mset_cong nat.distinct(1) size_empty)
  then have ks: "finite ?ks" "?ks \<noteq> {}" by auto
  from Min_in [OF ks] obtain x where x: "x \<in># tm_heap t" "te_execAt x = Min ?ks" by auto
  have le: "\<forall>y\<in>#tm_heap t. te_execAt x \<le> te_execAt y" using ks x(2) by simp
  then have now: "te_execAt x \<le> now" using z by force
  define t1 where "t1 = t\<lparr>tm_heap := tm_heap t - {#x#}\<rparr>"
  have h: "tm_heap t = add_mset x (tm_heap t1)" using x(1) by (simp add: t1_def)
  have "now \<le> clk (tm_reads t1)" using Suc.prems(3) by (simp add: t1_def)
  note cb = callback_later [OF Suc.prems(1,2) this refl, of "te_callback x"]
  have "k = size (due now (tm_heap (run_callback clk call (te_callback x) t1)))" using Suc.hyps(2) now by (simp add: cb(1) h)
  from Suc.hyps(1) [OF this Suc.prems(1,2) cb(3)] obtain xs t' where
    "tick_loop clk call now (run_callback clk call (te_callback x) t1) xs t'" by blast
  then have "tick_loop clk call now t (x # xs) t'" unfolding t1_def by (rule tick_loop.fire [OF x(1) le now])
  then show ?case by blast
qed

text \<open>A tick ends, and every way it can go runs exactly the callbacks whose time has come when the
  tick begins, each once and earlier ones first; the entries that are not due stay, nothing due
  is left, and the result tells whether a callback ran. Callbacks may add timers with a
  positive delay, which wait for a later tick.\<close>

theorem tick_runs_due:
  assumes "delays call" "mono clk"
  shows "(\<exists>xs t' did. Tick clk call t xs t' did) \<and>
    (\<forall>xs t' did. Tick clk call t xs t' did \<longrightarrow>
       mset xs = due (clk (tm_reads t)) (tm_heap t) \<and> sorted (map te_execAt xs) \<and>
       later (clk (tm_reads t)) (tm_heap t) \<subseteq># tm_heap t' \<and> due (clk (tm_reads t)) (tm_heap t') = {#} \<and>
       (did \<longleftrightarrow> due (clk (tm_reads t)) (tm_heap t) \<noteq> {#}))"
proof -
  let ?t = "t\<lparr>tm_reads := Suc (tm_reads t)\<rparr>"
  have now: "clk (tm_reads t) \<le> clk (tm_reads ?t)" using monoD [OF assms(2)] by simp
  from tick_loop_ends [OF assms now] obtain xs t' where "tick_loop clk call (clk (tm_reads t)) ?t xs t'" by blast
  then have "Tick clk call t xs t' (xs \<noteq> [])" by (simp add: Tick_def)
  moreover have "mset xs = due (clk (tm_reads t)) (tm_heap t) \<and> sorted (map te_execAt xs) \<and>
      later (clk (tm_reads t)) (tm_heap t) \<subseteq># tm_heap t' \<and> due (clk (tm_reads t)) (tm_heap t') = {#} \<and>
      (did \<longleftrightarrow> due (clk (tm_reads t)) (tm_heap t) \<noteq> {#})" if "Tick clk call t xs t' did" for xs t' did
  proof -
    from that have r: "tick_loop clk call (clk (tm_reads t)) ?t xs t'" "did \<longleftrightarrow> xs \<noteq> []" by (simp_all add: Tick_def)
    from tick_loop_due [OF r(1) assms now] have
      "mset xs = due (clk (tm_reads t)) (tm_heap t)" "sorted (map te_execAt xs)" "due (clk (tm_reads t)) (tm_heap t') = {#}"
      "later (clk (tm_reads t)) (tm_heap t) \<subseteq># tm_heap t'" by simp_all
    then show ?thesis using r(2) mset_zero_iff [of xs] by auto
  qed
  ultimately show ?thesis by blast
qed

theorem tick_runs_due_witness:
  "\<exists>xs t' did. Tick int (\<lambda>f s. (f # s, [(1000, f)])) \<lparr>tm_heap = {#\<lparr>te_execAt = 3, te_callback = ''a''\<rparr>#}, tm_reads = 5, tm_state = []\<rparr> xs t' did \<and> did"
proof -
  let ?t = "\<lparr>tm_heap = {#\<lparr>te_execAt = 3, te_callback = ''a''\<rparr>#}, tm_reads = 5, tm_state = []\<rparr>"
  let ?call = "\<lambda>f s. (f # s, [(1000, f)])"
  have "delays ?call" "mono int" by (simp_all add: delays_def mono_def)
  note run = tick_runs_due [OF this, of ?t]
  from conjunct1 [OF run] obtain xs t' did where k: "Tick int ?call ?t xs t' did" by blast
  with conjunct2 [OF run] have "did \<longleftrightarrow> due 5 (tm_heap ?t) \<noteq> {#}" by auto
  then show ?thesis using k by auto
qed

end
