(* ===== verification/DediLoop.thy ===== *)
theory DediLoop
  imports DediInv Timer
begin

text \<open>
  The main loop of a dedicated process, \<open>src/DedicateProcess/DedicateMain.cpp\<close>: the completed
  reads, the retransmissions, the rooms, the pending destructions and the timers, turn after
  turn. The only callbacks of the timer heap are recall ticks; a room asks for a timer by an
  effect, which is carried out by \<open>TimerExecuter::Add\<close> when the operation ends. The sockets
  are not modelled: what the completed reads hand over is a list of inputs.
\<close>

section \<open>Timers of the process\<close>

type_synonym recall_timer = "i32 \<times> i32 \<times> u32"

type_synonym dedi_timers = "(recall_timer, DediServerService) timers"

definition timer_of :: "DediOut \<Rightarrow> (u32 \<times> recall_timer) list" where
  "timer_of ou =
     (case ou of OutRoom ef \<Rightarrow> (case ef of EffTimer t sid uid gen \<Rightarrow> [(t, sid, uid, gen)] | _ \<Rightarrow> []) | _ \<Rightarrow> [])"

text \<open>The timers that the outputs from position \<open>n\<close> on ask for.\<close>

definition new_timers :: "nat \<Rightarrow> DediServerService \<Rightarrow> (u32 \<times> recall_timer) list" where
  "new_timers n d = concat (map timer_of (drop n (ds_out d)))"

definition recall_callback ::
  "env \<Rightarrow> recall_timer \<Rightarrow> DediServerService \<Rightarrow> DediServerService \<times> (u32 \<times> recall_timer) list" where
  "recall_callback e f d =
     (case f of (sid, uid, gen) \<Rightarrow> let d' = FireRecallTimer e sid uid gen d in (d', new_timers (length (ds_out d)) d'))"

definition loop_step :: "(nat \<Rightarrow> int) \<Rightarrow> env \<Rightarrow> rng \<Rightarrow> dedi_timers \<Rightarrow> dedi_input \<Rightarrow> dedi_timers" where
  "loop_step clk e rng t i =
     (let d = tm_state t; d' = dedi_step e rng d i
      in fold (\<lambda>(delay, f). Add clk delay f) (new_timers (length (ds_out d)) d') (t\<lparr>tm_state := d'\<rparr>))"

section \<open>The loop\<close>

text \<open>A turn: the inputs of \<open>ExecuteCQTask\<close>, then the periodic work, then the timers.\<close>

definition dedi_turn ::
  "(nat \<Rightarrow> int) \<Rightarrow> env \<Rightarrow> rng \<Rightarrow> dedi_input list \<Rightarrow> u32 \<Rightarrow> dedi_timers \<Rightarrow> recall_timer TimerEntry list \<Rightarrow> dedi_timers \<Rightarrow> bool" where
  "dedi_turn clk e rng ios nowMs t xs t' \<longleftrightarrow>
     (\<exists>did. Tick clk (recall_callback e)
        (run (loop_step clk e rng) t (ios @ [DRetransmits nowMs, DUpdateRooms, DDestroyRooms])) xs t' did)"

text \<open>The process as it starts, and the states its loop reaches.\<close>

definition dedi_start :: "u16 \<Rightarrow> int \<Rightarrow> dedi_timers" where
  "dedi_start port now = \<lparr>tm_heap = {#}, tm_reads = 0, tm_state = MakeDediServerService port now\<rparr>"

inductive dedi_reaches :: "(nat \<Rightarrow> int) \<Rightarrow> env \<Rightarrow> rng \<Rightarrow> dedi_timers \<Rightarrow> dedi_timers \<Rightarrow> bool" for clk e rng t0 where
  start: "dedi_reaches clk e rng t0 t0"
| turn: "dedi_reaches clk e rng t0 t \<Longrightarrow> list_all dinput_ok ios \<Longrightarrow> dedi_turn clk e rng ios nowMs t xs t' \<Longrightarrow> dedi_reaches clk e rng t0 t'"

section \<open>A recall tick asks for the next one a second later\<close>

definition delayed :: "Effect list \<Rightarrow> bool" where
  "delayed es \<longleftrightarrow> list_all (\<lambda>ef. case ef of EffTimer t sid uid gen \<Rightarrow> 0 < t | _ \<Rightarrow> True) es"

lemma delayed_emit [simp]: "delayed (gr_outbox (emit es r)) \<longleftrightarrow> delayed (gr_outbox r) \<and> delayed es"
  by (simp add: emit_def delayed_def)

lemma outbox_mod_session [simp]: "gr_outbox (mod_session sid f r) = gr_outbox r"
  by (simp add: mod_session_def)

lemma delayed_send_to [simp]: "delayed (gr_outbox r) \<Longrightarrow> delayed (gr_outbox (send_to e sid msg r))"
  by (auto simp: send_to_def read_clock_def Let_def split: option.split) (simp add: delayed_def)

lemma delayed_cancel [simp]: "delayed (gr_outbox r) \<Longrightarrow> delayed (gr_outbox (CancelRecall e sid spot reason r))"
  by (simp add: CancelRecall_def SendRecallResult_def Let_def split: option.split)

lemma delayed_tick: "delayed (gr_outbox r) \<Longrightarrow> delayed (gr_outbox (RecallTick e sid uid gen r))"
  by (auto simp: RecallTick_def ScheduleRecallTick_def SendRecallResult_def mark_session_def read_clock_def Let_def
      delayed_def [of "[_]"] RECALL_TICK_INTERVAL_MS_def split: option.split)

lemma reserve_all_out [simp]: "ds_out (reserve_all es d) = ds_out d"
  by (induction es arbitrary: d) (auto simp: reserve_all_def ReserveRoomDestroy_def split: Effect.split)

lemma recall_delays: "delays (recall_callback e)"
proof -
  have "0 < fst x" if x: "x \<in> set (new_timers (length (ds_out d)) (on_room rid (RecallTick e sid uid gen) d))" for x rid sid uid gen d
  proof (cases "hm_find (ds_gameRooms d) rid")
    case None
    then show ?thesis using x by (simp add: on_room_def new_timers_def)
  next
    case (Some r)
    let ?es = "gr_outbox (RecallTick e sid uid gen (r\<lparr>gr_reads := ds_reads d, gr_outbox := []\<rparr>))"
    have "delayed ?es" by (rule delayed_tick) (simp add: delayed_def)
    moreover have "x \<in> set (concat (map timer_of (map OutRoom ?es)))" using x Some by (simp add: on_room_def new_timers_def Let_def)
    then obtain ef where "ef \<in> set ?es" "x \<in> set (timer_of (OutRoom ef))" by auto
    ultimately show ?thesis by (cases ef) (auto simp: timer_of_def delayed_def list_all_iff)
  qed
  moreover have "new_timers (length (ds_out d)) d = []" for d by (simp add: new_timers_def)
  ultimately have "\<forall>x\<in>set (snd (recall_callback e (sid, uid, gen) d)). 0 < fst x" for sid uid gen d
    by (cases "FindPlayer d (word_of_int sid)") (simp_all add: recall_callback_def FireRecallTimer_def Let_def case_prod_beta)
  then show ?thesis by (auto simp: delays_def)
qed

section \<open>The loop keeps the process consistent\<close>

lemma Add_state [simp]: "tm_state (Add clk d f t) = tm_state t"
  by (simp add: Add_def)

lemma adds_state [simp]: "tm_state (fold (\<lambda>(d, f). Add clk d f) adds t) = tm_state t"
  by (induction adds arbitrary: t) auto

lemma loop_run_state: "tm_state (run (loop_step clk e rng) t is) = run (dedi_step e rng) (tm_state t) is"
  by (induction "is" arbitrary: t) (simp_all add: loop_step_def Let_def)

lemma callback_ok: "dedi_ok (tm_state t) \<Longrightarrow> dedi_ok (tm_state (run_callback clk (recall_callback e) f t))"
  by (cases f) (simp add: run_callback_def recall_callback_def FireRecallTimer_ok Let_def)

lemma tick_ok: "tick_loop clk (recall_callback e) now t xs t' \<Longrightarrow> dedi_ok (tm_state t) \<Longrightarrow> dedi_ok (tm_state t')"
proof (induction rule: tick_loop.induct)
  case (fire x t xs t')
  then show ?case using callback_ok [of "t\<lparr>tm_heap := tm_heap t - {#x#}\<rparr>" clk e "te_callback x"] by simp
qed

lemma turn_ok:
  assumes "dedi_turn clk e rng ios nowMs t xs t'" "dedi_ok (tm_state t)" "rng_ok rng" "list_all dinput_ok ios"
  shows "dedi_ok (tm_state t')"
proof -
  have "dedi_ok (tm_state (run (loop_step clk e rng) t (ios @ [DRetransmits nowMs, DUpdateRooms, DDestroyRooms])))"
    using assms(2-4) by (simp add: loop_run_state dedi_run_ok del: run_append)
  then show ?thesis using assms(1) tick_ok by (fastforce simp: dedi_turn_def Tick_def)
qed



end
