(* ===== verification/System.thy ===== *)
theory System
  imports IpcRun DediLoop
begin

text \<open>
  A dedicated process and the main process together: what the dedicated process sends
  (\<open>DediServerService::MakeRoomForThisGroup\<close>, \<open>NotifyPlayerLeftToMain\<close> and
  \<open>NotifyRoomDestroyedToMain\<close>) goes through the framed byte stream into the handlers of the main
  process, which hand the work to the database proxy.
\<close>

section \<open>From the outputs of a dedicated process to messages\<close>

definition d2m_messages :: "DediOut list \<Rightarrow> D2MMessage list" where
  "d2m_messages outs = concat (map (\<lambda>ou. case ou of
       OutEntryToken pkt \<Rightarrow> [TokensMsg pkt]
     | OutRoomDestroyed rid n \<Rightarrow> [DestroyedMsg rid (nat n)]
     | OutRoom ef \<Rightarrow> (case ef of EffNotifyLeft pkt \<Rightarrow> [LeftMsg pkt] | _ \<Rightarrow> [])) outs)"

text \<open>The requests the database proxy gets for a message.\<close>

definition requests_of :: "i32 \<Rightarrow> D2MMessage \<Rightarrow> PendingDBRequest list" where
  "requests_of fd x =
     (case x of
        TokensMsg pkt \<Rightarrow> [UpdateEntryTokenRequest fd (ut_ticket_ids pkt) (ut_session_ids pkt) (ut_entry_tokens pkt) (ut_security_keys pkt) (ut_port pkt)]
      | LeftMsg pkt \<Rightarrow> [NotifyPlayerLeftRequest fd (nl_uid pkt) (nl_reason pkt)
          (map (slot_row INVENTORY_SLOT_INDEX_BEGIN) (nl_inventory pkt) @ map (slot_row LOADOUT_SLOT_INDEX_BEGIN) (nl_equipment pkt))]
      | DestroyedMsg rid n \<Rightarrow> [])"

section \<open>The outputs are well formed\<close>

definition tokens_ok :: "D2MUpdateEntryToken \<Rightarrow> bool" where
  "tokens_ok pkt \<longleftrightarrow> 0 \<le> ut_size pkt \<and> length (ut_ticket_ids pkt) = nat (ut_size pkt) \<and> length (ut_session_ids pkt) = nat (ut_size pkt) \<and>
     length (ut_entry_tokens pkt) = nat (ut_size pkt) \<and> length (ut_security_keys pkt) = nat (ut_size pkt)"

definition outs_ok :: "DediServerService \<Rightarrow> bool" where
  "outs_ok d \<longleftrightarrow> list_all (\<lambda>ou. case ou of OutEntryToken pkt \<Rightarrow> tokens_ok pkt | _ \<Rightarrow> True) (ds_out d)"

lemma outs_ok_room: "outs_ok d \<Longrightarrow> outs_ok (on_room rid f d)"
  by (auto simp: outs_ok_def on_room_def Let_def list_all_iff split: option.split)

lemma outs_ok_fold: "(\<And>x d. outs_ok d \<Longrightarrow> outs_ok (f x d)) \<Longrightarrow> outs_ok d \<Longrightarrow> outs_ok (fold f xs d)"
  by (induction xs arbitrary: d) auto

lemma outs_ok_retransmit: "outs_ok (fst st) \<Longrightarrow> outs_ok (fst (retransmit_session now i st))"
  by (auto simp: retransmit_session_def outs_ok_def Let_def list_all_iff split: option.split)

lemma outs_ok_retransmits: "outs_ok (fst st) \<Longrightarrow> outs_ok (fst (fold (retransmit_session now) xs st))"
  by (induction xs arbitrary: st) (auto simp: outs_ok_retransmit)

lemma make_sessions_out: "make_sessions rng rid is st = Some (d, r, ss) \<Longrightarrow> ds_out d = ds_out (fst st)"
proof (induction "is" arbitrary: st d r ss)
  case (Cons i "is")
  from Cons.prems obtain d1 r1 s ss' where 1: "make_session rng rid i st = Some (d1, r1, s)" "make_sessions rng rid is (d1, r1) = Some (d, r, ss')"
    by (auto split: option.splits)
  have "ds_out d1 = ds_out (fst st)"
    using 1(1) by (auto simp: make_session_def GetFreeSessionId_def Let_def split: option.splits prod.splits list.splits)
  then show ?case using Cons.IH [OF 1(2)] by simp
qed auto

lemma outs_ok_make_room: "outs_ok d \<Longrightarrow> MakeRoomForThisGroup e rng mapId infos d = Some (d', b) \<Longrightarrow> outs_ok d'"
  by (auto simp: MakeRoomForThisGroup_def new_room_def ds_clock_def Let_def outs_ok_def list_all_iff tokens_ok_def MakeD2MUpdateEntryTokenPkt_def
      dest!: make_sessions_out split: option.splits prod.splits if_splits)

lemma outs_ok_step: "outs_ok d \<Longrightarrow> outs_ok (dedi_step e rng d i)"
proof (cases i)
  case (DMakeRoom mapId infos)
  then show "outs_ok d \<Longrightarrow> ?thesis" using outs_ok_make_room by (auto split: option.split)
next
  case (DRetransmits now)
  have "outs_ok (d\<lparr>ds_reads := n\<rparr>) = outs_ok d" "outs_ok (d\<lparr>ds_reads := n, ds_lastRetransmitTime := t, ds_retransmitPhase := p\<rparr>) = outs_ok d" for n t p
    by (simp_all add: outs_ok_def)
  then show "outs_ok d \<Longrightarrow> ?thesis" using DRetransmits outs_ok_retransmits by (simp add: CheckRetransmits_def ds_clock_def Let_def)
next
  case DUpdateRooms
  have eq: "outs_ok (d\<lparr>ds_reads := n\<rparr>) = outs_ok d" "outs_ok (d\<lparr>ds_reads := n, ds_lastRoomUpdateTime := t\<rparr>) = outs_ok d"
    "outs_ok (d'\<lparr>ds_updatePhase := p\<rparr>) = outs_ok d'" for n t p d' by (simp_all add: outs_ok_def)
  assume ok: "outs_ok d"
  have "outs_ok (fold (update_room e ph) ks (d\<lparr>ds_reads := n, ds_lastRoomUpdateTime := t\<rparr>))" for ph ks n t
    by (rule outs_ok_fold) (simp_all add: update_room_def outs_ok_room Let_def eq ok)
  then show ?thesis using ok by (simp add: DUpdateRooms UpdateGameRooms_def ds_clock_def Let_def eq)
next
  case DDestroyRooms
  have eq: "outs_ok (d\<lparr>ds_reads := n\<rparr>) = outs_ok d" "outs_ok (d\<lparr>ds_reads := n, ds_lastRoomDestroyTime := t\<rparr>) = outs_ok d"
    "outs_ok (d'\<lparr>ds_pendingDestroyRooms := p\<rparr>) = outs_ok d'" "outs_ok (d'\<lparr>ds_gameRooms := g\<rparr>) = outs_ok d'" for n t p g d'
    by (simp_all add: outs_ok_def)
  have "outs_ok d' \<Longrightarrow> outs_ok (fold release_session xs (d'\<lparr>ds_out := ds_out d' @ [OutRoomDestroyed rid n]\<rparr>))" for d' xs rid n
    by (rule outs_ok_fold) (simp_all add: outs_ok_def release_session_def)
  then have "outs_ok d' \<Longrightarrow> outs_ok (DestroyRoom rid d')" for rid d' by (simp add: DestroyRoom_def Let_def eq split: option.split)
  then have "outs_ok d' \<Longrightarrow> outs_ok (fold DestroyRoom xs d')" for xs d' by (rule outs_ok_fold)
  then show "outs_ok d \<Longrightarrow> ?thesis" by (simp add: DDestroyRooms DestroyPendingRooms_def ds_clock_def Let_def eq)
next
  case (DPacket bytes addr)
  then show "outs_ok d \<Longrightarrow> ?thesis" by (simp add: HandleClientPacket_def outs_ok_room case_prod_beta split: option.split)
next
  case (DTimer sid uid gen)
  then show "outs_ok d \<Longrightarrow> ?thesis" by (simp add: FireRecallTimer_def outs_ok_room case_prod_beta split: option.split)
next
  case (DClientAddress tok ip)
  then show "outs_ok d \<Longrightarrow> ?thesis" by (simp add: Handle_H2M2D_BCITSpkt_def outs_ok_def Let_def split: option.split)
qed

lemma outs_ok_run: "outs_ok d \<Longrightarrow> outs_ok (run (dedi_step e rng) d is)"
  by (induction "is" arbitrary: d) (simp_all add: outs_ok_step)

lemma outs_ok_start: "outs_ok (MakeDediServerService port now)"
  by (simp add: outs_ok_def MakeDediServerService_def)

section \<open>A dedicated process reports through the byte stream\<close>

lemma message_step:
  assumes "case x of TokensMsg pkt \<Rightarrow> tokens_ok pkt | _ \<Rightarrow> True"
  shows "\<not> refused_tokens x"
    "\<exists>m'. main_step e (Inr m) (d2m_input pid fd x) = Inr m' \<and> mn_requestQueue m' = mn_requestQueue m @ requests_of fd x"
  using assms by (cases x; force simp: refused_tokens_def main_step_def d2m_input_def Handle_D2M_UpdateEntryToken_def tokens_ok_def
      Handle_D2M_NotifyPlayerLeft_def Handle_D2M_NotifyRoomDestroyed_def RegisterDBRequest_def requests_of_def bnd_def)+

lemma messages_run:
  "\<forall>x\<in>set msgs. case x of TokensMsg pkt \<Rightarrow> tokens_ok pkt | _ \<Rightarrow> True \<Longrightarrow>
   \<exists>m'. run (main_step e) (Inr m) (map (d2m_input pid fd) msgs) = Inr m' \<and>
     mn_requestQueue m' = mn_requestQueue m @ concat (map (requests_of fd) msgs)"
proof (induction msgs arbitrary: m)
  case (Cons x msgs)
  then have "case x of TokensMsg pkt \<Rightarrow> tokens_ok pkt | _ \<Rightarrow> True" by simp
  from message_step(2) [OF this] obtain m1 where m1: "main_step e (Inr m) (d2m_input pid fd x) = Inr m1"
    "mn_requestQueue m1 = mn_requestQueue m @ requests_of fd x" by blast
  from Cons.IH [of m1] Cons.prems obtain m' where "run (main_step e) (Inr m1) (map (d2m_input pid fd) msgs) = Inr m'"
    "mn_requestQueue m' = mn_requestQueue m1 @ concat (map (requests_of fd) msgs)" by auto
  then show ?case using m1 by (intro exI [of _ m']) simp
qed simp

lemma messages_ok:
  assumes "outs_ok d" "x \<in> set (d2m_messages (ds_out d))"
  shows "case x of TokensMsg pkt \<Rightarrow> tokens_ok pkt | _ \<Rightarrow> True"
proof -
  from assms(2) obtain ou where ou: "ou \<in> set (ds_out d)" and x: "x \<in> set (case ou of OutEntryToken pkt \<Rightarrow> [TokensMsg pkt]
     | OutRoomDestroyed rid n \<Rightarrow> [DestroyedMsg rid (nat n)] | OutRoom ef \<Rightarrow> (case ef of EffNotifyLeft pkt \<Rightarrow> [LeftMsg pkt] | _ \<Rightarrow> []))"
    by (auto simp: d2m_messages_def)
  have "case ou of OutEntryToken pkt \<Rightarrow> tokens_ok pkt | _ \<Rightarrow> True" using assms(1) ou by (auto simp: outs_ok_def list_all_iff)
  with x show ?thesis by (cases ou) (auto split: Effect.splits)
qed



definition ex_tokens :: D2MUpdateEntryToken where
  "ex_tokens = (case d2m_messages (ds_out (reached ex_env ex_rng2 ex_dedi_inputs)) of TokensMsg pkt # _ \<Rightarrow> pkt)"


end
