(* ===== verification/EnvFile.thy ===== *)
theory EnvFile
  imports Prelude
begin

text \<open>
  \<open>src/EnvSetter.cpp\<close>: the parser of the \<open>.env\<close> file. The file is the list of its characters
  (\<open>None\<close> when it cannot be opened), the environment of the process a map.
\<close>

section \<open>Strings\<close>

abbreviation newline :: char where "newline \<equiv> CHR 0x0A"
abbreviation carriage_return :: char where "carriage_return \<equiv> CHR 0x0D"
abbreviation quote :: char where "quote \<equiv> CHR 0x22"
abbreviation equals :: char where "equals \<equiv> CHR 0x3D"

definition blank :: "char \<Rightarrow> bool" where
  "blank c \<longleftrightarrow> c = CHR 0x20 \<or> c = CHR 0x09"

text \<open>The lines \<open>std::getline\<close> reads: an unterminated last line counts when it is not empty.\<close>

fun getlines :: "string \<Rightarrow> string \<Rightarrow> string list" where
  "getlines line [] = (if line = [] then [] else [line])"
| "getlines line (c # cs) = (if c = newline then line # getlines [] cs else getlines (line @ [c]) cs)"

text \<open>
  \<open>s.erase(s.find_last_not_of(" \t") + 1)\<close> and then \<open>s.erase(0, s.find_first_not_of(" \t"))\<close>:
  on a blank string \<open>npos + 1\<close> is 0, so everything is erased.
\<close>

definition trim :: "string \<Rightarrow> string" where
  "trim s = dropWhile blank (rev (dropWhile blank (rev s)))"

definition unquote :: "string \<Rightarrow> string" where
  "unquote v = (if 2 \<le> length v \<and> hd v = quote \<and> last v = quote then take (length v - 2) (drop 1 v) else v)"

text \<open>What a C function sees of a string.\<close>

definition c_str :: "string \<Rightarrow> string" where
  "c_str s = takeWhile (\<lambda>c. c \<noteq> CHR 0x00) s"

section \<open>The parser\<close>

type_synonym environ = "string \<rightharpoonup> string"

text \<open>\<open>setenv\<close> with overwriting: an empty name and a name with \<open>=\<close> are refused.\<close>

definition setenv :: "string \<Rightarrow> string \<Rightarrow> environ \<Rightarrow> environ" where
  "setenv k v env = (if k = [] \<or> equals \<in> set k then env else env(k \<mapsto> v))"

definition env_line :: "string \<Rightarrow> environ \<Rightarrow> environ" where
  "env_line line0 env =
     (if line0 = [] \<or> hd line0 = CHR ''#'' then env
      else
        let line = (if last line0 = carriage_return then butlast line0 else line0) in
        if equals \<in> set line then
          let key = takeWhile (\<lambda>c. c \<noteq> equals) line;
              value = tl (dropWhile (\<lambda>c. c \<noteq> equals) line)
          in setenv (c_str (trim key)) (c_str (unquote (trim value))) env
        else env)"

definition SetEnv :: "string option \<Rightarrow> environ \<Rightarrow> environ" where
  "SetEnv envFile env = (case envFile of None \<Rightarrow> env | Some s \<Rightarrow> fold env_line (getlines [] s) env)"

section \<open>Writing and reading\<close>

text \<open>A file that sets the given variables, each value in quotes.\<close>

definition env_file :: "(string \<times> string) list \<Rightarrow> string" where
  "env_file kvs = concat (map (\<lambda>(k, v). k @ [equals, quote] @ v @ [quote, newline]) kvs)"

definition env_name :: "string \<Rightarrow> bool" where
  "env_name k \<longleftrightarrow> k \<noteq> [] \<and> hd k \<noteq> CHR ''#'' \<and> \<not> blank (hd k) \<and> \<not> blank (last k) \<and>
     equals \<notin> set k \<and> newline \<notin> set k \<and> CHR 0x00 \<notin> set k"

definition env_value :: "string \<Rightarrow> bool" where
  "env_value v \<longleftrightarrow> newline \<notin> set v \<and> CHR 0x00 \<notin> set v"

lemma getlines_line: "newline \<notin> set s \<Longrightarrow> getlines l (s @ newline # cs) = (l @ s) # getlines [] cs"
  by (induction s arbitrary: l) auto

lemma getlines_env_file:
  "\<forall>x\<in>set kvs. env_name (fst x) \<and> env_value (snd x) \<Longrightarrow>
   getlines [] (env_file kvs) = map (\<lambda>(k, v). k @ [equals, quote] @ v @ [quote]) kvs"
proof (induction kvs)
  case (Cons x kvs)
  obtain k v where x: "x = (k, v)" by (cases x)
  have "newline \<notin> set (k @ [equals, quote] @ v @ [quote])" using Cons.prems by (auto simp: x env_name_def env_value_def)
  from getlines_line [OF this, of "[]" "env_file kvs"] Cons show ?case by (simp add: env_file_def x)
qed (simp add: env_file_def)

lemma dropWhile_hd: "s \<noteq> [] \<Longrightarrow> \<not> P (hd s) \<Longrightarrow> dropWhile P s = s"
  by (cases s) simp_all

lemma trim_id: "s \<noteq> [] \<Longrightarrow> \<not> blank (hd s) \<Longrightarrow> \<not> blank (last s) \<Longrightarrow> trim s = s"
  by (simp add: trim_def dropWhile_hd hd_rev)

lemma trim_outer: "\<not> blank a \<Longrightarrow> \<not> blank b \<Longrightarrow> trim (a # s @ [b]) = a # s @ [b]"
  by (rule trim_id) simp_all

lemma c_str_id: "CHR 0x00 \<notin> set s \<Longrightarrow> c_str s = s"
  unfolding c_str_def by (rule takeWhile_eq_all_conv [THEN iffD2]) auto

lemma takeWhile_sep: "x \<notin> set k \<Longrightarrow> takeWhile (\<lambda>c. c \<noteq> x) (k @ x # r) = k \<and> dropWhile (\<lambda>c. c \<noteq> x) (k @ x # r) = x # r"
  by (induction k) auto

lemma env_line_entry:
  assumes "env_name k" "env_value v"
  shows "env_line (k @ [equals, quote] @ v @ [quote]) env = env(k \<mapsto> v)"
proof -
  let ?line = "k @ equals # quote # v @ [quote]"
  have k: "k \<noteq> []" "hd k \<noteq> CHR ''#''" "equals \<notin> set k" "CHR 0x00 \<notin> set k" "trim k = k"
    using assms(1) by (simp_all add: env_name_def trim_id)
  have sep: "takeWhile (\<lambda>c. c \<noteq> equals) ?line = k" "dropWhile (\<lambda>c. c \<noteq> equals) ?line = equals # quote # v @ [quote]"
    using takeWhile_sep [OF k(3), of "quote # v @ [quote]"] by simp_all
  have "trim (quote # v @ [quote]) = quote # v @ [quote]" by (rule trim_outer) (simp_all add: blank_def)
  moreover have "unquote (quote # v @ [quote]) = v" by (simp add: unquote_def)
  ultimately show ?thesis
    using k assms(2) by (simp add: env_line_def Let_def sep setenv_def c_str_id env_value_def)
qed

text \<open>C39. The \<open>.env\<close> parser reads what is written: for any list of variables with proper names and with
  values of one line, whatever blanks, quotes, \<open>=\<close> or \<open>#\<close> the values contain, a file with one
  line per variable and the values in quotes sets exactly these variables, a later one winning
  over an earlier one, and leaves all others as they were.\<close>

theorem env_file_roundtrip:
  assumes "\<forall>x\<in>set kvs. env_name (fst x) \<and> env_value (snd x)"
  shows "SetEnv (Some (env_file kvs)) env = env ++ map_of (rev kvs)"
proof -
  have "fold env_line (map (\<lambda>(k, v). k @ [equals, quote] @ v @ [quote]) kvs) env = env ++ map_of (rev kvs)"
    using assms
  proof (induction kvs arbitrary: env)
    case (Cons x kvs)
    obtain k v where x: "x = (k, v)" by (cases x)
    have "env_line (k @ [equals, quote] @ v @ [quote]) env = env(k \<mapsto> v)" using Cons.prems by (intro env_line_entry) (simp_all add: x)
    then have "fold env_line (map (\<lambda>(k, v). k @ [equals, quote] @ v @ [quote]) (x # kvs)) env = env(k \<mapsto> v) ++ map_of (rev kvs)"
      using Cons.IH Cons.prems by (simp add: x)
    also have "env(k \<mapsto> v) ++ map_of (rev kvs) = env ++ ([k \<mapsto> v] ++ map_of (rev kvs))" by (simp only: map_add_assoc map_add_upd map_add_empty)
    also have "[k \<mapsto> v] ++ map_of (rev kvs) = map_of (rev (x # kvs))" by (simp add: x)
    finally show ?case .
  qed simp
  then show ?thesis by (simp add: SetEnv_def getlines_env_file [OF assms])
qed

theorem env_file_roundtrip_witness:
  "SetEnv (Some (env_file [(''REDIS_PORT'', ''6379''), (''GREETING'', '' a=#b '')])) (\<lambda>k. None) ''GREETING'' = Some '' a=#b ''"
proof -
  have "\<forall>x\<in>set [(''REDIS_PORT'', ''6379''), (''GREETING'', '' a=#b '')]. env_name (fst x) \<and> env_value (snd x)" by code_simp
  from env_file_roundtrip [OF this, of "\<lambda>k. None"] show ?thesis by (simp add: map_add_def)
qed

end
