(* ===== verification/Startup.thy ===== *)
theory Startup
  imports MainRun EnvFile
begin

text \<open>
  How the processes start: \<open>src/MysqlHandle.h\<close> and \<open>.cpp\<close>, \<open>src/RedisHandler.cpp\<close>, the start and
  the loop of \<open>src/main.cpp\<close>, and the choice of the UDP port in
  \<open>DediServerService::InitUDP\<close>. The drivers of MySQL and Redis and whether the system calls
  (ring, sockets, \<open>bind\<close>) succeed are parameters. A call of the MySQL driver that may throw
  \<open>SQLException\<close> returns \<open>None\<close> (or \<open>False\<close>) when it does.
\<close>

section \<open>The MySQL connection\<close>

record ('c, 'w) driver =
  dr_connect :: "string \<Rightarrow> string \<Rightarrow> string \<Rightarrow> 'w \<Rightarrow> 'c option \<times> 'w"
  dr_isValid :: "'c \<Rightarrow> 'w \<Rightarrow> bool option \<times> 'w"
  dr_reconnect :: "'c \<Rightarrow> 'w \<Rightarrow> bool option \<times> 'w"
  dr_setSchema :: "'c \<Rightarrow> string \<Rightarrow> 'w \<Rightarrow> bool \<times> 'w"

record 'c MysqlHandle =
  mh_conn :: "'c option"
  mh_url :: string
  mh_user :: string
  mh_password :: string
  mh_schema :: string

definition reset_conn :: "'c MysqlHandle \<Rightarrow> 'c MysqlHandle" where
  "reset_conn h = h\<lparr>mh_conn := None\<rparr>"

text \<open>\<open>setSchema\<close> on the stored connection; an exception resets it.\<close>

definition select_schema :: "('c, 'w) driver \<Rightarrow> 'c \<Rightarrow> 'c MysqlHandle \<Rightarrow> 'w \<Rightarrow> 'c option \<times> 'c MysqlHandle \<times> 'w" where
  "select_schema dr c h w =
     (case dr_setSchema dr c (mh_schema h) w of (ok, w') \<Rightarrow>
        if ok then (Some c, h\<lparr>mh_conn := Some c\<rparr>, w') else (None, reset_conn h, w'))"

definition open_conn :: "('c, 'w) driver \<Rightarrow> 'c MysqlHandle \<Rightarrow> 'w \<Rightarrow> 'c option \<times> 'c MysqlHandle \<times> 'w" where
  "open_conn dr h w =
     (case dr_connect dr (mh_url h) (mh_user h) (mh_password h) w of
        (None, w1) \<Rightarrow> (None, reset_conn h, w1)
      | (Some c, w1) \<Rightarrow> select_schema dr c h w1)"

definition Get :: "('c, 'w) driver \<Rightarrow> 'c MysqlHandle \<Rightarrow> 'w \<Rightarrow> 'c option \<times> 'c MysqlHandle \<times> 'w" where
  "Get dr h w =
     (case mh_conn h of None \<Rightarrow> open_conn dr h w
      | Some c \<Rightarrow>
          (case dr_isValid dr c w of
             (None, w1) \<Rightarrow> (None, reset_conn h, w1)
           | (Some valid, w1) \<Rightarrow>
               if valid then (Some c, h, w1)
               else
                 (case dr_reconnect dr c w1 of
                    (None, w2) \<Rightarrow> (None, reset_conn h, w2)
                  | (Some again, w2) \<Rightarrow> if again then select_schema dr c h w2 else open_conn dr (reset_conn h) w2)))"

definition MysqlHandle_Init ::
  "('c, 'w) driver \<Rightarrow> string \<Rightarrow> string \<Rightarrow> string \<Rightarrow> string \<Rightarrow> 'w \<Rightarrow> bool \<times> 'c MysqlHandle \<times> 'w" where
  "MysqlHandle_Init dr url user password schema w =
     (case Get dr \<lparr>mh_conn = None, mh_url = url, mh_user = user, mh_password = password, mh_schema = schema\<rparr> w of
        (c, h, w') \<Rightarrow> (c \<noteq> None, h, w'))"

section \<open>Redis\<close>

record 'r boot_redis =
  br_get :: "string \<Rightarrow> 'r \<Rightarrow> string option option \<times> 'r"
  br_flushdb :: "'r \<Rightarrow> bool \<times> 'r"
  br_set :: "string \<Rightarrow> string \<Rightarrow> 'r \<Rightarrow> bool \<times> 'r"
  br_delItems :: "'r \<Rightarrow> bool \<times> 'r"
  br_pipe :: "RedisCmd list \<Rightarrow> 'r \<Rightarrow> bool \<times> 'r"

definition guest_key :: string where
  "guest_key = ''guest_uid_counter''"

definition item_prefix :: string where
  "item_prefix = ''item_meta:''"

text \<open>\<open>False\<close> is the exception that is rethrown.\<close>

definition ResetKeyspace :: "'r boot_redis \<Rightarrow> 'r \<Rightarrow> bool \<times> 'r" where
  "ResetKeyspace br r =
     (case br_get br guest_key r of
        (None, r1) \<Rightarrow> (False, r1)
      | (Some guestCounter, r1) \<Rightarrow>
          (case br_flushdb br r1 of (ok, r2) \<Rightarrow>
             if \<not> ok then (False, r2)
             else case guestCounter of None \<Rightarrow> (True, r2) | Some v \<Rightarrow> br_set br guest_key v r2))"

type_synonym item_row = "string \<times> string \<times> string \<times> string \<times> string"

definition item_cmd :: "item_row \<Rightarrow> RedisCmd" where
  "item_cmd x =
     (case x of (item_id, name, item_type, price, desc) \<Rightarrow>
        HSet (item_prefix @ item_id) [(''name'', name), (''type'', item_type), (''price'', price), (''desc'', desc)])"

text \<open>
  The query gives its rows, or an exception at any point before the last row was read. Every
  exception is caught inside.
\<close>

definition InitializeItemCache ::
  "'r boot_redis \<Rightarrow> ('c \<Rightarrow> 'w \<Rightarrow> item_row list option \<times> 'w) \<Rightarrow> 'c option \<Rightarrow> 'w \<Rightarrow> 'r \<Rightarrow> 'w \<times> 'r" where
  "InitializeItemCache br query conn w r =
     (case conn of None \<Rightarrow> (w, r)
      | Some c \<Rightarrow>
          (case br_delItems br r of (ok, r1) \<Rightarrow>
             if \<not> ok then (w, r1)
             else case query c w of
               (None, w1) \<Rightarrow> (w1, r1)
             | (Some rows, w1) \<Rightarrow> (w1, if rows = [] then r1 else snd (br_pipe br (map item_cmd rows) r1))))"

section \<open>The main process\<close>

record ('r, 'c, 'w) boot =
  bt_ring :: bool
  bt_redisOk :: "string \<Rightarrow> bool"
  bt_redis :: "'r boot_redis"
  bt_driver :: "('c, 'w) driver"
  bt_query :: "'c \<Rightarrow> 'w \<Rightarrow> item_row list option \<times> 'w"
  bt_sockets :: bool

datatype 'a BootResult = BootDedicated | BootAborted | BootExit int | BootRunning 'a

text \<open>
  \<open>main\<close> up to the loop. A \<open>std::string\<close> made from the null pointer of \<open>getenv\<close> throws
  \<open>std::logic_error\<close>: outside the \<open>try\<close> block it ends the process, inside it is caught.
\<close>

definition main_boot ::
  "('r, 'c, 'w) boot \<Rightarrow> ('r, 'c MysqlHandle \<times> 'w) menv \<Rightarrow> string list \<Rightarrow> string option \<Rightarrow> environ \<Rightarrow> 'r \<Rightarrow> 'w \<Rightarrow>
   ('r, 'c MysqlHandle \<times> 'w) main BootResult" where
  "main_boot bt e args envFile environ0 r w =
     (let env = SetEnv envFile environ0 in
      if 2 \<le> length args \<and> args ! 1 = ''--dedicated'' then BootDedicated
      else case (env ''REDIS_HOST'', env ''REDIS_PORT'', env ''MYSQL_HOST'', env ''MYSQL_PORT'') of
        (Some rhost, Some rport, Some dhost, Some dport) \<Rightarrow>
          if \<not> bt_ring bt \<or> \<not> bt_redisOk bt (''tcp://'' @ rhost @ '':'' @ rport) then BootExit 1
          else (case (env ''MYSQL_USER'', env ''MYSQL_PASSWORD'', env ''MYSQL_DATABASE'') of
            (Some user, Some pass, Some name) \<Rightarrow>
              (case MysqlHandle_Init (bt_driver bt) (''tcp://'' @ dhost @ '':'' @ dport) user pass name w of (mysqlOk, h1, w1) \<Rightarrow>
               if \<not> mysqlOk then BootExit 1
               else case ResetKeyspace (bt_redis bt) r of (ok, r1) \<Rightarrow>
                 if \<not> ok then BootExit 1
                 else case Get (bt_driver bt) h1 w1 of (conn, h2, w2) \<Rightarrow>
                   case InitializeItemCache (bt_redis bt) (bt_query bt) conn w2 r1 of (w3, r2) \<Rightarrow>
                   if \<not> bt_sockets bt then BootExit 1
                   else BootRunning (snd (SpawnSingleServer e (MakeDediManager r2 (h2, w3)))))
          | _ \<Rightarrow> BootExit 1)
      | _ \<Rightarrow> BootAborted)"

text \<open>A turn of the loop: the matchmakers, the completed reads, the database proxy.\<close>

definition main_turn :: "('r, 'd) menv \<Rightarrow> MainInput list \<Rightarrow> MainError + ('r, 'd) main \<Rightarrow> MainError + ('r, 'd) main" where
  "main_turn e ios s = main_step e (run (main_step e) (main_step e s MatchTime) ios) RunRequests"

section \<open>The UDP port of a dedicated process\<close>

definition MIN_PORT :: i32 where
  "MIN_PORT = 7000"

definition MAX_PORT :: i32 where
  "MAX_PORT = 7100"

function scan_ports :: "(i32 \<Rightarrow> bool) \<Rightarrow> i32 \<Rightarrow> i32 option" where
  "scan_ports bindable port =
     (if \<not> port \<le> MAX_PORT then None
      else if bindable port then Some port
      else scan_ports bindable (port + 1))"
  by pat_completeness auto

termination
  by (relation "measure (\<lambda>(b, p). nat (MAX_PORT + 1 - p))") (auto simp: MAX_PORT_def)

declare scan_ports.simps [simp del]

definition InitUDP :: "bool \<Rightarrow> (i32 \<Rightarrow> bool) \<Rightarrow> i32 option" where
  "InitUDP socketOk bindable = (if \<not> socketOk then None else scan_ports bindable MIN_PORT)"

lemma scan_ports_least:
  "scan_ports b p = Some q \<Longrightarrow> p \<le> q \<and> q \<le> MAX_PORT \<and> b q \<and> (\<forall>x. p \<le> x \<longrightarrow> x < q \<longrightarrow> \<not> b x)"
proof (induction b p rule: scan_ports.induct)
  case (1 b p)
  have le: "p \<le> MAX_PORT" using 1(2) by (subst (asm) scan_ports.simps) (simp split: if_splits)
  show ?case
  proof (cases "b p")
    case True
    then have "q = p" using 1(2) le by (subst (asm) scan_ports.simps) simp
    then show ?thesis using True le by simp
  next
    case False
    then have "scan_ports b (p + 1) = Some q" using 1(2) le by (subst (asm) scan_ports.simps) simp
    with 1(1) le False have IH: "p + 1 \<le> q" "q \<le> MAX_PORT" "b q" "\<forall>x. p + 1 \<le> x \<longrightarrow> x < q \<longrightarrow> \<not> b x" by auto
    have "\<not> b x" if "p \<le> x" "x < q" for x using IH(4) that False by (cases "x = p") auto
    then show ?thesis using IH by auto
  qed
qed

lemma scan_ports_None: "scan_ports b p = None \<Longrightarrow> p \<le> x \<Longrightarrow> x \<le> MAX_PORT \<Longrightarrow> \<not> b x"
proof (induction b p rule: scan_ports.induct)
  case (1 b p)
  have le: "p \<le> MAX_PORT" using 1(3,4) by simp
  have nb: "\<not> b p" using 1(2) le by (subst (asm) scan_ports.simps) (simp split: if_splits)
  then have "scan_ports b (p + 1) = None" using 1(2) le by (subst (asm) scan_ports.simps) simp
  then show ?case using 1(1) le nb 1(3,4) by (cases "x = p") auto
qed

text \<open>The port that is chosen is the lowest free one of 7000 to 7100, and there is one unless none is free.\<close>

lemma InitUDP_port:
  "InitUDP True b = Some q \<longleftrightarrow> 7000 \<le> q \<and> q \<le> 7100 \<and> b q \<and> (\<forall>x. 7000 \<le> x \<longrightarrow> x < q \<longrightarrow> \<not> b x)"
proof
  assume "InitUDP True b = Some q"
  then show "7000 \<le> q \<and> q \<le> 7100 \<and> b q \<and> (\<forall>x. 7000 \<le> x \<longrightarrow> x < q \<longrightarrow> \<not> b x)"
    using scan_ports_least [of b MIN_PORT q] by (simp add: InitUDP_def MIN_PORT_def MAX_PORT_def)
next
  assume q: "7000 \<le> q \<and> q \<le> 7100 \<and> b q \<and> (\<forall>x. 7000 \<le> x \<longrightarrow> x < q \<longrightarrow> \<not> b x)"
  then obtain q' where q': "scan_ports b MIN_PORT = Some q'"
    using scan_ports_None [of b MIN_PORT q] by (cases "scan_ports b MIN_PORT") (auto simp: MIN_PORT_def MAX_PORT_def)
  from scan_ports_least [OF q'] q have "\<not> q' < q" "\<not> q < q'" by (auto simp: MIN_PORT_def)
  then show "InitUDP True b = Some q" using q' by (simp add: InitUDP_def)
qed

section \<open>The schema is selected\<close>

text \<open>
  The documented behaviour of the driver, for a predicate that tells whether the schema is
  selected on a connection: \<open>setSchema\<close> selects it, and a connection that is still valid keeps it.
\<close>

definition driver_laws :: "('c, 'w) driver \<Rightarrow> string \<Rightarrow> ('c \<Rightarrow> 'w \<Rightarrow> bool) \<Rightarrow> bool" where
  "driver_laws dr schema sel \<longleftrightarrow>
     (\<forall>c w w'. dr_setSchema dr c schema w = (True, w') \<longrightarrow> sel c w') \<and>
     (\<forall>c w w'. dr_isValid dr c w = (Some True, w') \<longrightarrow> sel c w \<longrightarrow> sel c w')"

lemma select_schema_sel:
  assumes "driver_laws dr (mh_schema h) sel" "select_schema dr c h w = (x, h', w')"
  shows "x = mh_conn h' \<and> mh_schema h' = mh_schema h \<and> (\<forall>c. x = Some c \<longrightarrow> sel c w')"
  using assms by (auto simp: select_schema_def driver_laws_def reset_conn_def split: prod.splits if_splits)

lemma open_conn_sel:
  assumes "driver_laws dr (mh_schema h) sel" "open_conn dr h w = (x, h', w')"
  shows "x = mh_conn h' \<and> mh_schema h' = mh_schema h \<and> (\<forall>c. x = Some c \<longrightarrow> sel c w')"
proof -
  obtain o1 w1 where c: "dr_connect dr (mh_url h) (mh_user h) (mh_password h) w = (o1, w1)" by (metis prod.exhaust)
  show ?thesis
  proof (cases o1)
    case None
    then show ?thesis using assms(2) c by (auto simp: open_conn_def reset_conn_def)
  next
    case (Some d)
    then have "select_schema dr d h w1 = (x, h', w')" using assms(2) c by (simp add: open_conn_def)
    then show ?thesis by (rule select_schema_sel [OF assms(1)])
  qed
qed

text \<open>C38. A connection that \<open>MysqlHandle::Get\<close> hands out always has the schema selected: whatever is lost,
  refused or thrown on the way, and over any sequence of calls, what \<open>Get\<close> returns is the stored
  connection, it is either still valid or was just (re)connected with the schema selected again,
  and after a failure nothing is stored, so that the next call connects anew.\<close>

theorem mysql_schema_selected:
  assumes "driver_laws dr (mh_schema h) sel" "\<forall>c. mh_conn h = Some c \<longrightarrow> sel c w" "Get dr h w = (x, h', w')"
  shows "x = mh_conn h' \<and> mh_schema h' = mh_schema h \<and> (\<forall>c. x = Some c \<longrightarrow> sel c w')"
proof (cases "mh_conn h")
  case None
  then show ?thesis using open_conn_sel [OF assms(1)] assms(3) by (simp add: Get_def)
next
  case (Some c)
  have reset: "driver_laws dr (mh_schema (reset_conn h)) sel" "mh_schema (reset_conn h) = mh_schema h" "mh_conn (reset_conn h) = None"
    using assms(1) by (simp_all add: reset_conn_def)
  obtain v w1 where v: "dr_isValid dr c w = (v, w1)" by (metis prod.exhaust)
  obtain a w2 where a: "dr_reconnect dr c w1 = (a, w2)" by (metis prod.exhaust)
  consider "v = None" | "v = Some True" | "v = Some False" "a = None" | "v = Some False" "a = Some True" | "v = Some False" "a = Some False"
    by (cases v; cases a) auto
  then show ?thesis
  proof cases
    case 1
    then show ?thesis using assms(3) reset by (auto simp: Get_def Some v)
  next
    case 2
    then have "x = Some c" "h' = h" "w' = w1" using assms(3) by (simp_all add: Get_def Some v)
    then show ?thesis using assms(1,2) 2 v Some by (auto simp: driver_laws_def)
  next
    case 3
    then show ?thesis using assms(3) reset by (auto simp: Get_def Some v a)
  next
    case 4
    then have "select_schema dr c h w2 = (x, h', w')" using assms(3) by (simp add: Get_def Some v a)
    then show ?thesis by (rule select_schema_sel [OF assms(1)])
  next
    case 5
    then have "open_conn dr (reset_conn h) w2 = (x, h', w')" using assms(3) by (simp add: Get_def Some v a)
    from open_conn_sel [OF reset(1) this] show ?thesis by (simp add: reset(2))
  qed
qed

text \<open>A driver of one connection, which is the state itself: whether it is up, and the selected schema.\<close>

definition ex_driver :: "(unit, bool \<times> string) driver" where
  "ex_driver =
     \<lparr>dr_connect = (\<lambda>url user pass w. (Some (), (True, []))), dr_isValid = (\<lambda>c w. (Some (fst w), w)),
      dr_reconnect = (\<lambda>c w. (Some True, (True, []))), dr_setSchema = (\<lambda>c s w. (True, (fst w, s)))\<rparr>"

theorem mysql_schema_selected_witness:
  "(case Get ex_driver \<lparr>mh_conn = Some (), mh_url = [], mh_user = [], mh_password = [], mh_schema = ''game''\<rparr> (False, ''game'') of
     (x, h, w) \<Rightarrow> x = mh_conn h \<and> (\<forall>c. x = Some c \<longrightarrow> snd w = ''game''))"
proof -
  let ?h = "\<lparr>mh_conn = Some (), mh_url = [], mh_user = [], mh_password = [], mh_schema = ''game''\<rparr>"
  have "driver_laws ex_driver (mh_schema ?h) (\<lambda>c w. snd w = ''game'')" by (auto simp: driver_laws_def ex_driver_def)
  from mysql_schema_selected [OF this, of "(False, ''game'')"] show ?thesis
    by (cases "Get ex_driver ?h (False, ''game'')") auto
qed

section \<open>The start\<close>

text \<open>
  The documented behaviour of the Redis commands the start uses, on the set of keys and the
  string values: what succeeded has its effect, and a pipeline or the deletion of the items
  touches no other key even when it fails half-way.
\<close>

definition boot_redis_laws :: "'r boot_redis \<Rightarrow> ('r \<Rightarrow> string set) \<Rightarrow> ('r \<Rightarrow> string \<Rightarrow> string option) \<Rightarrow> bool" where
  "boot_redis_laws br ks val \<longleftrightarrow>
     (\<forall>k r v r'. br_get br k r = (Some v, r') \<longrightarrow> v = val r k) \<and>
     (\<forall>r r'. br_flushdb br r = (True, r') \<longrightarrow> ks r' = {} \<and> val r' = (\<lambda>k. None)) \<and>
     (\<forall>k v r r'. br_set br k v r = (True, r') \<longrightarrow> ks r' = insert k (ks r) \<and> val r' = (val r)(k := Some v)) \<and>
     (\<forall>r ok r'. br_delItems br r = (ok, r') \<longrightarrow> ks r' \<subseteq> ks r \<and> (\<forall>k. take 10 k \<noteq> item_prefix \<longrightarrow> val r' k = val r k)) \<and>
     (\<forall>cs r ok r'. br_pipe br (map item_cmd cs) r = (ok, r') \<longrightarrow>
        ks r' \<subseteq> ks r \<union> {k. take 10 k = item_prefix} \<and> (\<forall>k. take 10 k \<noteq> item_prefix \<longrightarrow> val r' k = val r k))"

lemma ResetKeyspace_clean:
  assumes "boot_redis_laws br ks val" "ResetKeyspace br r = (True, r')"
  shows "ks r' \<subseteq> {guest_key}" "val r' guest_key = val r guest_key"
proof -
  from assms(2) obtain g r1 r2 where g: "br_get br guest_key r = (Some g, r1)" "br_flushdb br r1 = (True, r2)"
    and rest: "(case g of None \<Rightarrow> (True, r2) | Some v \<Rightarrow> br_set br guest_key v r2) = (True, r')"
    by (auto simp: ResetKeyspace_def split: prod.splits option.splits if_splits)
  have "g = val r guest_key" using assms(1) g(1) by (simp add: boot_redis_laws_def)
  moreover have "ks r2 = {}" "val r2 = (\<lambda>k. None)" using assms(1) g(2) by (simp_all add: boot_redis_laws_def)
  moreover have "ks r' = insert guest_key (ks r2) \<and> val r' = (val r2)(guest_key := Some v)" if "br_set br guest_key v r2 = (True, r')" for v
    using assms(1) that by (simp add: boot_redis_laws_def)
  ultimately show "ks r' \<subseteq> {guest_key}" "val r' guest_key = val r guest_key" using rest by (auto split: option.splits)
qed

lemma guest_key_no_item: "take 10 guest_key \<noteq> item_prefix"
  by (simp add: guest_key_def item_prefix_def)

lemma ItemCache_clean:
  assumes "boot_redis_laws br ks val" "InitializeItemCache br q conn w r = (w', r')"
  shows "ks r' \<subseteq> ks r \<union> {k. take 10 k = item_prefix}" "val r' guest_key = val r guest_key"
proof -
  obtain ok r1 where d: "br_delItems br r = (ok, r1)" by (metis prod.exhaust)
  have d': "ks r1 \<subseteq> ks r" "val r1 guest_key = val r guest_key"
    using assms(1) d guest_key_no_item by (auto simp: boot_redis_laws_def)
  have p: "ks (snd (br_pipe br (map item_cmd cs) r1)) \<subseteq> ks r1 \<union> {k. take 10 k = item_prefix}"
    "val (snd (br_pipe br (map item_cmd cs) r1)) guest_key = val r1 guest_key" for cs
    using assms(1) guest_key_no_item by (cases "br_pipe br (map item_cmd cs) r1"; simp add: boot_redis_laws_def; blast)+
  show "ks r' \<subseteq> ks r \<union> {k. take 10 k = item_prefix}" "val r' guest_key = val r guest_key"
    using assms(2) d' p by (auto simp: InitializeItemCache_def d split: option.splits if_splits prod.splits)
qed

lemma main_turns_ok: "alive_ok s \<Longrightarrow> alive_ok (fold (main_turn e) turns s)"
proof (induction turns arbitrary: s)
  case (Cons ios turns)
  have "alive_ok (run (main_step e) s (MatchTime # ios @ [RunRequests]))" using Cons.prems by (rule main.run_inv)
  then show ?case using Cons.IH by (simp add: main_turn_def run_append)
qed simp

lemma boot_running:
  assumes "main_boot bt e args envFile env r w = BootRunning m"
  shows "\<exists>r1 r2 conn w2 w3 d. ResetKeyspace (bt_redis bt) r = (True, r1) \<and>
    InitializeItemCache (bt_redis bt) (bt_query bt) conn w2 r1 = (w3, r2) \<and> m = snd (SpawnSingleServer e (MakeDediManager r2 d))"
  using assms unfolding main_boot_def Let_def by (simp split: prod.splits option.splits if_splits) blast

text \<open>C18. The main process serves only on a clean store: when its start reaches the loop, every key of an
  earlier run is gone from Redis except the guest counter, which has kept its value, and the
  item data; and from there the process stays consistent over any number of turns of the loop,
  with any requests and messages in each.\<close>

theorem startup_clean:
  assumes "boot_redis_laws (bt_redis bt) ks val" "main_boot bt e args envFile env r w = BootRunning m"
  shows "ks (mn_redis m) \<subseteq> insert guest_key {k. take 10 k = item_prefix} \<and> val (mn_redis m) guest_key = val r guest_key \<and>
    (\<forall>turns. alive_ok (fold (main_turn e) turns (Inr m)))"
proof -
  from boot_running [OF assms(2)] obtain r1 r2 conn w2 w3 d where b: "ResetKeyspace (bt_redis bt) r = (True, r1)"
    "InitializeItemCache (bt_redis bt) (bt_query bt) conn w2 r1 = (w3, r2)" "m = snd (SpawnSingleServer e (MakeDediManager r2 d))" by blast
  have "mn_redis m = r2" by (simp add: b(3) SpawnSingleServer_def MakeDediManager_def Let_def)
  then have "ks (mn_redis m) \<subseteq> insert guest_key {k. take 10 k = item_prefix} \<and> val (mn_redis m) guest_key = val r guest_key"
    using ResetKeyspace_clean [OF assms(1) b(1)] ItemCache_clean [OF assms(1) b(2)] by auto
  moreover have "alive_ok (main_step e (Inr (MakeDediManager r2 d)) SpawnServer)"
    using main.run_inv [of "Inr (MakeDediManager r2 d)" e "[SpawnServer]"] by (simp add: alive_ok_def main_ok_new)
  then have "alive_ok (Inr m)" by (simp add: main_step_def b(3))
  ultimately show ?thesis using main_turns_ok by blast
qed

text \<open>A concrete store of strings, with the hash of an item as an empty string.\<close>

definition ex_boot_redis :: "(string, string) hmap boot_redis" where
  "ex_boot_redis =
     \<lparr>br_get = (\<lambda>k r. (Some (hm_find r k), r)), br_flushdb = (\<lambda>r. (True, [])), br_set = (\<lambda>k v r. (True, hm_set k v r)),
      br_delItems = (\<lambda>r. (True, filter (\<lambda>x. take 10 (fst x) \<noteq> item_prefix) r)),
      br_pipe = (\<lambda>cs r. (True, fold (\<lambda>c r. case c of HSet k fs \<Rightarrow> hm_set k [] r | _ \<Rightarrow> r) cs r))\<rparr>"

lemma ex_pipe:
  "take 10 k \<noteq> item_prefix \<Longrightarrow>
   hm_find (fold (\<lambda>c r. case c of HSet k fs \<Rightarrow> hm_set k [] r | _ \<Rightarrow> r) (map item_cmd cs) r) k = hm_find r k"
proof (induction cs arbitrary: r)
  case (Cons x cs)
  obtain i n t p d where x: "x = (i, n, t, p, d)" by (metis prod.exhaust)
  have "k \<noteq> item_prefix @ i" using Cons.prems by (auto simp: item_prefix_def)
  then show ?case using Cons by (simp add: x item_cmd_def hm_find_set)
qed simp

lemma ex_boot_redis_laws: "boot_redis_laws ex_boot_redis (\<lambda>r. set (hm_keys r)) hm_find"
proof -
  have f: "hm_find (filter (\<lambda>x. take 10 (fst x) \<noteq> item_prefix) r) k = hm_find r k" if "take 10 k \<noteq> item_prefix" for r :: "(string, string) hmap" and k
    using that by (induction r) (auto simp: hm_find_def)
  have ks: "k \<in> set (hm_keys r)" if "k \<in> set (hm_keys r')" "hm_find r' k = hm_find r k" for r r' :: "(string, string) hmap" and k
    using that by (simp add: hm_find_keys)
  have "set (hm_keys (filter (\<lambda>x. take 10 (fst x) \<noteq> item_prefix) r)) \<subseteq> set (hm_keys r)" for r :: "(string, string) hmap"
    by (auto simp: hm_keys_def)
  moreover have "set (hm_keys (fold (\<lambda>c r. case c of HSet k fs \<Rightarrow> hm_set k [] r | _ \<Rightarrow> r) (map item_cmd cs) r)) \<subseteq>
      set (hm_keys r) \<union> {k. take 10 k = item_prefix}" for cs and r :: "(string, string) hmap"
  proof
    fix x
    assume "x \<in> set (hm_keys (fold (\<lambda>c r. case c of HSet k fs \<Rightarrow> hm_set k [] r | _ \<Rightarrow> r) (map item_cmd cs) r))"
    from ks [OF this ex_pipe] show "x \<in> set (hm_keys r) \<union> {k. take 10 k = item_prefix}" by auto
  qed
  moreover have "set (hm_keys (hm_set k v r)) = insert k (set (hm_keys r))" for k v and r :: "(string, string) hmap"
    by (auto simp: hm_find_keys hm_find_set split: if_splits)
  moreover have "hm_find (hm_set k v r) = (hm_find r)(k := Some v)" for k v and r :: "(string, string) hmap"
    by (simp add: fun_eq_iff hm_find_set)
  moreover have "hm_keys ([] :: (string, string) hmap) = []" "hm_find ([] :: (string, string) hmap) = (\<lambda>k. None)"
    by (simp_all add: hm_keys_def hm_find_def fun_eq_iff)
  ultimately show ?thesis unfolding boot_redis_laws_def by (simp add: ex_boot_redis_def f ex_pipe)
qed

definition ex_boot :: "((string, string) hmap, unit, bool \<times> string) boot" where
  "ex_boot = \<lparr>bt_ring = True, bt_redisOk = (\<lambda>url. True), bt_redis = ex_boot_redis, bt_driver = ex_driver,
     bt_query = (\<lambda>c w. (Some [(''7'', ''Rifle'', ''WEAPON'', ''900'', [])], w)), bt_sockets = True\<rparr>"

definition ex_environ :: environ where
  "ex_environ = map_of [(''REDIS_HOST'', ''db''), (''REDIS_PORT'', ''6379''), (''MYSQL_HOST'', ''db''), (''MYSQL_PORT'', ''3306''),
     (''MYSQL_USER'', ''u''), (''MYSQL_PASSWORD'', ''p''), (''MYSQL_DATABASE'', ''game'')]"

lemma ex_boot_runs:
  "\<exists>m. main_boot ex_boot e [] None ex_environ [(guest_key, ''-41''), (''active_match:7'', ''INGAME'')] (False, []) = BootRunning m"
  by (simp add: main_boot_def ex_boot_def ex_environ_def SetEnv_def MysqlHandle_Init_def Get_def open_conn_def select_schema_def ex_driver_def
      ResetKeyspace_def ex_boot_redis_def InitializeItemCache_def hm_find_def)

theorem startup_clean_witness:
  "\<forall>e. \<exists>m. main_boot ex_boot e [] None ex_environ [(guest_key, ''-41''), (''active_match:7'', ''INGAME'')] (False, []) = BootRunning m \<and>
     ''active_match:7'' \<notin> set (hm_keys (mn_redis m)) \<and> hm_find (mn_redis m) guest_key = Some ''-41''"
proof
  fix e :: "((string, string) hmap, unit MysqlHandle \<times> bool \<times> string) menv"
  obtain m where m: "main_boot ex_boot e [] None ex_environ [(guest_key, ''-41''), (''active_match:7'', ''INGAME'')] (False, []) = BootRunning m"
    using ex_boot_runs by blast
  have "boot_redis_laws (bt_redis ex_boot) (\<lambda>r. set (hm_keys r)) hm_find" by (simp add: ex_boot_def ex_boot_redis_laws)
  from startup_clean [OF this m] have "set (hm_keys (mn_redis m)) \<subseteq> insert guest_key {k. take 10 k = item_prefix}"
    "hm_find (mn_redis m) guest_key = hm_find [(guest_key, ''-41''), (''active_match:7'', ''INGAME'')] guest_key" by blast+
  moreover have "''active_match:7'' \<notin> insert guest_key {k. take 10 k = item_prefix}" by (simp add: guest_key_def item_prefix_def)
  ultimately show "\<exists>m. main_boot ex_boot e [] None ex_environ [(guest_key, ''-41''), (''active_match:7'', ''INGAME'')] (False, []) = BootRunning m \<and>
     ''active_match:7'' \<notin> set (hm_keys (mn_redis m)) \<and> hm_find (mn_redis m) guest_key = Some ''-41''"
    using m by (auto simp: hm_find_def)
qed



end
