(* ===== verification/Spec2Isabelle.thy ===== *)
theory Spec2Isabelle
  imports HandlerProps DbProxy System Startup
begin

text \<open>
  \<^bold>\<open>The servers of an extraction shooter\<close>

  The program runs as one main process and several dedicated processes, written in C++ under
  \<open>src/\<close> and \<open>src/DedicateProcess/\<close>, beside an HTTPS server in JavaScript. Players queue
  through the HTTPS server; the main process groups their tickets, keeps Redis and MySQL up to
  date and hands each group to a dedicated process; there a room plays the match over UDP. When
  a player leaves, the dedicated process reports what he carried, and the main process writes it
  to the database. The main process and a dedicated process talk over a Unix socket with framed
  Protocol Buffers messages.

  \<^bold>\<open>The model\<close>

  A C++ class is a record, an enum a datatype, an operation a function on the records that
  returns the new state; a 32-bit signed value is an \<open>int\<close> whose casts and wrap-around are
  written out, an unsigned value a machine word. Where the program keeps pointers, the owner
  keeps the objects and others keep ids: a room owns its sessions and objects, the ticket pool
  the tickets, which several queues share by address. Hash maps are association lists without
  duplicate keys (locale \<open>hash_map\<close>); their order is any order. What leaves a component is
  appended to a list of effects (UDP packets, timers, messages). Errors are values: \<open>option\<close> for
  null results and calls that may not return, a sum with \<^typ>\<open>MainError\<close> for exceptions that
  end the main process and for undefined behaviour.

  Code outside \<open>src/\<close> is a parameter. \<open>env\<close> has the clock, the keyed hash, the encoding of client
  messages and the address parser of a dedicated process, \<open>rng\<close> the random engine (hypothesis
  \<open>rng_ok\<close>: draws lie in their range), \<open>menv\<close> Redis, MySQL, the JSON parser, \<open>fork\<close>, the clock
  and the interfaces of the main process, \<open>ipc_codec\<close> the Protocol Buffers messages, \<open>boot\<close> and
  \<open>driver\<close> what the start needs. Their documented behaviour is named where a property uses it:
  \<open>sql_laws\<close>, \<open>redis_laws\<close>, \<open>eval_law\<close>, \<open>decodes\<close>, \<open>driver_laws\<close>, \<open>boot_redis_laws\<close>, \<open>mono\<close> clocks.
  Every property with such a hypothesis has a witness with a concrete instance.

  \<^bold>\<open>The theories\<close>

  \<^item> \<open>Prelude\<close>: integer types, hash maps, runs of step systems and the locales \<open>hash_map\<close>,
    \<open>step_system\<close> (an invariant kept by every step) and \<open>monotone_system\<close>. \<open>Float32\<close>: the part of
    binary32 that positions and range tests use, with NaN. \<open>Decimal\<close>: \<open>stoi\<close> and \<open>to_string\<close>.
  \<^item> \<open>Items\<close>, \<open>Inventory\<close>: \<open>Items.h\<close>, \<open>ItemDataManager.h\<close>, \<open>PlayerInventory\<close>. Every operation on
    slots, weapons, armour and magazines conserves items up to the documented discards; a refused
    one changes nothing.
  \<^item> \<open>Packets\<close>, \<open>Session\<close>: the UDP header, the messages and \<open>PlayerSession\<close> with the reliable
    window, acknowledgements, retransmission, the leave protocol and recalls.
  \<^item> \<open>Objects\<close>, \<open>Container\<close>, \<open>MapData\<close>: \<open>UnityGameObjects/\<close> and \<open>MapDataManager.h\<close>: hit points,
    shields, NPC authority, containers and recall zones.
  \<^item> \<open>GameRoom\<close>, \<open>RoomInit\<close>, \<open>Handlers\<close>: \<open>GameRoom\<close> with both kinds of rooms, and every
    handler of \<open>ClientPacketHandler\<close>. \<open>RoomInv\<close>: the invariant and its preservation. \<open>RoomRun\<close>: a
    room as a step system over its inputs, the refinement of the abstract leave protocol,
    notification exactly once, closing. \<open>RoomItems\<close>: no item is ever duplicated. \<open>RoomStart\<close>: new
    rooms. \<open>HandlerProps\<close>, \<open>Delivery\<close>: what single handlers promise, and delivery end to end.
  \<^item> \<open>DediServer\<close>, \<open>DediInv\<close>: \<open>DediServerService\<close>, the invariant of the process, routing of
    sessions, ownership of entry tokens, destruction of rooms (locale \<open>room_op\<close>: what an
    operation of a room must keep so that the process stays consistent). \<open>Timer\<close>, \<open>DediLoop\<close>:
    \<open>TimerExecuter\<close>, where the heap is a multiset and a tick a relation since the order of equal
    times is open, and the loop of \<open>DedicateMain.cpp\<close>.
  \<^item> \<open>Matchmaker\<close>, \<open>MainServer\<close>: \<open>Matchmaker\<close>, \<open>ObjectPool\<close>, \<open>M2DSessions\<close>, \<open>DediManager\<close>,
    \<open>PacketHandler\<close>, \<open>DBProxyRequest\<close>. \<open>MatchRound\<close>, \<open>MainRun\<close>: the invariant of the main process
    through a round (locale \<open>object_pool\<close>, interpreted on the ticket pool) and over any run, the
    outcome of starting a group. \<open>DbProxy\<close>: atomic inventory updates and the way of a client's
    address back to the process that issued the token.
  \<^item> \<open>Ipc\<close>, \<open>IpcRun\<close>: \<open>RecvBuffer\<close>, \<open>SendBuffer\<close>, the framing and the read loops, the table of
    handlers, the handshake; reading a byte stream is running the messages in it.
  \<^item> \<open>EnvFile\<close>, \<open>Startup\<close>: \<open>EnvSetter.cpp\<close>, \<open>MysqlHandle\<close>, \<open>RedisHandler\<close>, \<open>main.cpp\<close>, the UDP port.
  \<^item> \<open>System\<close>: the outputs of a dedicated process as the stream the main process reads.

  \<^bold>\<open>Loops that may not end\<close>

  The token loop \<open>GetUniqueToken\<close> and the read loop \<open>process_packets\<close> are partial functions, where
  \<open>None\<close> stands for not returning. The first returns exactly when an unused token is eventually
  drawn; the second is shown to return on every stream of well-formed packets. All other loops
  are total functions; there is no fuel. A tick of the timers is shown to end.

  \<^bold>\<open>Bounds\<close>

  The properties of the streams are for packets below 65536 bytes and for at most 65536 bytes per
  session: the program never reclaims its receive buffer, so more cannot arrive (a finding).
  \<open>MakeSendBuffer\<close> truncates sizes to 16 bits, which the model keeps.

  \<^bold>\<open>Not modelled\<close>

  System calls and \<open>io_uring\<close> (\<open>IoUringWrapper\<close> but for \<open>OpenSendBuffer\<close>, \<open>IOTask\<close>, \<open>UDPTask\<close>, the
  creation of sockets in \<open>SocketWrapper\<close> and \<open>DediServerService::InitMainIPC\<close>): they only hand bytes
  to the kernel, whose results are the inputs of the model. \<open>HTTPserver.cpp\<close> starts a process,
  \<open>NetAddress\<close> wraps two library calls, \<open>sample.h\<close> is not part of the program. Log output is left
  out everywhere. The HTTPS server is a JavaScript program of its own. The pools of requests and
  tasks are not modelled: their objects are used by one owner from acquisition to release.
\<close>

end
